(* ===== verification/Prelude.thy ===== *)
theory Prelude
  imports Main "HOL-Library.Word" "HOL-Library.AList" "HOL-Library.Multiset"
begin

text \<open>
  The vocabulary every component of the development shares.

  \<^item> Machine integers: \<open>u8\<close> to \<open>u128\<close> are words of that width, so \<open>+\<close>, \<open>-\<close> and
    \<open>*\<close> wrap around as the release build's arithmetic does; \<open>sat_add\<close>, \<open>sat_sub\<close> and
    \<open>abs_diff\<close> are Rust's \<open>saturating_add\<close>, \<open>saturating_sub\<close> and \<open>abs_diff\<close>. Each
    has a lemma that reads it through \<open>unat\<close>, collected in \<open>word_nat\<close>.
  \<^item> Hash maps: a \<open>HashMap\<close> is an association list with distinct keys, whose order
    is the (unspecified) iteration order of the map. \<open>insert\<close>, \<open>remove\<close>, \<open>get\<close>,
    \<open>retain\<close> and \<open>len\<close> are \<open>AList.update\<close>, \<open>AList.delete\<close>, \<open>map_of\<close>,
    \<open>filter\<close> and \<open>length\<close>. A result that depends on the map only is shown to be
    the same for every order of the list.
  \<^item> Runs of a component: the locales \<open>machine\<close> and \<open>absorbing_machine\<close> are the
    interface of every component that is driven by a sequence of calls.
\<close>

type_synonym u8 = "8 word"
type_synonym u16 = "16 word"
type_synonym u32 = "32 word"
type_synonym u64 = "64 word"
type_synonym u128 = "128 word"
type_synonym bytes = "u8 list"
type_synonym ('k, 'v) hmap = "('k \<times> 'v) list"

named_theorems word_nat \<open>machine arithmetic read through \<open>unat\<close>\<close>
named_theorems hm_simps \<open>lookup after an update of a hash map\<close>

section \<open>Machine arithmetic\<close>

definition sat_add :: "'a::len word \<Rightarrow> 'a word \<Rightarrow> 'a word" where
  "sat_add a b = (let s = a + b in if s < a then - 1 else s)"

definition sat_sub :: "'a::len word \<Rightarrow> 'a word \<Rightarrow> 'a word" where
  "sat_sub a b = (if b \<le> a then a - b else 0)"

definition abs_diff :: "'a::len word \<Rightarrow> 'a word \<Rightarrow> 'a word" where
  "abs_diff a b = (if b \<le> a then a - b else b - a)"

section \<open>Hash maps\<close>

definition hm_wf :: "('k, 'v) hmap \<Rightarrow> bool" where
  "hm_wf m \<longleftrightarrow> distinct (map fst m)"

definition hm_contains :: "('k, 'v) hmap \<Rightarrow> 'k \<Rightarrow> bool" where
  "hm_contains m k \<longleftrightarrow> map_of m k \<noteq> None"

abbreviation hm_get :: "('k, 'v) hmap \<Rightarrow> 'k \<Rightarrow> 'v option" where
  "hm_get m k \<equiv> map_of m k"

abbreviation hm_insert :: "'k \<Rightarrow> 'v \<Rightarrow> ('k, 'v) hmap \<Rightarrow> ('k, 'v) hmap" where
  "hm_insert \<equiv> AList.update"

abbreviation hm_remove :: "'k \<Rightarrow> ('k, 'v) hmap \<Rightarrow> ('k, 'v) hmap" where
  "hm_remove \<equiv> AList.delete"

definition hm_retain :: "('k \<Rightarrow> 'v \<Rightarrow> bool) \<Rightarrow> ('k, 'v) hmap \<Rightarrow> ('k, 'v) hmap" where
  "hm_retain p m = filter (\<lambda>(k, v). p k v) m"

definition hm_get_or :: "'v \<Rightarrow> ('k, 'v) hmap \<Rightarrow> 'k \<Rightarrow> 'v" where
  "hm_get_or d m k = (case map_of m k of None \<Rightarrow> d | Some v \<Rightarrow> v)"

section \<open>Lemmas on machine arithmetic\<close>

lemma unat_lt_pow [simp]: "unat (a :: 'a::len word) < 2 ^ LENGTH('a)"
  by (fact unsigned_less)

lemma unat_minus_one_word_eq: "unat (- 1 :: 'a::len word) = 2 ^ LENGTH('a) - 1"
  by (simp add: unsigned_minus_1_eq_mask mask_eq_exp_minus_1)

lemma unat_sat_add [word_nat]:
  "unat (sat_add a b) = min (unat a + unat b) (2 ^ LENGTH('a) - 1)" for a b :: "'a::len word"
proof (cases "unat a + unat b < 2 ^ LENGTH('a)")
  case True
  then have "unat (a + b) = unat a + unat b" by (simp add: unat_word_ariths)
  then show ?thesis using True by (simp add: sat_add_def Let_def word_less_nat_alt)
next
  case False
  have lt: "unat a < 2 ^ LENGTH('a)" "unat b < 2 ^ LENGTH('a)" by simp_all
  from False lt have small: "unat a + unat b - 2 ^ LENGTH('a) < 2 ^ LENGTH('a)" by linarith
  have "unat (a + b) = unat a + unat b - 2 ^ LENGTH('a)"
    using False mod_less [OF small] by (simp add: unat_word_ariths le_mod_geq)
  also have "\<dots> < unat a" using False lt by linarith
  finally show ?thesis using False by (simp add: sat_add_def Let_def word_less_nat_alt unat_minus_one_word_eq)
qed

lemma unat_sat_sub [word_nat]: "unat (sat_sub a b) = unat a - unat b"
  by (auto simp: sat_sub_def unat_sub word_le_nat_alt)

lemma unat_abs_diff [word_nat]:
  "unat (abs_diff a b) = (if unat b \<le> unat a then unat a - unat b else unat b - unat a)"
  by (auto simp: abs_diff_def unat_sub word_le_nat_alt)

lemma abs_diff_commute: "abs_diff a b = abs_diff b a"
  by (rule word_unat_eq_iff [THEN iffD2]) (simp add: unat_abs_diff)

lemma abs_diff_self [simp]: "abs_diff a a = 0"
  by (simp add: abs_diff_def)

lemmas [word_nat] = word_le_nat_alt word_less_nat_alt

lemma unat_sum_list_mod:
  "unat (sum_list ws) = sum_list (map unat ws) mod 2 ^ LENGTH('a)" for ws :: "'a::len word list"
  by (induction ws) (simp_all add: unat_word_ariths mod_add_right_eq)

lemma unat_sum_list:
  "sum_list (map unat ws) < 2 ^ LENGTH('a) \<Longrightarrow> unat (sum_list ws) = sum_list (map unat ws)"
  for ws :: "'a::len word list"
  by (simp add: unat_sum_list_mod)

lemma sorted_le_last: "sorted (x # xs) \<Longrightarrow> x \<le> last (x # xs)"
  using last_in_set [of "x # xs"] by auto

section \<open>Lemmas on hash maps\<close>

lemma hm_wf_Nil [simp]: "hm_wf []"
  by (simp add: hm_wf_def)

lemma hm_wf_insert [simp]: "hm_wf m \<Longrightarrow> hm_wf (hm_insert k v m)"
  by (simp add: hm_wf_def distinct_update)

lemma hm_wf_remove [simp]: "hm_wf m \<Longrightarrow> hm_wf (hm_remove k m)"
  by (simp add: hm_wf_def distinct_delete)

lemma hm_wf_retain [simp]: "hm_wf m \<Longrightarrow> hm_wf (hm_retain p m)"
  by (auto simp: hm_wf_def hm_retain_def distinct_map inj_on_def)

lemma hm_get_insert [hm_simps]: "hm_get (hm_insert k v m) j = (if j = k then Some v else hm_get m j)"
  by (simp add: update_conv)

lemma hm_get_remove [hm_simps]: "hm_get (hm_remove k m) j = (if j = k then None else hm_get m j)"
  by (simp add: delete_conv')

lemma hm_get_retain [hm_simps]:
  "hm_wf m \<Longrightarrow> hm_get (hm_retain p m) k =
     (case hm_get m k of None \<Rightarrow> None | Some v \<Rightarrow> if p k v then Some v else None)"
  by (induction m)
    (auto simp: hm_wf_def hm_retain_def map_of_eq_None_iff split: option.splits dest!: map_of_SomeD intro: rev_image_eqI)

lemma hm_contains_iff_dom: "hm_contains m k \<longleftrightarrow> k \<in> fst ` set m"
  by (simp add: hm_contains_def map_of_eq_None_iff)

lemma hm_wf_mset_cong: "mset m = mset m' \<Longrightarrow> hm_wf m \<longleftrightarrow> hm_wf m'"
  using mset_eq_imp_distinct_iff [of "map fst m" "map fst m'"] by (simp add: hm_wf_def)

lemma hm_get_mset_cong:
  "hm_wf m \<Longrightarrow> mset m = mset m' \<Longrightarrow> hm_get m k = hm_get m' k"
  using map_of_inject_set [of m m'] hm_wf_mset_cong [of m m'] mset_eq_setD [of m m']
  by (simp add: hm_wf_def)

section \<open>Components driven by a sequence of calls\<close>

text \<open>
  A component with a call type \<open>'e\<close> and a state \<open>'s\<close>. A provider shows that every call
  keeps its invariant; a client gets it for every sequence of calls.
\<close>

locale machine =
  fixes step :: "'e \<Rightarrow> 's \<Rightarrow> 's"
    and inv :: "'s \<Rightarrow> bool"
  assumes step_inv: "inv s \<Longrightarrow> inv (step e s)"
begin

lemma run_inv: "inv s \<Longrightarrow> inv (fold step es s)"
  by (induction es arbitrary: s) (simp_all add: step_inv)

lemma run_inv_prefix: "inv s \<Longrightarrow> es = xs @ ys \<Longrightarrow> inv (fold step xs s)"
  by (simp add: run_inv)

end

text \<open>A component with states that no call leaves.\<close>

locale absorbing_machine = machine step inv
  for step :: "'e \<Rightarrow> 's \<Rightarrow> 's" and inv +
  fixes final :: "'s \<Rightarrow> bool"
  assumes final_step: "final s \<Longrightarrow> step e s = s"
begin

lemma final_run: "final s \<Longrightarrow> fold step es s = s"
  by (induction es) (simp_all add: final_step)

lemma final_once: "final (fold step xs s) \<Longrightarrow> fold step (xs @ ys) s = fold step xs s"
  by (simp add: final_run)

end

text \<open>A component that keeps its invariant for a bounded number of calls: the invariant
  carries the number of calls made so far.\<close>

locale budgeted_machine =
  fixes step :: "'e \<Rightarrow> 's \<Rightarrow> 's"
    and inv :: "nat \<Rightarrow> 's \<Rightarrow> bool"
    and budget :: nat
  assumes step_inv: "inv n s \<Longrightarrow> n < budget \<Longrightarrow> inv (Suc n) (step e s)"
begin

lemma run_inv: "inv n s \<Longrightarrow> n + length es \<le> budget \<Longrightarrow> inv (n + length es) (fold step es s)"
proof (induction es arbitrary: n s)
  case (Cons e es)
  then show ?case using Cons.IH [OF step_inv [OF Cons.prems(1)]] by simp
qed simp

end

end
