(* ===== verification/Quorum.thy ===== *)
theory Quorum
  imports Prelude
begin

text \<open>
  Stake-weighted vote aggregation (\<open>cosaci-core/src/quorum.rs\<close>).

  \<open>aggregate\<close> follows the code: last-write-wins deduplication into a hash map, one pass
  over that map with saturating sums, then the fail-fast cascade. \<open>spec_outcome\<close> is
  what the module promises, over the unbounded stake each side carries; the refinement
  lemma holds while the total stake fits a \<open>u64\<close>, and the last section shows what the
  wrapping \<open>sum()\<close> does beyond that.
\<close>

section \<open>Data and operations\<close>

type_synonym runner_id = u64
type_synonym weight = u64
type_synonym stake_map = "(runner_id, weight) hmap"

datatype vote_result = VPass | VFail

record vote =
  vote_runner_id :: runner_id
  vote_result :: vote_result

datatype outcome = Pass | Fail | Retry | Escalate

definition latest_votes :: "vote list \<Rightarrow> (runner_id, vote_result) hmap" where
  "latest_votes votes = fold (\<lambda>v. hm_insert (vote_runner_id v) (vote_result v)) votes []"

fun weigh_vote :: "stake_map \<Rightarrow> runner_id \<times> vote_result \<Rightarrow> weight \<times> weight \<Rightarrow> weight \<times> weight" where
  "weigh_vote stake (rid, VPass) (pass_weight, fail_weight) =
     (sat_add pass_weight (hm_get_or 0 stake rid), fail_weight)"
| "weigh_vote stake (rid, VFail) (pass_weight, fail_weight) =
     (pass_weight, sat_add fail_weight (hm_get_or 0 stake rid))"

definition decide :: "weight \<Rightarrow> weight \<Rightarrow> weight \<Rightarrow> weight \<Rightarrow> outcome" where
  "decide threshold total_stake pass_weight fail_weight =
     (if threshold \<le> fail_weight then Fail
      else if threshold \<le> pass_weight then Pass
      else let voted_stake = sat_add pass_weight fail_weight;
               remaining = sat_sub total_stake voted_stake;
               pass_reachable = threshold \<le> sat_add pass_weight remaining;
               fail_reachable = threshold \<le> sat_add fail_weight remaining
           in if \<not> pass_reachable \<and> \<not> fail_reachable then Escalate else Retry)"

definition aggregate_latest :: "(runner_id, vote_result) hmap \<Rightarrow> weight \<Rightarrow> stake_map \<Rightarrow> outcome" where
  "aggregate_latest latest threshold stake =
     (case fold (weigh_vote stake) latest (0, 0) of
        (pass_weight, fail_weight) \<Rightarrow>
          decide threshold (sum_list (map snd stake)) pass_weight fail_weight)"

definition aggregate :: "vote list \<Rightarrow> weight \<Rightarrow> stake_map \<Rightarrow> outcome" where
  "aggregate votes threshold stake = aggregate_latest (latest_votes votes) threshold stake"

section \<open>What the module promises\<close>

definition last_vote :: "vote list \<Rightarrow> runner_id \<Rightarrow> vote_result option" where
  "last_vote votes r = map_of (rev (map (\<lambda>v. (vote_runner_id v, vote_result v)) votes)) r"

definition voters :: "vote list \<Rightarrow> runner_id set" where
  "voters votes = vote_runner_id ` set votes"

definition voters_for :: "vote list \<Rightarrow> vote_result \<Rightarrow> runner_id set" where
  "voters_for votes x = Set.filter (\<lambda>r. last_vote votes r = Some x) (voters votes)"

definition stake_of :: "stake_map \<Rightarrow> runner_id \<Rightarrow> nat" where
  "stake_of stake r = unat (hm_get_or 0 stake r)"

definition side_stake :: "stake_map \<Rightarrow> vote list \<Rightarrow> vote_result \<Rightarrow> nat" where
  "side_stake stake votes x = (\<Sum>r\<in>voters_for votes x. stake_of stake r)"

definition total_stake :: "stake_map \<Rightarrow> nat" where
  "total_stake stake = sum_list (map (unat \<circ> snd) stake)"

text \<open>The stake a map may hold: distinct runners, and a sum that a \<open>u64\<close> can represent.\<close>

definition stake_ok :: "stake_map \<Rightarrow> bool" where
  "stake_ok stake \<longleftrightarrow> hm_wf stake \<and> total_stake stake < 2 ^ 64"

definition spec_outcome :: "nat \<Rightarrow> nat \<Rightarrow> nat \<Rightarrow> nat \<Rightarrow> outcome" where
  "spec_outcome threshold staked p f =
     (if threshold \<le> f then Fail else if threshold \<le> p then Pass
      else if staked - f < threshold \<and> staked - p < threshold then Escalate else Retry)"

section \<open>The deduplicated votes\<close>

lemma latest_votes_snoc:
  "latest_votes (vs @ [v]) = hm_insert (vote_runner_id v) (vote_result v) (latest_votes vs)"
  by (simp add: latest_votes_def)

lemma last_vote_snoc:
  "last_vote (vs @ [v]) r = (if r = vote_runner_id v then Some (vote_result v) else last_vote vs r)"
  by (simp add: last_vote_def)

lemma latest_votes_Nil [simp]: "latest_votes [] = []"
  by (simp add: latest_votes_def)

lemma last_vote_Nil [simp]: "last_vote [] r = None"
  by (simp add: last_vote_def)

lemma hm_wf_latest_votes [simp]: "hm_wf (latest_votes votes)"
  by (induction votes rule: rev_induct) (simp_all add: latest_votes_snoc)

lemma hm_get_latest_votes [simp]: "hm_get (latest_votes votes) r = last_vote votes r"
  by (induction votes rule: rev_induct) (simp_all add: latest_votes_snoc last_vote_snoc hm_simps)

lemma last_vote_None: "last_vote votes r = None \<longleftrightarrow> r \<notin> voters votes"
  by (force simp: last_vote_def voters_def map_of_eq_None_iff)

lemma voters_for_eq: "voters_for votes x = {r. last_vote votes r = Some x}"
  by (auto simp: voters_for_def) (metis last_vote_None option.distinct(1))

lemma finite_voters [simp]: "finite (voters votes)" "finite (voters_for votes x)"
  by (auto simp: voters_def voters_for_def intro: finite_subset [of _ "vote_runner_id ` set votes"])

lemma voters_split: "voters votes = voters_for votes VPass \<union> voters_for votes VFail"
proof (rule set_eqI)
  fix r
  show "r \<in> voters votes \<longleftrightarrow> r \<in> voters_for votes VPass \<union> voters_for votes VFail"
    using last_vote_None [of votes r] by (cases "last_vote votes r"; cases "the (last_vote votes r)") (simp_all add: voters_for_eq)
qed

lemma voters_for_disjoint: "voters_for votes VPass \<inter> voters_for votes VFail = {}"
  by (auto simp: voters_for_eq)

lemma voters_append [simp]: "voters (vs @ ws) = voters vs \<union> voters ws"
  by (auto simp: voters_def)

lemma last_vote_append:
  "last_vote (vs @ ws) r = (case last_vote ws r of None \<Rightarrow> last_vote vs r | Some x \<Rightarrow> Some x)"
  by (simp add: last_vote_def map_add_def split: option.split)

section \<open>The weights\<close>

definition list_side :: "stake_map \<Rightarrow> vote_result \<Rightarrow> (runner_id, vote_result) hmap \<Rightarrow> nat" where
  "list_side stake x l = sum_list (map (\<lambda>(r, y). if y = x then stake_of stake r else 0) l)"

lemma list_side_simps [simp]:
  "list_side stake x [] = 0"
  "list_side stake x ((r, y) # l) = (if y = x then stake_of stake r else 0) + list_side stake x l"
  by (simp_all add: list_side_def)

lemma fold_weigh_vote:
  "unat (fst (fold (weigh_vote stake) l (p, f))) = min (unat p + list_side stake VPass l) (2 ^ 64 - 1) \<and>
   unat (snd (fold (weigh_vote stake) l (p, f))) = min (unat f + list_side stake VFail l) (2 ^ 64 - 1)"
proof (induction l arbitrary: p f)
  case Nil
  show ?case using unat_lt_pow [of p] unat_lt_pow [of f] by simp
next
  case (Cons e l)
  obtain r y where e: "e = (r, y)" by fastforce
  show ?case by (cases y) (simp_all add: e Cons.IH unat_sat_add stake_of_def)
qed

lemma list_side_eq_sum:
  "hm_wf l \<Longrightarrow> list_side stake x l = (\<Sum>r\<in>{r. map_of l r = Some x}. stake_of stake r)"
proof (induction l)
  case (Cons e l)
  obtain r y where e: "e = (r, y)" by fastforce
  have wf: "hm_wf l" and new: "map_of l r = None"
    using Cons.prems by (auto simp: hm_wf_def e map_of_eq_None_iff)
  have fin: "finite {r. map_of l r = Some x}"
    by (rule finite_subset [OF _ finite_dom_map_of [of l]]) auto
  have "{q. map_of (e # l) q = Some x} =
      (if y = x then insert r {q. map_of l q = Some x} else {q. map_of l q = Some x})"
    using new by (auto simp: e split: if_splits)
  then show ?case using Cons.IH [OF wf] fin new by (simp add: e)
qed simp

lemma list_side_latest: "list_side stake x (latest_votes votes) = side_stake stake votes x"
  by (simp add: list_side_eq_sum side_stake_def voters_for_eq)

lemma total_stake_eq_sum: "hm_wf stake \<Longrightarrow> total_stake stake = (\<Sum>r\<in>fst ` set stake. stake_of stake r)"
proof -
  assume wf: "hm_wf stake"
  then have d: "distinct stake" and i: "inj_on fst (set stake)" by (simp_all add: hm_wf_def distinct_map)
  have "(\<Sum>r\<in>fst ` set stake. stake_of stake r) = (\<Sum>e\<in>set stake. stake_of stake (fst e))"
    by (simp add: sum.reindex [OF i])
  also have "\<dots> = (\<Sum>e\<in>set stake. (unat \<circ> snd) e)"
    using wf by (intro sum.cong) (auto simp: stake_of_def hm_get_or_def hm_wf_def)
  finally show ?thesis using d by (simp add: total_stake_def sum_list_distinct_conv_sum_set)
qed

lemma stake_of_absent: "r \<notin> fst ` set stake \<Longrightarrow> stake_of stake r = 0"
  using map_of_eq_None_iff [of stake r] by (simp add: stake_of_def hm_get_or_def)

lemma sum_stake_le_total:
  assumes "hm_wf stake" "finite A"
  shows "(\<Sum>r\<in>A. stake_of stake r) \<le> total_stake stake"
proof -
  have "(\<Sum>r\<in>A. stake_of stake r) = (\<Sum>r\<in>A \<inter> fst ` set stake. stake_of stake r)"
    using assms by (intro sum.mono_neutral_right) (auto simp: stake_of_absent)
  also have "\<dots> \<le> (\<Sum>r\<in>fst ` set stake. stake_of stake r)" by (intro sum_mono2) auto
  finally show ?thesis using assms by (simp add: total_stake_eq_sum)
qed

lemma side_stake_add: "side_stake stake votes VPass + side_stake stake votes VFail = (\<Sum>r\<in>voters votes. stake_of stake r)"
  unfolding side_stake_def voters_split by (simp add: sum.union_disjoint voters_for_disjoint)

lemma side_stakes_le_total:
  "hm_wf stake \<Longrightarrow> side_stake stake votes VPass + side_stake stake votes VFail \<le> total_stake stake"
  by (simp add: side_stake_add sum_stake_le_total)

lemma unat_total: "stake_ok stake \<Longrightarrow> unat (sum_list (map snd stake)) = total_stake stake"
  by (simp add: unat_sum_list stake_ok_def total_stake_def)

lemma decide_spec:
  assumes "unat p + unat f \<le> unat t"
  shows "decide threshold t p f = spec_outcome (unat threshold) (unat t) (unat p) (unat f)"
proof -
  have "unat t < 2 ^ 64" using unat_lt_pow [of t] by simp
  with assms show ?thesis unfolding decide_def spec_outcome_def Let_def by (auto simp: word_nat)
qed

lemma aggregate_spec:
  assumes "stake_ok stake"
  shows "aggregate votes threshold stake =
    spec_outcome (unat threshold) (total_stake stake) (side_stake stake votes VPass) (side_stake stake votes VFail)"
proof -
  let ?w = "fold (weigh_vote stake) (latest_votes votes) (0, 0)"
  have le: "side_stake stake votes VPass + side_stake stake votes VFail \<le> total_stake stake"
    and lt: "total_stake stake < 2 ^ 64"
    using assms side_stakes_le_total by (auto simp: stake_ok_def)
  have "unat (fst ?w) = side_stake stake votes VPass" "unat (snd ?w) = side_stake stake votes VFail"
    using fold_weigh_vote [of stake "latest_votes votes" 0 0] le lt by (auto simp: list_side_latest)
  then show ?thesis using le
    by (simp add: aggregate_def aggregate_latest_def case_prod_beta decide_spec unat_total [OF assms])
qed

section \<open>Fresh votes\<close>

text \<open>
  Votes that arrive later from runners who have not voted yet: each side only gains, and
  the runners who have not voted can all be sent to one side.
\<close>

definition fresh :: "vote list \<Rightarrow> vote list \<Rightarrow> bool" where
  "fresh votes later \<longleftrightarrow> voters later \<inter> voters votes = {}"

lemma side_stake_fresh_mono:
  assumes "fresh votes later"
  shows "side_stake stake votes x \<le> side_stake stake (votes @ later) x"
  unfolding side_stake_def
proof (rule sum_mono2)
  show "voters_for votes x \<subseteq> voters_for (votes @ later) x"
  proof
    fix r assume r: "r \<in> voters_for votes x"
    then have "r \<notin> voters later" using assms by (auto simp: fresh_def voters_for_def)
    with r show "r \<in> voters_for (votes @ later) x"
      using last_vote_None [of later r] by (simp add: voters_for_eq last_vote_append)
  qed
qed simp_all

definition unvoted :: "stake_map \<Rightarrow> vote list \<Rightarrow> runner_id list" where
  "unvoted stake votes = filter (\<lambda>r. r \<notin> voters votes) (map fst stake)"

definition all_vote :: "vote_result \<Rightarrow> runner_id list \<Rightarrow> vote list" where
  "all_vote x rs = map (\<lambda>r. \<lparr>vote_runner_id = r, vote_result = x\<rparr>) rs"

lemma voters_all_vote [simp]: "voters (all_vote x rs) = set rs"
  by (force simp: voters_def all_vote_def)

lemma last_vote_all_vote: "last_vote (all_vote x rs) r = (if r \<in> set rs then Some x else None)"
  by (induction rs rule: rev_induct) (auto simp: all_vote_def last_vote_snoc)

lemma fresh_unvoted: "fresh votes (all_vote x (unvoted stake votes))"
  by (auto simp: fresh_def unvoted_def)

lemma side_stake_all_vote_other:
  assumes "y \<noteq> x"
  shows "side_stake stake (votes @ all_vote x (unvoted stake votes)) y = side_stake stake votes y"
proof -
  have "voters_for (votes @ all_vote x (unvoted stake votes)) y = voters_for votes y"
  proof (rule set_eqI)
    fix r
    show "r \<in> voters_for (votes @ all_vote x (unvoted stake votes)) y \<longleftrightarrow> r \<in> voters_for votes y"
      using assms last_vote_None [of votes r]
      by (cases "r \<in> voters votes") (simp_all add: voters_for_eq last_vote_append last_vote_all_vote unvoted_def)
  qed
  then show ?thesis by (simp add: side_stake_def)
qed

lemma side_stake_all_vote_sum:
  assumes "hm_wf stake"
  shows "side_stake stake (votes @ all_vote x (unvoted stake votes)) VPass
    + side_stake stake (votes @ all_vote x (unvoted stake votes)) VFail = total_stake stake"
proof -
  let ?v = "voters (votes @ all_vote x (unvoted stake votes))"
  have sub: "fst ` set stake \<subseteq> ?v" by (auto simp: unvoted_def)
  have "(\<Sum>r\<in>fst ` set stake. stake_of stake r) = (\<Sum>r\<in>?v. stake_of stake r)"
    using sub by (intro sum.mono_neutral_left) (auto simp: stake_of_absent)
  then show ?thesis using assms by (simp add: side_stake_add total_stake_eq_sum)
qed

lemma escalate_not_resolved:
  assumes ok: "stake_ok stake" and esc: "aggregate votes threshold stake = Escalate" and fr: "fresh votes later"
  shows "aggregate (votes @ later) threshold stake \<notin> {Pass, Fail}"
proof -
  have "hm_wf stake" using ok by (simp add: stake_ok_def)
  then have "side_stake stake (votes @ later) VPass + side_stake stake (votes @ later) VFail \<le> total_stake stake"
    by (rule side_stakes_le_total)
  moreover have "side_stake stake votes VPass \<le> side_stake stake (votes @ later) VPass"
    "side_stake stake votes VFail \<le> side_stake stake (votes @ later) VFail"
    by (rule side_stake_fresh_mono [OF fr])+
  moreover have "total_stake stake - side_stake stake votes VFail < unat threshold"
    "total_stake stake - side_stake stake votes VPass < unat threshold"
    using esc unfolding aggregate_spec [OF ok] spec_outcome_def by (simp_all split: if_splits)
  ultimately have "side_stake stake (votes @ later) VPass < unat threshold"
    "side_stake stake (votes @ later) VFail < unat threshold" by linarith+
  then show ?thesis by (simp add: aggregate_spec [OF ok] spec_outcome_def)
qed

lemma side_reached_resolved:
  "stake_ok stake \<Longrightarrow> unat threshold \<le> side_stake stake votes x \<Longrightarrow> aggregate votes threshold stake \<in> {Pass, Fail}"
  by (cases x) (simp_all add: aggregate_spec spec_outcome_def)

lemma side_stake_all_vote_same:
  assumes "hm_wf stake" "y \<noteq> x"
  shows "side_stake stake (votes @ all_vote x (unvoted stake votes)) x = total_stake stake - side_stake stake votes y"
proof -
  have "side_stake stake (votes @ all_vote x (unvoted stake votes)) x
      + side_stake stake (votes @ all_vote x (unvoted stake votes)) y = total_stake stake"
    using side_stake_all_vote_sum [OF assms(1), of votes x] assms(2) by (cases x; cases y) (simp_all add: add.commute)
  then show ?thesis unfolding side_stake_all_vote_other [OF assms(2)] by linarith
qed

lemma retry_resolvable:
  assumes ok: "stake_ok stake" and ret: "aggregate votes threshold stake = Retry"
  shows "\<exists>x. aggregate (votes @ all_vote x (unvoted stake votes)) threshold stake \<in> {Pass, Fail}"
proof -
  have wf: "hm_wf stake" using ok by (simp add: stake_ok_def)
  have "unat threshold \<le> total_stake stake - side_stake stake votes VFail \<or>
      unat threshold \<le> total_stake stake - side_stake stake votes VPass"
    using ret unfolding aggregate_spec [OF ok] spec_outcome_def by (auto split: if_splits)
  then have "unat threshold \<le> side_stake stake (votes @ all_vote VPass (unvoted stake votes)) VPass \<or>
      unat threshold \<le> side_stake stake (votes @ all_vote VFail (unvoted stake votes)) VFail"
    unfolding side_stake_all_vote_same [OF wf vote_result.distinct(1)]
      side_stake_all_vote_same [OF wf vote_result.distinct(2)] .
  then show ?thesis using side_reached_resolved [OF ok] by blast
qed

section \<open>Properties\<close>

text \<open>C10: a resolved outcome is decided by the stake behind the last vote of each runner:
  while the total stake fits a u64, \<open>aggregate\<close> answers Fail exactly when the failing
  stake reaches the threshold, and Pass exactly when the passing stake does and the
  failing stake does not (fail-fast).\<close>

theorem aggregate_resolved_iff:
  assumes "stake_ok stake"
  shows "(aggregate votes threshold stake = Fail \<longleftrightarrow> unat threshold \<le> side_stake stake votes VFail) \<and>
    (aggregate votes threshold stake = Pass \<longleftrightarrow>
       unat threshold \<le> side_stake stake votes VPass \<and> side_stake stake votes VFail < unat threshold)"
  by (auto simp: aggregate_spec [OF assms] spec_outcome_def)

theorem aggregate_resolved_iff_witness:
  "8 \<le> side_stake [(1, 5), (2, 4), (3, 3)] [\<lparr>vote_runner_id = 1, vote_result = VFail\<rparr>,
      \<lparr>vote_runner_id = 2, vote_result = VPass\<rparr>, \<lparr>vote_runner_id = 1, vote_result = VPass\<rparr>] VPass"
proof -
  have ok: "stake_ok [(1, 5), (2, 4), (3, 3)]" by (simp add: stake_ok_def hm_wf_def total_stake_def)
  have "aggregate [\<lparr>vote_runner_id = 1, vote_result = VFail\<rparr>, \<lparr>vote_runner_id = 2, vote_result = VPass\<rparr>,
      \<lparr>vote_runner_id = 1, vote_result = VPass\<rparr>] 8 [(1, 5), (2, 4), (3, 3)] = Pass" by code_simp
  then show ?thesis using aggregate_resolved_iff [OF ok] by fastforce
qed

text \<open>\<open>Escalate\<close> means structurally unresolvable, in both directions: while the total
  stake fits a u64, \<open>aggregate\<close> answers Escalate exactly when no further votes by runners
  who have not voted yet can bring it to Pass or Fail. So \<open>Retry\<close> is only answered when
  some continuation resolves the vote.\<close>

theorem aggregate_escalate_iff:
  assumes ok: "stake_ok stake"
  shows "aggregate votes threshold stake = Escalate \<longleftrightarrow>
    (\<forall>later. fresh votes later \<longrightarrow> aggregate (votes @ later) threshold stake \<notin> {Pass, Fail})"
    (is "?esc \<longleftrightarrow> ?dead")
proof
  assume ?esc
  then show ?dead using escalate_not_resolved [OF ok] by blast
next
  assume dead: ?dead
  have "fresh votes []" by (simp add: fresh_def voters_def)
  with dead have "aggregate votes threshold stake \<notin> {Pass, Fail}" by (metis append_Nil2)
  moreover have "aggregate votes threshold stake \<noteq> Retry"
    using dead retry_resolvable [OF ok] fresh_unvoted by blast
  ultimately show ?esc by (cases "aggregate votes threshold stake") auto
qed

theorem aggregate_escalate_iff_witness:
  "\<not> (\<exists>later. voters later \<inter> {1, 2} = {} \<and>
    aggregate ([\<lparr>vote_runner_id = 1, vote_result = VPass\<rparr>, \<lparr>vote_runner_id = 2, vote_result = VFail\<rparr>] @ later) 6
      [(1, 5), (2, 5)] \<in> {Pass, Fail})"
proof -
  have ok: "stake_ok [(1, 5), (2, 5)]" by (simp add: stake_ok_def hm_wf_def total_stake_def)
  have "aggregate [\<lparr>vote_runner_id = 1, vote_result = VPass\<rparr>, \<lparr>vote_runner_id = 2, vote_result = VFail\<rparr>] 6
      [(1, 5), (2, 5)] = Escalate" by code_simp
  then show ?thesis using aggregate_escalate_iff [OF ok] by (auto simp: fresh_def voters_def)
qed

text \<open>the outcome does not depend on the iteration order of the code's two hash maps:
  for every order of the deduplicated votes and of the stake map, including stakes whose
  sum overflows, the same outcome comes out.\<close>

theorem aggregate_order_independent:
  assumes "hm_wf stake" "mset stake' = mset stake" "mset latest = mset (latest_votes votes)"
  shows "aggregate_latest latest threshold stake' = aggregate votes threshold stake"
proof -
  have get: "hm_get_or 0 stake' = hm_get_or 0 stake"
    using hm_get_mset_cong [of stake stake'] assms by (auto simp: hm_get_or_def fun_eq_iff)
  have side: "list_side stake' x latest = list_side stake x (latest_votes votes)" for x
  proof -
    have "mset (map g latest) = mset (map g (latest_votes votes))" for g :: "_ \<Rightarrow> nat" using assms by simp
    then show ?thesis unfolding list_side_def stake_of_def get by (metis sum_mset_sum_list)
  qed
  have total: "sum_list (map snd stake') = sum_list (map snd stake)"
    using assms by (metis mset_map sum_mset_sum_list)
  let ?a = "fold (weigh_vote stake') latest (0, 0)" and ?b = "fold (weigh_vote stake) (latest_votes votes) (0, 0)"
  have "unat (fst ?a) = unat (fst ?b)" "unat (snd ?a) = unat (snd ?b)"
    using fold_weigh_vote [of stake' latest 0 0] fold_weigh_vote [of stake "latest_votes votes" 0 0] by (simp_all add: side)
  then have "?a = ?b" by (simp add: prod_eq_iff word_unat_eq_iff)
  then show ?thesis by (simp add: aggregate_def aggregate_latest_def total)
qed

theorem aggregate_order_independent_witness:
  "aggregate_latest [(2, VFail), (1, VPass)] 6 [(2, 4), (1, 7)] =
   aggregate [\<lparr>vote_runner_id = 1, vote_result = VPass\<rparr>, \<lparr>vote_runner_id = 2, vote_result = VFail\<rparr>] 6 [(1, 7), (2, 4)]"
  by (rule aggregate_order_independent) (simp_all add: hm_wf_def latest_votes_def)

text \<open>beyond u64 the unvoted stake is lost: the total of the stake map is a wrapping
  sum, so two runners with 2^63 stake each leave a total of zero, and the vote escalates
  before anybody has voted although a single vote would resolve it.\<close>

theorem aggregate_total_wraps:
  "total_stake [(1, 2 ^ 63), (2, 2 ^ 63)] = 2 ^ 64 \<and>
   aggregate [] 1 [(1, 2 ^ 63), (2, 2 ^ 63)] = Escalate \<and>
   aggregate [\<lparr>vote_runner_id = 1, vote_result = VPass\<rparr>] 1 [(1, 2 ^ 63), (2, 2 ^ 63)] = Pass"
  by (simp add: total_stake_def) code_simp

end
