(* ===== verification/Partial_Quorum.thy ===== *)
theory Partial_Quorum
  imports Quorum
begin

text \<open>
  Resolution of a job by the committee members that answered
  (\<open>cosaci-state/src/partial_quorum.rs\<close>): who responded, who is missing, the threshold
  computed from the responding stake, and the aggregated outcome.
\<close>

section \<open>Operations\<close>

definition div_ceil :: "u64 \<Rightarrow> u64 \<Rightarrow> u64" where
  "div_ceil a b = (if 0 < a mod b then a div b + 1 else a div b)"

definition two_thirds_threshold :: "weight \<Rightarrow> weight" where
  "two_thirds_threshold responding_stake = div_ceil (responding_stake * 2) 3"

definition stake_map_from_pairs :: "(runner_id \<times> weight) list \<Rightarrow> stake_map" where
  "stake_map_from_pairs pairs = fold (\<lambda>(id, w). hm_insert id w) pairs []"

record partial_outcome =
  po_outcome :: outcome
  po_responding :: "runner_id list"
  po_missing :: "runner_id list"
  po_responding_stake :: weight
  po_threshold :: weight

definition resolve_with_dropouts ::
    "runner_id list \<Rightarrow> vote list \<Rightarrow> stake_map \<Rightarrow> (weight \<Rightarrow> weight) \<Rightarrow> partial_outcome" where
  "resolve_with_dropouts committee votes stake_map threshold_fn =
     (let responded = voters votes;
          (responding, missing) = List.partition (\<lambda>id. id \<in> responded) committee;
          responding_stake = sum_list (map (hm_get_or 0 stake_map) responding);
          threshold = threshold_fn responding_stake
      in \<lparr>po_outcome = aggregate votes threshold stake_map,
          po_responding = responding, po_missing = missing,
          po_responding_stake = responding_stake, po_threshold = threshold\<rparr>)"

section \<open>The threshold\<close>

lemma nat_div_ceil_3: "(if 0 < n mod 3 then n div 3 + 1 else n div 3) = (n + 2) div 3" for n :: nat
  by presburger

lemma unat_div_ceil_3: "unat (div_ceil a 3) = (unat a + 2) div 3"
proof -
  have d: "unat (a div 3) = unat a div 3" "unat (a mod 3) = unat a mod 3" by (simp_all add: unat_div unat_mod)
  have lt: "unat a < 2 ^ 64" using unat_lt_pow [of a] by simp
  have "unat a div 3 + 1 < 2 ^ 64" using lt by simp
  then have "(unat a div 3 + 1) mod 2 ^ 64 = unat a div 3 + 1" by (rule mod_less)
  then have "unat (a div 3 + 1) = unat a div 3 + 1" by (simp add: unat_word_ariths d)
  then have "unat (div_ceil a 3) = (if 0 < unat a mod 3 then unat a div 3 + 1 else unat a div 3)"
    by (simp add: div_ceil_def word_less_nat_alt d)
  then show ?thesis by (simp only: nat_div_ceil_3)
qed

lemma unat_two_thirds:
  assumes "2 * unat s < 2 ^ 64"
  shows "unat (two_thirds_threshold s) = (2 * unat s + 2) div 3"
  using assms by (simp add: two_thirds_threshold_def unat_div_ceil_3 unat_word_ariths mult.commute)

lemma two_thirds_le_iff:
  "2 * unat s < 2 ^ 64 \<Longrightarrow> unat (two_thirds_threshold s) \<le> p \<longleftrightarrow> 2 * unat s \<le> 3 * p"
  unfolding unat_two_thirds by linarith

section \<open>The resolution\<close>

lemma resolve_fields:
  "po_responding (resolve_with_dropouts committee votes stake thr) = filter (\<lambda>id. id \<in> voters votes) committee"
  "po_missing (resolve_with_dropouts committee votes stake thr) = filter (\<lambda>id. id \<notin> voters votes) committee"
  "po_responding_stake (resolve_with_dropouts committee votes stake thr) =
     sum_list (map (hm_get_or 0 stake) (filter (\<lambda>id. id \<in> voters votes) committee))"
  "po_threshold (resolve_with_dropouts committee votes stake thr) =
     thr (po_responding_stake (resolve_with_dropouts committee votes stake thr))"
  "po_outcome (resolve_with_dropouts committee votes stake thr) =
     aggregate votes (po_threshold (resolve_with_dropouts committee votes stake thr)) stake"
  by (simp_all add: resolve_with_dropouts_def Let_def comp_def)

lemma responding_stake_eq:
  assumes ok: "stake_ok stake" and d: "distinct committee" and sub: "voters votes \<subseteq> set committee"
  shows "unat (po_responding_stake (resolve_with_dropouts committee votes stake thr)) =
    side_stake stake votes VPass + side_stake stake votes VFail"
proof -
  let ?r = "filter (\<lambda>id. id \<in> voters votes) committee"
  have st: "stake_of stake = unat \<circ> hm_get_or 0 stake" by (simp add: fun_eq_iff stake_of_def)
  have set: "set ?r = voters votes" using sub by auto
  have sum: "sum_list (map (stake_of stake) ?r) = (\<Sum>r\<in>voters votes. stake_of stake r)"
    using d set sum_list_distinct_conv_sum_set [of ?r "stake_of stake"] by simp
  also have "\<dots> \<le> total_stake stake" using ok by (intro sum_stake_le_total) (simp_all add: stake_ok_def)
  also have "\<dots> < 2 ^ 64" using ok by (simp add: stake_ok_def)
  finally have "unat (sum_list (map (hm_get_or 0 stake) ?r)) = sum_list (map (stake_of stake) ?r)"
    by (simp add: unat_sum_list st)
  then show ?thesis by (simp only: resolve_fields sum side_stake_add)
qed

section \<open>Properties\<close>

text \<open>C12: two-thirds agreement of the responders decides: when the committee is duplicate
  free, only its members voted, somebody with stake voted and the doubled stake fits a u64,
  a job resolved with the two-thirds threshold passes exactly when the passing stake is at
  least twice the failing stake, and fails exactly when the failing stake is at least twice
  the passing stake; whoever did not respond has no influence on this.\<close>

theorem resolve_two_thirds:
  assumes ok: "stake_ok stake" and d: "distinct committee" and sub: "voters votes \<subseteq> set committee"
    and pos: "0 < side_stake stake votes VPass + side_stake stake votes VFail"
    and small: "2 * (side_stake stake votes VPass + side_stake stake votes VFail) < 2 ^ 64"
  shows "(po_outcome (resolve_with_dropouts committee votes stake two_thirds_threshold) = Pass \<longleftrightarrow>
       2 * side_stake stake votes VFail \<le> side_stake stake votes VPass) \<and>
    (po_outcome (resolve_with_dropouts committee votes stake two_thirds_threshold) = Fail \<longleftrightarrow>
       2 * side_stake stake votes VPass \<le> side_stake stake votes VFail)"
proof -
  let ?s = "po_responding_stake (resolve_with_dropouts committee votes stake two_thirds_threshold)"
  let ?p = "side_stake stake votes VPass" and ?f = "side_stake stake votes VFail"
  have s: "unat ?s = ?p + ?f" by (rule responding_stake_eq [OF ok d sub])
  have thr: "unat (two_thirds_threshold ?s) \<le> x \<longleftrightarrow> 2 * (?p + ?f) \<le> 3 * x" for x
    using two_thirds_le_iff [of ?s x] small by (simp add: s)
  have out: "po_outcome (resolve_with_dropouts committee votes stake two_thirds_threshold) =
      spec_outcome (unat (two_thirds_threshold ?s)) (total_stake stake) ?p ?f"
    by (simp only: resolve_fields(5) resolve_fields(4) aggregate_spec [OF ok])
  show ?thesis unfolding out spec_outcome_def thr using pos by auto
qed

theorem resolve_two_thirds_witness:
  "po_outcome (resolve_with_dropouts [1, 2, 3, 4] [\<lparr>vote_runner_id = 1, vote_result = VPass\<rparr>,
     \<lparr>vote_runner_id = 3, vote_result = VFail\<rparr>] [(1, 20), (2, 50), (3, 10), (4, 9)] two_thirds_threshold) = Pass"
proof -
  let ?st = "[(1, 20), (2, 50), (3, 10), (4, 9)]"
  let ?vs = "[\<lparr>vote_runner_id = 1, vote_result = VPass\<rparr>, \<lparr>vote_runner_id = 3, vote_result = VFail\<rparr>]"
  have ok: "stake_ok ?st" by (simp add: stake_ok_def hm_wf_def total_stake_def)
  have vs: "voters_for ?vs VPass = {1}" "voters_for ?vs VFail = {3}"
    by (auto simp: voters_for_eq last_vote_def split: if_splits)
  have sides: "side_stake ?st ?vs VPass = 20" "side_stake ?st ?vs VFail = 10"
    by (simp_all add: side_stake_def vs stake_of_def hm_get_or_def)
  have sub: "voters ?vs \<subseteq> set [1, 2, 3, 4]" by (simp add: voters_def)
  show ?thesis using resolve_two_thirds [OF ok _ sub] by (simp add: sides)
qed

text \<open>the committee is split without loss: the responding and the missing members
  together are the committee, in its order, a member is reported missing exactly when none
  of the votes is theirs, and the outcome is the aggregate of the votes at the reported
  threshold, which is the given function of the reported responding stake.\<close>

theorem resolve_splits_committee:
  "let r = resolve_with_dropouts committee votes stake thr in
     po_responding r = filter (\<lambda>id. id \<in> voters votes) committee \<and>
     po_missing r = filter (\<lambda>id. id \<notin> voters votes) committee \<and>
     mset (po_responding r) + mset (po_missing r) = mset committee \<and>
     po_threshold r = thr (po_responding_stake r) \<and>
     po_outcome r = aggregate votes (po_threshold r) stake"
proof -
  have part: "mset (filter P committee) + mset (filter (\<lambda>x. \<not> P x) committee) = mset committee" for P
    by (simp flip: multiset_partition)
  show ?thesis unfolding Let_def resolve_fields(1,2) part
    by (intro conjI refl) (simp_all only: resolve_fields(4,5))
qed

text \<open>a doubled stake that overflows turns the threshold around: at a responding
  stake of 2^63 the two-thirds threshold is zero, so a unanimous Pass vote of that stake
  is resolved as Fail.\<close>

theorem two_thirds_threshold_wraps:
  "two_thirds_threshold (2 ^ 63) = 0 \<and>
   po_outcome (resolve_with_dropouts [1] [\<lparr>vote_runner_id = 1, vote_result = VPass\<rparr>] [(1, 2 ^ 63)]
     two_thirds_threshold) = Fail"
  by code_simp

text \<open>silence fails: when no member responds, the threshold over the responding stake
  is zero, and the job is resolved as Fail rather than retried or escalated.\<close>

theorem resolve_no_response:
  "po_outcome (resolve_with_dropouts committee [] stake two_thirds_threshold) = Fail \<and>
   po_missing (resolve_with_dropouts committee [] stake two_thirds_threshold) = committee"
  by (simp add: resolve_with_dropouts_def voters_def aggregate_def aggregate_latest_def decide_def
    two_thirds_threshold_def div_ceil_def)

end
