(* ===== verification/Aggregator.thy ===== *)
theory Aggregator
  imports Quorum
begin

text \<open>
  The aggregation lifecycle of one job (\<open>cosaci-state/src/aggregator.rs\<close>): a stateful
  collector over \<open>Quorum.aggregate\<close> with votes, explicit re-aggregations on a retry
  budget, and a timeout. A call sequence is a list of \<open>agg_call\<close>; the aggregator is an
  \<open>absorbing_machine\<close> whose final states are the terminal ones.
\<close>

section \<open>State and operations\<close>

datatype aggregation_state = APending | APass | AFail | AEscalate

record aggregator =
  agg_state :: aggregation_state
  agg_votes :: "vote list"
  agg_threshold :: weight
  agg_stake :: stake_map
  agg_retries :: u32
  agg_max_retries :: u32

definition agg_with_max_retries :: "weight \<Rightarrow> stake_map \<Rightarrow> u32 \<Rightarrow> aggregator" where
  "agg_with_max_retries threshold stake max_retries =
     \<lparr>agg_state = APending, agg_votes = [], agg_threshold = threshold, agg_stake = stake,
      agg_retries = 0, agg_max_retries = max_retries\<rparr>"

definition agg_new :: "weight \<Rightarrow> stake_map \<Rightarrow> aggregator" where
  "agg_new threshold stake = agg_with_max_retries threshold stake (- 1)"

definition agg_is_terminal :: "aggregator \<Rightarrow> bool" where
  "agg_is_terminal a \<longleftrightarrow> agg_state a \<in> {APass, AFail, AEscalate}"

definition agg_outcome :: "aggregator \<Rightarrow> outcome" where
  "agg_outcome a = aggregate (agg_votes a) (agg_threshold a) (agg_stake a)"

definition receive_vote :: "vote \<Rightarrow> aggregator \<Rightarrow> aggregator \<times> aggregation_state" where
  "receive_vote v a =
     (if agg_is_terminal a then (a, agg_state a)
      else let a1 = a\<lparr>agg_votes := agg_votes a @ [v]\<rparr>;
               st = (case agg_outcome a1 of Pass \<Rightarrow> APass | Fail \<Rightarrow> AFail
                     | Escalate \<Rightarrow> AEscalate | Retry \<Rightarrow> APending)
           in (a1\<lparr>agg_state := st\<rparr>, st))"

definition trigger_aggregation :: "aggregator \<Rightarrow> aggregator \<times> aggregation_state" where
  "trigger_aggregation a =
     (if agg_is_terminal a then (a, agg_state a)
      else case agg_outcome a of
          Pass \<Rightarrow> (a\<lparr>agg_state := APass\<rparr>, APass)
        | Fail \<Rightarrow> (a\<lparr>agg_state := AFail\<rparr>, AFail)
        | Escalate \<Rightarrow> (a\<lparr>agg_state := AEscalate\<rparr>, AEscalate)
        | Retry \<Rightarrow>
            let r = sat_add (agg_retries a) 1;
                st = (if agg_max_retries a < r then AEscalate else APending)
            in (a\<lparr>agg_retries := r, agg_state := st\<rparr>, st))"

definition agg_timeout :: "aggregator \<Rightarrow> aggregator \<times> aggregation_state" where
  "agg_timeout a =
     (if agg_is_terminal a then (a, agg_state a)
      else let st = (case agg_outcome a of Pass \<Rightarrow> APass | Fail \<Rightarrow> AFail | _ \<Rightarrow> AEscalate)
           in (a\<lparr>agg_state := st\<rparr>, st))"

datatype agg_call = ReceiveVote vote | TriggerAggregation | Timeout

primrec agg_step :: "agg_call \<Rightarrow> aggregator \<Rightarrow> aggregator" where
  "agg_step (ReceiveVote v) a = fst (receive_vote v a)"
| "agg_step TriggerAggregation a = fst (trigger_aggregation a)"
| "agg_step Timeout a = fst (agg_timeout a)"

fun received :: "agg_call list \<Rightarrow> vote list" where
  "received [] = []"
| "received (ReceiveVote v # cs) = v # received cs"
| "received (_ # cs) = received cs"

section \<open>The invariant\<close>

text \<open>A Pass or Fail state is the outcome of the collected votes, and an open aggregator
  that has collected a vote has the outcome Retry.\<close>

definition agg_inv :: "aggregator \<Rightarrow> bool" where
  "agg_inv a \<longleftrightarrow>
     (agg_state a = APass \<longrightarrow> agg_outcome a = Pass) \<and>
     (agg_state a = AFail \<longrightarrow> agg_outcome a = Fail) \<and>
     (agg_state a = APending \<longrightarrow> agg_votes a = [] \<or> agg_outcome a = Retry)"

lemmas agg_op_defs = receive_vote_def trigger_aggregation_def agg_timeout_def agg_outcome_def
  agg_is_terminal_def Let_def

lemma agg_step_inv: "agg_inv a \<Longrightarrow> agg_inv (agg_step c a)"
  by (cases c) (auto simp: agg_op_defs agg_inv_def split: outcome.splits aggregation_state.splits)

lemma agg_terminal_step: "agg_is_terminal a \<Longrightarrow> agg_step c a = a"
  by (cases c) (simp_all add: receive_vote_def trigger_aggregation_def agg_timeout_def)

interpretation agg: absorbing_machine agg_step agg_inv agg_is_terminal
  by unfold_locales (simp_all add: agg_step_inv agg_terminal_step)

lemma agg_inv_start: "agg_inv (agg_with_max_retries threshold stake m)"
  by (simp add: agg_inv_def agg_with_max_retries_def)

lemma agg_step_frame [simp]:
  "agg_threshold (agg_step c a) = agg_threshold a" "agg_stake (agg_step c a) = agg_stake a"
  "agg_max_retries (agg_step c a) = agg_max_retries a"
  by (cases c; auto simp: agg_op_defs split: outcome.splits)+

lemma agg_run_frame [simp]:
  "agg_threshold (fold agg_step cs a) = agg_threshold a" "agg_stake (fold agg_step cs a) = agg_stake a"
  "agg_max_retries (fold agg_step cs a) = agg_max_retries a"
  by (induction cs arbitrary: a) simp_all

lemma received_append [simp]: "received (cs @ ds) = received cs @ received ds"
  by (induction cs rule: received.induct) simp_all

lemma agg_step_votes: "agg_votes (agg_step c a) = agg_votes a @ (if agg_is_terminal a then [] else received [c])"
  by (cases c) (auto simp: agg_op_defs split: outcome.splits)

lemma agg_run_votes:
  "\<exists>k. agg_votes (fold agg_step cs a) = agg_votes a @ take k (received cs) \<and>
    (agg_is_terminal (fold agg_step cs a) \<or> length (received cs) \<le> k)"
proof (induction cs rule: rev_induct)
  case (snoc c cs)
  then obtain k where k: "agg_votes (fold agg_step cs a) = agg_votes a @ take k (received cs)"
    "agg_is_terminal (fold agg_step cs a) \<or> length (received cs) \<le> k" by blast
  show ?case
  proof (cases "agg_is_terminal (fold agg_step cs a)")
    case True
    then show ?thesis using k
      by (intro exI [of _ "min k (length (received cs))"]) (simp add: agg_terminal_step min_def)
  next
    case False
    then show ?thesis using k by (intro exI [of _ "length (received (cs @ [c]))"]) (simp add: agg_step_votes)
  qed
qed simp

section \<open>The retry budget\<close>

definition triggers :: "agg_call list \<Rightarrow> nat" where
  "triggers cs = count_list cs TriggerAggregation"

lemma agg_step_retries:
  assumes "\<not> agg_is_terminal (agg_step c a)" "unat (agg_max_retries a) < 2 ^ 32 - 1"
    "unat (agg_retries a) \<le> unat (agg_max_retries a)"
  shows "unat (agg_retries (agg_step c a)) = unat (agg_retries a) + triggers [c] \<and>
    unat (agg_retries (agg_step c a)) \<le> unat (agg_max_retries a)"
proof (cases c)
  case TriggerAggregation
  have "agg_outcome a = Retry \<and> \<not> agg_max_retries a < sat_add (agg_retries a) 1 \<and>
      agg_retries (agg_step c a) = sat_add (agg_retries a) 1"
    using assms(1) by (auto simp: TriggerAggregation agg_op_defs split: if_splits outcome.splits)
  moreover have "unat (sat_add (agg_retries a) 1) = unat (agg_retries a) + 1"
    using assms(2,3) by (simp add: unat_sat_add)
  ultimately show ?thesis by (simp add: word_nat TriggerAggregation triggers_def)
qed (use assms in \<open>auto simp: agg_op_defs triggers_def split: outcome.splits\<close>)

lemma agg_run_retries:
  assumes "\<not> agg_is_terminal (fold agg_step cs a)" "unat (agg_max_retries a) < 2 ^ 32 - 1"
    "agg_retries a = 0"
  shows "unat (agg_retries (fold agg_step cs a)) = triggers cs \<and> triggers cs \<le> unat (agg_max_retries a)"
  using assms(1)
proof (induction cs rule: rev_induct)
  case Nil
  then show ?case by (simp add: triggers_def assms)
next
  case (snoc c cs)
  let ?b = "fold agg_step cs a"
  have open_b: "\<not> agg_is_terminal ?b" using snoc.prems agg_terminal_step by fastforce
  have "triggers (cs @ [c]) = triggers cs + triggers [c]" by (simp add: triggers_def)
  then show ?case using agg_step_retries [of c ?b] snoc.prems snoc.IH [OF open_b] assms(2) by simp
qed

section \<open>Properties\<close>

text \<open>a terminal Pass or Fail is never an artefact of the lifecycle: after any
  sequence of calls on a new aggregator, the collected votes are the first received ones
  (all of them while the aggregator is open), and a Pass or Fail state is exactly the
  quorum outcome of those votes.\<close>

theorem aggregator_outcome_sound:
  "\<exists>k. let a = fold agg_step calls (agg_with_max_retries threshold stake m); votes = take k (received calls) in
     agg_votes a = votes \<and>
     (agg_is_terminal a \<or> votes = received calls) \<and>
     (agg_state a = APass \<longrightarrow> aggregate votes threshold stake = Pass) \<and>
     (agg_state a = AFail \<longrightarrow> aggregate votes threshold stake = Fail)"
proof -
  let ?n = "agg_with_max_retries threshold stake m"
  let ?a = "fold agg_step calls ?n"
  have start: "agg_votes ?n = []" "agg_threshold ?n = threshold" "agg_stake ?n = stake"
    by (simp_all add: agg_with_max_retries_def)
  have inv: "agg_inv ?a" by (rule agg.run_inv [OF agg_inv_start])
  obtain k where k: "agg_votes ?a = take k (received calls)"
    "agg_is_terminal ?a \<or> length (received calls) \<le> k"
    using agg_run_votes [of calls ?n] start by auto
  show ?thesis using k inv start
    by (intro exI [of _ k]) (auto simp: Let_def agg_inv_def agg_outcome_def)
qed

theorem aggregator_outcome_sound_witness:
  "\<exists>k. aggregate (take k [\<lparr>vote_runner_id = 1, vote_result = VPass\<rparr>, \<lparr>vote_runner_id = 2, vote_result = VFail\<rparr>])
     3 [(1, 5), (2, 1)] = Pass"
proof -
  have "agg_state (fold agg_step [ReceiveVote \<lparr>vote_runner_id = 1, vote_result = VPass\<rparr>, Timeout,
      ReceiveVote \<lparr>vote_runner_id = 2, vote_result = VFail\<rparr>] (agg_with_max_retries 3 [(1, 5), (2, 1)] 4)) = APass"
    by code_simp
  then show ?thesis
    using aggregator_outcome_sound [of "[ReceiveVote \<lparr>vote_runner_id = 1, vote_result = VPass\<rparr>, Timeout,
      ReceiveVote \<lparr>vote_runner_id = 2, vote_result = VFail\<rparr>]" 3 "[(1, 5), (2, 1)]" 4]
    by (auto simp: Let_def)
qed

text \<open>C16: every run terminates its job: a run that times out, or that re-aggregates more
  often than the retry budget allows (for a budget below u32::MAX), ends in a terminal
  state, whatever votes arrive in between; and a terminal state is never left.\<close>

theorem aggregator_terminates:
  assumes "Timeout \<in> set calls \<or> unat m < 2 ^ 32 - 1 \<and> unat m < triggers calls"
  shows "agg_is_terminal (fold agg_step calls (agg_with_max_retries threshold stake m)) \<and>
    fold agg_step (calls @ later) (agg_with_max_retries threshold stake m) =
      fold agg_step calls (agg_with_max_retries threshold stake m)"
proof -
  let ?n = "agg_with_max_retries threshold stake m"
  have start: "agg_max_retries ?n = m" "agg_retries ?n = 0" by (simp_all add: agg_with_max_retries_def)
  have "agg_is_terminal (fold agg_step calls ?n)"
  proof (cases "Timeout \<in> set calls")
    case True
    then obtain xs ys where c: "calls = xs @ Timeout # ys" by (auto dest: split_list)
    have t: "agg_is_terminal (fst (agg_timeout a))" for a
      by (auto simp: agg_op_defs split: outcome.splits)
    show ?thesis by (simp add: c agg.final_run [OF t] t)
  next
    case False
    then show ?thesis using assms agg_run_retries [of calls ?n] start by fastforce
  qed
  then show ?thesis by (simp add: agg.final_run)
qed

theorem aggregator_terminates_witness:
  "agg_is_terminal (fold agg_step [TriggerAggregation, TriggerAggregation, TriggerAggregation]
     (agg_with_max_retries 3 [(1, 5), (2, 1)] 2))"
  using aggregator_terminates [of "[TriggerAggregation, TriggerAggregation, TriggerAggregation]" 2 3 "[(1, 5), (2, 1)]" "[]"]
  by (simp add: triggers_def)

text \<open>the default constructor has no retry budget: without a timeout, an aggregator
  made by \<open>new\<close> escalates only when the quorum outcome of its votes is Escalate,
  however often it is re-aggregated.\<close>

theorem aggregator_new_never_exhausts:
  assumes "Timeout \<notin> set calls"
  shows "agg_state (fold agg_step calls (agg_new threshold stake)) = AEscalate \<longrightarrow>
    agg_outcome (fold agg_step calls (agg_new threshold stake)) = Escalate"
  using assms
proof (induction calls rule: rev_induct)
  case Nil
  then show ?case by (simp add: agg_new_def agg_with_max_retries_def)
next
  case (snoc c calls)
  let ?a = "fold agg_step calls (agg_new threshold stake)"
  have "agg_max_retries ?a = - 1" by (simp add: agg_new_def agg_with_max_retries_def)
  then have "\<not> agg_max_retries ?a < r" for r by (simp add: not_less)
  then show ?case using snoc by (cases c) (auto simp: agg_op_defs split: outcome.splits)
qed

theorem aggregator_new_never_exhausts_witness:
  "agg_state (fold agg_step [ReceiveVote \<lparr>vote_runner_id = 1, vote_result = VPass\<rparr>, TriggerAggregation,
     TriggerAggregation] (agg_new 6 [(1, 5), (2, 4)])) \<noteq> AEscalate"
proof -
  have "agg_outcome (fold agg_step [ReceiveVote \<lparr>vote_runner_id = 1, vote_result = VPass\<rparr>, TriggerAggregation,
     TriggerAggregation] (agg_new 6 [(1, 5), (2, 4)])) = Retry" by code_simp
  then show ?thesis
    using aggregator_new_never_exhausts [of "[ReceiveVote \<lparr>vote_runner_id = 1, vote_result = VPass\<rparr>, TriggerAggregation,
     TriggerAggregation]" 6 "[(1, 5), (2, 4)]"] by auto
qed

end
