(* ===== verification/Lease.thy ===== *)
theory Lease
  imports Prelude
begin

text \<open>
  The lease lifecycle of one shard (\<open>cosaci-state/src/lease.rs\<close>). A manager keeps every
  lease it ever granted and an index of the active ones by \<open>(job, runner)\<close> pair; stale
  leases are swept at the start of every operation. The injected clock is the argument
  \<open>now\<close>: what \<open>now_ns()\<close> returns to the sweep. \<open>acquire\<close> reads the clock a second
  time for the grant (\<open>now'\<close>).
\<close>

section \<open>State and operations\<close>

type_synonym job_id = u64
type_synonym lease_id = u64
type_synonym pair = "job_id \<times> u64"

datatype lease_state = Active | Completed | Expired

record lease =
  l_lease_id :: lease_id
  l_job_id :: job_id
  l_runner_id :: u64
  l_acquired_at_ns :: u64
  l_ttl_ns :: u64
  l_state :: lease_state

definition expires_at_ns :: "lease \<Rightarrow> u64" where
  "expires_at_ns l = sat_add (l_acquired_at_ns l) (l_ttl_ns l)"

datatype lease_error = AlreadyLeased

record lease_manager =
  lm_default_ttl_ns :: u64
  lm_leases :: "(lease_id, lease) hmap"
  lm_active_by_pair :: "(pair, lease_id) hmap"
  lm_next_id :: lease_id

definition lm_new :: "u64 \<Rightarrow> lease_manager" where
  "lm_new default_ttl_ns =
     \<lparr>lm_default_ttl_ns = default_ttl_ns, lm_leases = [], lm_active_by_pair = [], lm_next_id = 1\<rparr>"

definition l_pair :: "lease \<Rightarrow> pair" where
  "l_pair l = (l_job_id l, l_runner_id l)"

definition lm_expire :: "lease_id \<Rightarrow> lease_manager \<Rightarrow> lease_manager" where
  "lm_expire lid m =
     (case hm_get (lm_leases m) lid of
        None \<Rightarrow> m
      | Some l \<Rightarrow> m\<lparr>lm_leases := hm_insert lid (l\<lparr>l_state := Expired\<rparr>) (lm_leases m),
                   lm_active_by_pair := hm_remove (l_pair l) (lm_active_by_pair m)\<rparr>)"

definition lm_to_expire :: "u64 \<Rightarrow> lease_manager \<Rightarrow> lease_id list" where
  "lm_to_expire now m =
     map fst (filter (\<lambda>(_, l). l_state l = Active \<and> expires_at_ns l \<le> now) (lm_leases m))"

definition lm_tick :: "u64 \<Rightarrow> lease_manager \<Rightarrow> lease_manager" where
  "lm_tick now m = fold lm_expire (lm_to_expire now m) m"

definition lm_acquire ::
    "u64 \<Rightarrow> u64 \<Rightarrow> job_id \<Rightarrow> u64 \<Rightarrow> lease_manager \<Rightarrow> lease_manager \<times> (lease_error + lease_id)" where
  "lm_acquire now now' job runner m0 =
     (let m = lm_tick now m0; key = (job, runner) in
      if hm_contains (lm_active_by_pair m) key then (m, Inl AlreadyLeased)
      else let lid = lm_next_id m;
               l = \<lparr>l_lease_id = lid, l_job_id = job, l_runner_id = runner, l_acquired_at_ns = now',
                    l_ttl_ns = lm_default_ttl_ns m, l_state = Active\<rparr>
           in (m\<lparr>lm_next_id := lid + 1, lm_leases := hm_insert lid l (lm_leases m),
                 lm_active_by_pair := hm_insert key lid (lm_active_by_pair m)\<rparr>, Inr lid))"

definition lm_complete :: "u64 \<Rightarrow> lease_id \<Rightarrow> lease_manager \<Rightarrow> lease_manager" where
  "lm_complete now lid m0 =
     (let m = lm_tick now m0 in
      case hm_get (lm_leases m) lid of
        None \<Rightarrow> m
      | Some l \<Rightarrow> if l_state l = Active
          then m\<lparr>lm_leases := hm_insert lid (l\<lparr>l_state := Completed\<rparr>) (lm_leases m),
                 lm_active_by_pair := hm_remove (l_pair l) (lm_active_by_pair m)\<rparr>
          else m)"

definition lm_is_active :: "u64 \<Rightarrow> lease_id \<Rightarrow> lease_manager \<Rightarrow> lease_manager \<times> bool" where
  "lm_is_active now lid m0 =
     (let m = lm_tick now m0 in
      (m, case hm_get (lm_leases m) lid of None \<Rightarrow> False | Some l \<Rightarrow> l_state l = Active))"

definition lm_active_lease_for :: "u64 \<Rightarrow> job_id \<Rightarrow> u64 \<Rightarrow> lease_manager \<Rightarrow> lease_manager \<times> lease_id option" where
  "lm_active_lease_for now job runner m0 =
     (let m = lm_tick now m0 in (m, hm_get (lm_active_by_pair m) (job, runner)))"

definition lm_count_active_for_job :: "u64 \<Rightarrow> job_id \<Rightarrow> lease_manager \<Rightarrow> lease_manager \<times> nat" where
  "lm_count_active_for_job now job m0 =
     (let m = lm_tick now m0 in
      (m, length (filter (\<lambda>(j, _). j = job) (map fst (lm_active_by_pair m)))))"

definition lm_count_active :: "u64 \<Rightarrow> lease_manager \<Rightarrow> lease_manager \<times> nat" where
  "lm_count_active now m0 = (let m = lm_tick now m0 in (m, length (lm_active_by_pair m)))"

definition lm_active_pairs :: "u64 \<Rightarrow> lease_manager \<Rightarrow> lease_manager \<times> pair list" where
  "lm_active_pairs now m0 = (let m = lm_tick now m0 in (m, map fst (lm_active_by_pair m)))"

definition lm_state_of :: "u64 \<Rightarrow> lease_id \<Rightarrow> lease_manager \<Rightarrow> lease_manager \<times> lease_state option" where
  "lm_state_of now lid m0 =
     (let m = lm_tick now m0 in (m, map_option l_state (hm_get (lm_leases m) lid)))"

text \<open>The calls of a client; every accessor changes the state only by its sweep.\<close>

datatype lease_call = LAcquire u64 u64 job_id u64 | LComplete u64 lease_id | LObserve u64

primrec lease_step :: "lease_call \<Rightarrow> lease_manager \<Rightarrow> lease_manager" where
  "lease_step (LAcquire now now' job runner) m = fst (lm_acquire now now' job runner m)"
| "lease_step (LComplete now lid) m = lm_complete now lid m"
| "lease_step (LObserve now) m = lm_tick now m"

section \<open>The invariant\<close>

text \<open>The index holds exactly the active leases, and every known lease has an id that was
  handed out.\<close>

definition lm_inv :: "lease_manager \<Rightarrow> bool" where
  "lm_inv m \<longleftrightarrow>
     hm_wf (lm_leases m) \<and> hm_wf (lm_active_by_pair m) \<and>
     (\<forall>lid l. hm_get (lm_leases m) lid = Some l \<longrightarrow> l_lease_id l = lid \<and> unat lid < unat (lm_next_id m)) \<and>
     (\<forall>p lid. hm_get (lm_active_by_pair m) p = Some lid \<longleftrightarrow>
        (\<exists>l. hm_get (lm_leases m) lid = Some l \<and> l_state l = Active \<and> l_pair l = p))"

lemma lm_invD:
  assumes "lm_inv m"
  shows "hm_wf (lm_leases m)" "hm_wf (lm_active_by_pair m)"
    "hm_get (lm_leases m) lid = Some l \<Longrightarrow> l_lease_id l = lid \<and> unat lid < unat (lm_next_id m)"
    "hm_get (lm_active_by_pair m) p = Some lid \<longleftrightarrow>
        (\<exists>l. hm_get (lm_leases m) lid = Some l \<and> l_state l = Active \<and> l_pair l = p)"
  using assms unfolding lm_inv_def by blast+

lemma lm_inv_new: "lm_inv (lm_new ttl)"
  by (simp add: lm_inv_def lm_new_def)

lemma l_pair_state [simp]: "l_pair (l\<lparr>l_state := st\<rparr>) = l_pair l"
  by (simp add: l_pair_def)

lemma lm_active_unique:
  assumes "lm_inv m" "hm_get (lm_leases m) i = Some l" "l_state l = Active"
    "hm_get (lm_leases m) j = Some k" "l_state k = Active" "l_pair l = l_pair k"
  shows "i = j"
  using assms lm_invD(4) [OF assms(1), of "l_pair k"] by (metis option.inject)

text \<open>Closing an active lease, by expiry or by completion.\<close>

definition lm_close :: "lease_state \<Rightarrow> lease_id \<Rightarrow> lease \<Rightarrow> lease_manager \<Rightarrow> lease_manager" where
  "lm_close st lid l m = m\<lparr>lm_leases := hm_insert lid (l\<lparr>l_state := st\<rparr>) (lm_leases m),
     lm_active_by_pair := hm_remove (l_pair l) (lm_active_by_pair m)\<rparr>"

lemma lm_inv_close:
  assumes inv: "lm_inv m" and l: "hm_get (lm_leases m) lid = Some l" "l_state l = Active" and st: "st \<noteq> Active"
  shows "lm_inv (lm_close st lid l m)"
  unfolding lm_inv_def
proof (intro conjI allI impI)
  show "hm_wf (lm_leases (lm_close st lid l m))" "hm_wf (lm_active_by_pair (lm_close st lid l m))"
    using lm_invD(1,2) [OF inv] by (simp_all add: lm_close_def)
next
  fix i k
  assume "hm_get (lm_leases (lm_close st lid l m)) i = Some k"
  then show "l_lease_id k = i" "unat i < unat (lm_next_id (lm_close st lid l m))"
    using lm_invD(3) [OF inv] l by (auto simp: lm_close_def hm_simps split: if_splits)
next
  fix p i
  show "hm_get (lm_active_by_pair (lm_close st lid l m)) p = Some i \<longleftrightarrow>
    (\<exists>k. hm_get (lm_leases (lm_close st lid l m)) i = Some k \<and> l_state k = Active \<and> l_pair k = p)"
  proof (cases "p = l_pair l")
    case True
    then show ?thesis using st lm_active_unique [OF inv l] by (auto simp: lm_close_def hm_simps)
  next
    case False
    then show ?thesis using st l lm_invD(4) [OF inv, of p i] by (auto simp: lm_close_def hm_simps)
  qed
qed

lemma lm_fold_expire:
  assumes "lm_inv m" "distinct lids" "\<forall>lid\<in>set lids. \<exists>l. hm_get (lm_leases m) lid = Some l \<and> l_state l = Active"
  shows "lm_inv (fold lm_expire lids m) \<and> lm_next_id (fold lm_expire lids m) = lm_next_id m \<and>
    lm_default_ttl_ns (fold lm_expire lids m) = lm_default_ttl_ns m \<and>
    (\<forall>i. hm_get (lm_leases (fold lm_expire lids m)) i =
      (if i \<in> set lids then map_option (\<lambda>l. l\<lparr>l_state := Expired\<rparr>) (hm_get (lm_leases m) i)
       else hm_get (lm_leases m) i))"
  using assms
proof (induction lids arbitrary: m)
  case (Cons lid lids)
  then obtain l where l: "hm_get (lm_leases m) lid = Some l" "l_state l = Active" by auto
  have e: "lm_expire lid m = lm_close Expired lid l m" by (simp add: lm_expire_def lm_close_def l)
  have inv: "lm_inv (lm_expire lid m)" using lm_inv_close [OF Cons.prems(1) l] by (simp add: e)
  have g: "hm_get (lm_leases (lm_expire lid m)) i = (if i = lid then Some (l\<lparr>l_state := Expired\<rparr>) else hm_get (lm_leases m) i)" for i
    by (simp add: e lm_close_def hm_simps)
  have "\<forall>i\<in>set lids. \<exists>k. hm_get (lm_leases (lm_expire lid m)) i = Some k \<and> l_state k = Active"
    using Cons.prems(2,3) by (auto simp: g)
  from Cons.IH [OF inv _ this] Cons.prems(2) show ?case by (auto simp: g l) (simp_all add: e lm_close_def)
qed simp

definition lease_after :: "u64 \<Rightarrow> lease \<Rightarrow> lease" where
  "lease_after now l = (if l_state l = Active \<and> expires_at_ns l \<le> now then l\<lparr>l_state := Expired\<rparr> else l)"

lemma lm_to_expire_iff:
  "hm_wf (lm_leases m) \<Longrightarrow> lid \<in> set (lm_to_expire now m) \<longleftrightarrow>
     (\<exists>l. hm_get (lm_leases m) lid = Some l \<and> l_state l = Active \<and> expires_at_ns l \<le> now)"
  by (force simp: lm_to_expire_def hm_wf_def intro: map_of_is_SomeI dest: map_of_SomeD)

lemma lm_tick_props:
  assumes inv: "lm_inv m"
  shows "lm_inv (lm_tick now m)" "lm_next_id (lm_tick now m) = lm_next_id m"
    "lm_default_ttl_ns (lm_tick now m) = lm_default_ttl_ns m"
    "hm_get (lm_leases (lm_tick now m)) i = map_option (lease_after now) (hm_get (lm_leases m) i)"
proof -
  note wf = lm_invD(1) [OF inv]
  have d: "distinct (lm_to_expire now m)"
    using wf by (simp add: lm_to_expire_def hm_wf_def distinct_map_filter)
  have a: "\<forall>lid\<in>set (lm_to_expire now m). \<exists>l. hm_get (lm_leases m) lid = Some l \<and> l_state l = Active"
    using lm_to_expire_iff [OF wf] by blast
  note f = lm_fold_expire [OF inv d a]
  from f show "lm_inv (lm_tick now m)" "lm_next_id (lm_tick now m) = lm_next_id m"
    "lm_default_ttl_ns (lm_tick now m) = lm_default_ttl_ns m" by (simp_all add: lm_tick_def)
  show "hm_get (lm_leases (lm_tick now m)) i = map_option (lease_after now) (hm_get (lm_leases m) i)"
    using f lm_to_expire_iff [OF wf, of i now]
    by (cases "hm_get (lm_leases m) i") (auto simp: lm_tick_def lease_after_def)
qed

section \<open>Every operation keeps the invariant\<close>

lemma lease_after_active:
  "lease_after now z = k \<and> l_state k = Active \<longleftrightarrow> z = k \<and> l_state k = Active \<and> now < expires_at_ns k"
  by (cases "l_state z = Active \<and> expires_at_ns z \<le> now") (auto simp: lease_after_def not_less)

lemma lm_tick_active_iff:
  assumes "lm_inv m"
  shows "hm_get (lm_leases (lm_tick now m)) lid = Some k \<and> l_state k = Active \<longleftrightarrow>
    hm_get (lm_leases m) lid = Some k \<and> l_state k = Active \<and> now < expires_at_ns k"
  using lease_after_active [of now _ k] unfolding lm_tick_props(4) [OF assms] by (cases "hm_get (lm_leases m) lid") auto

lemma lm_active_tick:
  assumes inv: "lm_inv m"
  shows "hm_get (lm_active_by_pair (lm_tick now m)) p = Some lid \<longleftrightarrow>
    (\<exists>l. hm_get (lm_leases m) lid = Some l \<and> l_state l = Active \<and> l_pair l = p \<and> now < expires_at_ns l)"
  unfolding lm_invD(4) [OF lm_tick_props(1) [OF inv]] using lm_tick_active_iff [OF inv] by blast

definition lm_grant :: "lease \<Rightarrow> lease_manager \<Rightarrow> lease_manager" where
  "lm_grant l m = m\<lparr>lm_next_id := lm_next_id m + 1, lm_leases := hm_insert (lm_next_id m) l (lm_leases m),
     lm_active_by_pair := hm_insert (l_pair l) (lm_next_id m) (lm_active_by_pair m)\<rparr>"

lemma lm_next_fresh: "lm_inv m \<Longrightarrow> hm_get (lm_leases m) (lm_next_id m) = None"
  using lm_invD(3) [of m "lm_next_id m"] by (cases "hm_get (lm_leases m) (lm_next_id m)") auto

lemma unat_next_id: "unat (x :: u64) + 1 < 2 ^ 64 \<Longrightarrow> unat (x + 1) = unat x + 1"
  by (simp add: unat_word_ariths)

lemma lm_inv_grant:
  assumes inv: "lm_inv m" and free: "hm_get (lm_active_by_pair m) (l_pair l) = None"
    and l: "l_lease_id l = lm_next_id m" "l_state l = Active" and room: "unat (lm_next_id m) + 1 < 2 ^ 64"
  shows "lm_inv (lm_grant l m)"
  unfolding lm_inv_def
proof (intro conjI allI impI)
  show "hm_wf (lm_leases (lm_grant l m))" "hm_wf (lm_active_by_pair (lm_grant l m))"
    using lm_invD(1,2) [OF inv] by (simp_all add: lm_grant_def)
next
  fix i k
  assume "hm_get (lm_leases (lm_grant l m)) i = Some k"
  then show "l_lease_id k = i" "unat i < unat (lm_next_id (lm_grant l m))"
    using lm_invD(3) [OF inv, of i k] l unat_next_id [OF room]
    by (auto simp: lm_grant_def hm_simps split: if_splits)
next
  fix p i
  note fresh = lm_next_fresh [OF inv]
  show "hm_get (lm_active_by_pair (lm_grant l m)) p = Some i \<longleftrightarrow>
    (\<exists>k. hm_get (lm_leases (lm_grant l m)) i = Some k \<and> l_state k = Active \<and> l_pair k = p)"
  proof (cases "p = l_pair l")
    case True
    have "\<not> (\<exists>k. hm_get (lm_leases m) i = Some k \<and> l_state k = Active \<and> l_pair k = l_pair l)"
      using free lm_invD(4) [OF inv, of "l_pair l" i] by simp
    then show ?thesis using True l by (auto simp: lm_grant_def hm_simps)
  next
    case False
    then show ?thesis using l fresh lm_invD(4) [OF inv, of p i] by (auto simp: lm_grant_def hm_simps)
  qed
qed

lemma lm_acquire_cases:
  "lm_acquire now now' job runner m =
    (if hm_contains (lm_active_by_pair (lm_tick now m)) (job, runner) then (lm_tick now m, Inl AlreadyLeased)
     else (lm_grant \<lparr>l_lease_id = lm_next_id (lm_tick now m), l_job_id = job, l_runner_id = runner,
         l_acquired_at_ns = now', l_ttl_ns = lm_default_ttl_ns (lm_tick now m), l_state = Active\<rparr> (lm_tick now m),
       Inr (lm_next_id (lm_tick now m))))"
  by (simp add: lm_acquire_def Let_def lm_grant_def l_pair_def)

lemma lm_acquire_inv:
  assumes "lm_inv m" "unat (lm_next_id m) + 1 < 2 ^ 64"
  shows "lm_inv (fst (lm_acquire now now' job runner m))"
proof -
  note t = lm_tick_props [OF assms(1), of now]
  show ?thesis unfolding lm_acquire_cases using t assms(2)
    by (auto simp: hm_contains_def l_pair_def intro!: lm_inv_grant)
qed

lemma lm_complete_cases:
  "lm_complete now lid m =
    (case hm_get (lm_leases (lm_tick now m)) lid of
       Some l \<Rightarrow> if l_state l = Active then lm_close Completed lid l (lm_tick now m) else lm_tick now m
     | None \<Rightarrow> lm_tick now m)"
  by (simp add: lm_complete_def Let_def lm_close_def split: option.splits)

lemma lm_complete_inv: "lm_inv m \<Longrightarrow> lm_inv (lm_complete now lid m)"
  using lm_tick_props(1) [of m now] lm_inv_close [of "lm_tick now m" lid _ Completed]
  by (auto simp: lm_complete_cases split: option.split)

lemma lm_next_id_step:
  "lm_inv m \<Longrightarrow> unat (lm_next_id m) + 1 < 2 ^ 64 \<Longrightarrow>
    unat (lm_next_id m) \<le> unat (lm_next_id (lease_step c m)) \<and>
    unat (lm_next_id (lease_step c m)) \<le> unat (lm_next_id m) + 1"
  by (cases c) (auto simp: lm_acquire_cases lm_complete_cases lm_grant_def lm_close_def lm_tick_props
    unat_next_id split: option.split)

definition lm_run_inv :: "nat \<Rightarrow> lease_manager \<Rightarrow> bool" where
  "lm_run_inv n m \<longleftrightarrow> lm_inv m \<and> unat (lm_next_id m) \<le> n + 1"

lemma lease_step_run_inv:
  assumes "lm_run_inv n m" "n < 2 ^ 64 - 2"
  shows "lm_run_inv (Suc n) (lease_step c m)"
proof -
  have inv: "lm_inv m" and le: "unat (lm_next_id m) \<le> n + 1" using assms by (simp_all add: lm_run_inv_def)
  have room: "unat (lm_next_id m) + 1 < 2 ^ 64" using le assms(2) by linarith
  have "lm_inv (lease_step c m)"
    using lm_acquire_inv [OF inv room] lm_complete_inv [OF inv] lm_tick_props(1) [OF inv] by (cases c) simp_all
  then show ?thesis using lm_next_id_step [OF inv room, of c] le by (simp add: lm_run_inv_def)
qed

interpretation leases: budgeted_machine lease_step lm_run_inv "2 ^ 64 - 2"
  by unfold_locales (rule lease_step_run_inv)

lemma lm_run_inv_new: "lm_run_inv 0 (lm_new ttl)"
  by (simp add: lm_run_inv_def lm_inv_new) (simp add: lm_new_def)

section \<open>What a client sees: the held pairs and when they lapse\<close>

definition held :: "lease_manager \<Rightarrow> pair \<Rightarrow> u64 option" where
  "held m p = (case hm_get (lm_active_by_pair m) p of None \<Rightarrow> None
     | Some lid \<Rightarrow> map_option expires_at_ns (hm_get (lm_leases m) lid))"

definition sweep :: "u64 \<Rightarrow> (pair \<Rightarrow> u64 option) \<Rightarrow> pair \<Rightarrow> u64 option" where
  "sweep now h p = (case h p of None \<Rightarrow> None | Some e \<Rightarrow> if e \<le> now then None else Some e)"

text \<open>The contract of a lease service, on the abstract table of held pairs: acquiring first
  drops what has lapsed, refuses a pair that is still held, and otherwise holds it until
  the time to live is over.\<close>

locale lease_service =
  fixes acq :: "u64 \<Rightarrow> u64 \<Rightarrow> job_id \<Rightarrow> u64 \<Rightarrow> 'm \<Rightarrow> 'm \<times> (lease_error + lease_id)"
    and ok :: "'m \<Rightarrow> bool"
    and table :: "'m \<Rightarrow> pair \<Rightarrow> u64 option"
    and ttl :: "'m \<Rightarrow> u64"
  assumes acq_refused: "ok m \<Longrightarrow> isl (snd (acq now now' job runner m)) \<longleftrightarrow> sweep now (table m) (job, runner) \<noteq> None"
    and acq_table: "ok m \<Longrightarrow> table (fst (acq now now' job runner m)) =
      (if sweep now (table m) (job, runner) \<noteq> None then sweep now (table m)
       else (sweep now (table m))((job, runner) \<mapsto> sat_add now' (ttl m)))"
    and acq_ttl: "ok m \<Longrightarrow> ttl (fst (acq now now' job runner m)) = ttl m"
begin

text \<open>Two services that hold the same pairs at the time of a call answer it alike, and
  have the same table afterwards.\<close>

lemma lockstep:
  assumes "ok a" "ok b" "sweep now (table a) = sweep now (table b)" "ttl a = ttl b"
  shows "isl (snd (acq now now' job runner a)) \<longleftrightarrow> isl (snd (acq now now' job runner b))"
    and "table (fst (acq now now' job runner a)) = table (fst (acq now now' job runner b))"
    and "ttl (fst (acq now now' job runner a)) = ttl (fst (acq now now' job runner b))"
  using assms by (simp_all add: acq_refused acq_table acq_ttl)

lemma acquired_is_held:
  assumes "ok m" "\<not> isl (snd (acq now now' job runner m))"
  shows "table (fst (acq now now' job runner m)) (job, runner) = Some (sat_add now' (ttl m))"
  using assms by (simp add: acq_refused acq_table)

end

lemma held_iff:
  "lm_inv m \<Longrightarrow> held m p = Some e \<longleftrightarrow>
    (\<exists>lid l. hm_get (lm_leases m) lid = Some l \<and> l_state l = Active \<and> l_pair l = p \<and> expires_at_ns l = e)"
proof -
  assume inv: "lm_inv m"
  note d = lm_invD(4) [OF inv, of p]
  show ?thesis
  proof (cases "hm_get (lm_active_by_pair m) p")
    case None
    then have "held m p = None" by (simp add: held_def)
    then show ?thesis using d None by (metis option.distinct(1))
  next
    case (Some i)
    then obtain k where k: "hm_get (lm_leases m) i = Some k" "l_state k = Active" "l_pair k = p" using d by blast
    have "l = k" if "hm_get (lm_leases m) j = Some l" "l_state l = Active" "l_pair l = p" for j l
      using lm_active_unique [OF inv that(1,2) k(1,2)] that k by simp
    moreover have h: "held m p = Some (expires_at_ns k)" using Some k by (simp add: held_def)
    ultimately show ?thesis unfolding h option.inject using k by blast
  qed
qed

lemma option_eqI: "(\<And>v. a = Some v \<longleftrightarrow> b = Some v) \<Longrightarrow> a = b"
  by (cases a; cases b) auto

lemma held_tick:
  assumes "lm_inv m"
  shows "held (lm_tick now m) = sweep now (held m)"
proof (rule ext, rule option_eqI)
  fix p e
  have "sweep now (held m) p = Some e \<longleftrightarrow> held m p = Some e \<and> now < e"
    by (auto simp: sweep_def not_le split: option.splits if_splits)
  then show "held (lm_tick now m) p = Some e \<longleftrightarrow> sweep now (held m) p = Some e"
    unfolding held_iff [OF lm_tick_props(1) [OF assms]] held_iff [OF assms]
    using lm_tick_active_iff [OF assms] by blast
qed

lemma active_iff_held: "lm_inv m \<Longrightarrow> hm_contains (lm_active_by_pair m) p \<longleftrightarrow> held m p \<noteq> None"
  using lm_invD(4) [of m p "the (hm_get (lm_active_by_pair m) p)"]
  by (cases "hm_get (lm_active_by_pair m) p") (auto simp: held_def hm_contains_def)

lemma held_grant:
  assumes "lm_inv m"
  shows "held (lm_grant l m) = (held m)(l_pair l \<mapsto> expires_at_ns l)"
proof
  fix p
  have "hm_get (lm_active_by_pair m) p \<noteq> Some (lm_next_id m)"
    using lm_invD(4) [OF assms, of p "lm_next_id m"] lm_next_fresh [OF assms] by simp
  then show "held (lm_grant l m) p = ((held m)(l_pair l \<mapsto> expires_at_ns l)) p"
    by (auto simp: held_def lm_grant_def hm_simps split: option.splits)
qed

interpretation lease_mgr: lease_service lm_acquire lm_inv held lm_default_ttl_ns
proof unfold_locales
  fix m now now' job runner
  assume inv: "lm_inv m"
  note t = lm_tick_props [OF inv, of now]
  have c: "hm_contains (lm_active_by_pair (lm_tick now m)) (job, runner) \<longleftrightarrow> sweep now (held m) (job, runner) \<noteq> None"
    by (simp add: active_iff_held [OF t(1)] held_tick [OF inv])
  show "isl (snd (lm_acquire now now' job runner m)) \<longleftrightarrow> sweep now (held m) (job, runner) \<noteq> None"
    unfolding c [symmetric] by (simp add: lm_acquire_cases)
  show "held (fst (lm_acquire now now' job runner m)) =
      (if sweep now (held m) (job, runner) \<noteq> None then sweep now (held m)
       else (sweep now (held m))((job, runner) \<mapsto> sat_add now' (lm_default_ttl_ns m)))"
    unfolding c [symmetric]
    by (simp add: lm_acquire_cases held_grant [OF t(1)] held_tick [OF inv] t(3) l_pair_def expires_at_ns_def)
  show "lm_default_ttl_ns (fst (lm_acquire now now' job runner m)) = lm_default_ttl_ns m"
    by (simp add: lm_acquire_cases lm_grant_def t(3))
qed

section \<open>Properties\<close>

definition lease_active :: "lease_manager \<Rightarrow> lease_id \<Rightarrow> pair \<Rightarrow> bool" where
  "lease_active m lid p = (case hm_get (lm_leases m) lid of None \<Rightarrow> False
     | Some l \<Rightarrow> l_state l = Active \<and> l_pair l = p)"

lemma lease_active_iff: "lm_inv m \<Longrightarrow> lease_active m lid p \<longleftrightarrow> hm_get (lm_active_by_pair m) p = Some lid"
  unfolding lease_active_def lm_invD(4) by (auto split: option.splits)

lemma hm_wf_length: "hm_wf m \<Longrightarrow> length m = card (dom (hm_get m))"
  unfolding hm_wf_def by (metis dom_map_of_conv_image_fst distinct_card length_map set_map)

lemma lm_reachable_inv: "length calls \<le> 2 ^ 64 - 2 \<Longrightarrow> lm_inv (fold lease_step calls (lm_new ttl))"
  using leases.run_inv [OF lm_run_inv_new, of calls ttl] by (simp add: lm_run_inv_def)

lemma lm_index_length:
  assumes inv: "lm_inv m"
  shows "length (lm_active_by_pair m) = card {lid. \<exists>p. lease_active m lid p}"
proof -
  let ?g = "hm_get (lm_active_by_pair m)"
  have "{lid. \<exists>p. lease_active m lid p} = (\<lambda>p. the (?g p)) ` dom ?g"
    using lease_active_iff [OF inv] by force
  moreover have "inj_on (\<lambda>p. the (?g p)) (dom ?g)"
  proof (rule inj_onI)
    fix p q
    assume "p \<in> dom ?g" "q \<in> dom ?g" "the (?g p) = the (?g q)"
    then obtain i where "?g p = Some i" "?g q = Some i" by auto
    then show "p = q" by (auto simp: lm_invD(4) [OF inv])
  qed
  ultimately show ?thesis using hm_wf_length [OF lm_invD(2) [OF inv]] by (simp add: card_image)
qed

text \<open>C20: the index of active leases is exact in every reachable state: after any sequence
  of fewer than 2^64 - 1 acquire, complete and accessor calls at any clock readings, the
  active leases of a \<open>(job, runner)\<close> pair are the one the index names, if any, so a pair
  never holds two, and the size of the index is the number of active leases.\<close>

theorem lease_index_exact:
  assumes "length calls \<le> 2 ^ 64 - 2"
  shows "let m = fold lease_step calls (lm_new ttl) in
     {lid. lease_active m lid p} = set_option (hm_get (lm_active_by_pair m) p) \<and>
     length (lm_active_by_pair m) = card {lid. \<exists>p. lease_active m lid p}"
  using lm_reachable_inv [OF assms, of ttl] lm_index_length
  by (auto simp: Let_def lease_active_iff)

theorem lease_index_exact_witness:
  "{lid. lease_active (fold lease_step [LAcquire 0 0 1 7, LAcquire 0 0 1 7, LAcquire 1 1 1 8, LComplete 2 1]
     (lm_new 10)) lid (1, 8)} = {2}"
proof -
  have "hm_get (lm_active_by_pair (fold lease_step [LAcquire 0 0 1 7, LAcquire 0 0 1 7, LAcquire 1 1 1 8, LComplete 2 1]
     (lm_new 10))) (1, 8) = Some 2" by code_simp
  then show ?thesis
    using lease_index_exact [of "[LAcquire 0 0 1 7, LAcquire 0 0 1 7, LAcquire 1 1 1 8, LComplete 2 1]" 10 "(1, 8)"]
    by (simp add: Let_def)
qed

text \<open>what \<open>acquire\<close> does in every reachable state: it refuses the pair exactly when
  an active lease of that pair has not lapsed; otherwise it grants an id that was never
  handed out before, and the new lease is active exactly until the granting clock reading
  plus the time to live.\<close>

theorem lease_acquire_spec:
  assumes len: "length calls < 2 ^ 64 - 2"
    and m: "m = fold lease_step calls (lm_new ttl)"
    and r: "lm_acquire now now' job runner m = (m', res)"
  shows "(isl res \<longleftrightarrow> (\<exists>lid l. hm_get (lm_leases m) lid = Some l \<and> l_state l = Active \<and>
            l_pair l = (job, runner) \<and> now < expires_at_ns l)) \<and>
    (\<forall>lid t. res = Inr lid \<longrightarrow> hm_get (lm_leases m) lid = None \<and>
       (snd (lm_is_active t lid m') \<longleftrightarrow> t < sat_add now' (lm_default_ttl_ns m)))"
proof -
  have ri: "lm_run_inv (length calls) m"
    using leases.run_inv [OF lm_run_inv_new, of calls ttl] len by (simp add: m)
  then have inv: "lm_inv m" and room: "unat (lm_next_id m) + 1 < 2 ^ 64"
    using len by (simp_all add: lm_run_inv_def)
  note t = lm_tick_props [OF inv, of now]
  have inv': "lm_inv m'" using lm_acquire_inv [OF inv room, of now now' job runner] by (simp add: r)
  have "isl res \<longleftrightarrow> sweep now (held m) (job, runner) \<noteq> None"
    using lease_mgr.acq_refused [OF inv, of now now' job runner] by (simp add: r)
  also have "\<dots> \<longleftrightarrow> (\<exists>e. held m (job, runner) = Some e \<and> now < e)"
    by (auto simp: sweep_def not_le split: option.splits)
  finally have refused: "isl res \<longleftrightarrow> (\<exists>lid l. hm_get (lm_leases m) lid = Some l \<and> l_state l = Active \<and>
            l_pair l = (job, runner) \<and> now < expires_at_ns l)"
    unfolding held_iff [OF inv] by blast
  have granted: "hm_get (lm_leases m) lid = None \<and>
       (snd (lm_is_active t lid m') \<longleftrightarrow> t < sat_add now' (lm_default_ttl_ns m))" if "res = Inr lid" for lid t
  proof -
    have "lid = lm_next_id m" and "hm_get (lm_leases m') lid = Some \<lparr>l_lease_id = lid, l_job_id = job,
        l_runner_id = runner, l_acquired_at_ns = now', l_ttl_ns = lm_default_ttl_ns m, l_state = Active\<rparr>"
      using r that by (auto simp: lm_acquire_cases lm_grant_def hm_simps lm_tick_props [OF inv] split: if_splits)
    then show ?thesis using lm_next_fresh [OF inv]
      by (auto simp: lm_is_active_def Let_def lm_tick_props [OF inv'] lease_after_def expires_at_ns_def)
  qed
  show ?thesis using refused granted by blast
qed

theorem lease_acquire_spec_witness:
  "snd (lm_is_active 14 1 (fst (lm_acquire 5 5 1 7 (lm_new 10)))) \<and>
   \<not> snd (lm_is_active 15 1 (fst (lm_acquire 5 5 1 7 (lm_new 10))))"
proof -
  have r: "lm_acquire 5 5 1 7 (lm_new 10) = (fst (lm_acquire 5 5 1 7 (lm_new 10)), Inr 1)" by code_simp
  have m: "lm_new 10 = fold lease_step [] (lm_new 10)" by simp
  show ?thesis using lease_acquire_spec [OF _ m r] by (simp add: lm_new_def sat_add_def)
qed

text \<open>A closed lease is never touched again.\<close>

lemma lease_step_closed:
  assumes inv: "lm_inv m" and l: "hm_get (lm_leases m) lid = Some l" "l_state l \<noteq> Active"
  shows "hm_get (lm_leases (lease_step c m)) lid = Some l"
proof -
  have t: "hm_get (lm_leases (lm_tick now m)) lid = Some l" for now
    using l by (simp add: lm_tick_props [OF inv] lease_after_def)
  have ne: "lm_next_id (lm_tick now m) \<noteq> lid" for now
    using lm_next_fresh [OF inv] l by (auto simp: lm_tick_props [OF inv])
  show ?thesis using t ne l
    by (cases c) (auto simp: lm_acquire_cases lm_complete_cases lm_grant_def lm_close_def hm_simps split: option.split)
qed

lemma lease_run_closed:
  assumes "lm_run_inv n m" "hm_get (lm_leases m) lid = Some l" "l_state l \<noteq> Active" "n + length cs \<le> 2 ^ 64 - 2"
  shows "hm_get (lm_leases (fold lease_step cs m)) lid = Some l"
  using assms(1,2,4)
proof (induction cs arbitrary: n m)
  case (Cons c cs)
  have "lm_run_inv (Suc n) (lease_step c m)" using Cons.prems by (intro lease_step_run_inv) simp_all
  moreover have "hm_get (lm_leases (lease_step c m)) lid = Some l"
    using Cons.prems assms(3) by (intro lease_step_closed) (simp_all add: lm_run_inv_def)
  ultimately show ?case using Cons.IH [of "Suc n"] Cons.prems by simp
qed simp

text \<open>no late revival: once a lease is completed or expired, it stays exactly as it is
  through every later call, so a late \<open>complete\<close> on an expired lease changes nothing and
  a closed lease never becomes active again.\<close>

theorem lease_no_revival:
  assumes "length calls + length later \<le> 2 ^ 64 - 2"
    and "hm_get (lm_leases (fold lease_step calls (lm_new ttl))) lid = Some l" "l_state l \<noteq> Active"
  shows "hm_get (lm_leases (fold lease_step (calls @ later) (lm_new ttl))) lid = Some l \<and>
    \<not> snd (lm_is_active now lid (fold lease_step (calls @ later) (lm_new ttl)))"
proof -
  have "lm_run_inv (length calls) (fold lease_step calls (lm_new ttl))"
    using leases.run_inv [OF lm_run_inv_new, of calls ttl] assms(1) by simp
  from lease_run_closed [OF this assms(2,3) assms(1)]
  have g: "hm_get (lm_leases (fold lease_step (calls @ later) (lm_new ttl))) lid = Some l" by simp
  have inv: "lm_inv (fold lease_step (calls @ later) (lm_new ttl))"
    using lm_reachable_inv [of "calls @ later" ttl] assms(1) by simp
  have "\<not> snd (lm_is_active now lid (fold lease_step (calls @ later) (lm_new ttl)))"
    unfolding lm_is_active_def Let_def snd_conv lm_tick_props(4) [OF inv] g
    using assms(3) by (simp add: lease_after_def)
  with g show ?thesis ..
qed

theorem lease_no_revival_witness:
  "\<not> snd (lm_is_active 30 1 (fold lease_step ([LAcquire 5 5 1 7, LObserve 15] @ [LComplete 16 1, LAcquire 20 20 1 7])
     (lm_new 10)))"
proof -
  have "hm_get (lm_leases (fold lease_step [LAcquire 5 5 1 7, LObserve 15] (lm_new 10))) 1 =
     Some \<lparr>l_lease_id = 1, l_job_id = 1, l_runner_id = 7, l_acquired_at_ns = 5, l_ttl_ns = 10, l_state = Expired\<rparr>"
    by code_simp
  from lease_no_revival [OF _ this, of "[LComplete 16 1, LAcquire 20 20 1 7]" 30] show ?thesis by simp
qed

end
