(* ===== verification/Partition.thy ===== *)
theory Partition
  imports Lease
begin

text \<open>
  The partition gate over a lease manager (\<open>cosaci-state/src/partition.rs\<close>): while a
  partition is declared, only the majority side may acquire and complete. The gate is
  shown to be exact: the manager inside behaves as if it had received the authorised
  calls and no others.
\<close>

section \<open>State and operations\<close>

datatype side = SideA | SideB

datatype cluster_error = ClAlreadyLeased | NotAuthoritative

primrec cluster_error_from :: "lease_error \<Rightarrow> cluster_error" where
  "cluster_error_from AlreadyLeased = ClAlreadyLeased"

record cluster =
  cl_manager :: lease_manager
  cl_partition :: "side option"

definition cl_new :: "u64 \<Rightarrow> cluster" where
  "cl_new ttl_ns = \<lparr>cl_manager = lm_new ttl_ns, cl_partition = None\<rparr>"

definition cl_authorize :: "side \<Rightarrow> cluster \<Rightarrow> cluster_error + unit" where
  "cl_authorize sd c = (case cl_partition c of
     Some majority \<Rightarrow> if sd \<noteq> majority then Inl NotAuthoritative else Inr ()
   | None \<Rightarrow> Inr ())"

definition cl_acquire ::
    "side \<Rightarrow> u64 \<Rightarrow> u64 \<Rightarrow> job_id \<Rightarrow> u64 \<Rightarrow> cluster \<Rightarrow> cluster \<times> (cluster_error + lease_id)" where
  "cl_acquire sd now now' job runner c =
     (case cl_authorize sd c of
        Inl e \<Rightarrow> (c, Inl e)
      | Inr _ \<Rightarrow> (case lm_acquire now now' job runner (cl_manager c) of
          (m, Inl e) \<Rightarrow> (c\<lparr>cl_manager := m\<rparr>, Inl (cluster_error_from e))
        | (m, Inr lid) \<Rightarrow> (c\<lparr>cl_manager := m\<rparr>, Inr lid)))"

definition cl_complete :: "side \<Rightarrow> u64 \<Rightarrow> lease_id \<Rightarrow> cluster \<Rightarrow> cluster \<times> (cluster_error + unit)" where
  "cl_complete sd now lid c =
     (case cl_authorize sd c of
        Inl e \<Rightarrow> (c, Inl e)
      | Inr _ \<Rightarrow> (c\<lparr>cl_manager := lm_complete now lid (cl_manager c)\<rparr>, Inr ()))"

definition cl_do_partition :: "side \<Rightarrow> cluster \<Rightarrow> cluster" where
  "cl_do_partition majority c = c\<lparr>cl_partition := Some majority\<rparr>"

definition cl_heal :: "cluster \<Rightarrow> cluster" where
  "cl_heal c = c\<lparr>cl_partition := None\<rparr>"

definition cl_is_partitioned :: "cluster \<Rightarrow> bool" where
  "cl_is_partitioned c \<longleftrightarrow> cl_partition c \<noteq> None"

definition cl_active_lease_for :: "u64 \<Rightarrow> job_id \<Rightarrow> u64 \<Rightarrow> cluster \<Rightarrow> cluster \<times> lease_id option" where
  "cl_active_lease_for now job runner c =
     (case lm_active_lease_for now job runner (cl_manager c) of (m, r) \<Rightarrow> (c\<lparr>cl_manager := m\<rparr>, r))"

definition cl_count_active :: "u64 \<Rightarrow> cluster \<Rightarrow> cluster \<times> nat" where
  "cl_count_active now c = (case lm_count_active now (cl_manager c) of (m, r) \<Rightarrow> (c\<lparr>cl_manager := m\<rparr>, r))"

definition cl_active_pairs :: "u64 \<Rightarrow> cluster \<Rightarrow> cluster \<times> pair list" where
  "cl_active_pairs now c = (case lm_active_pairs now (cl_manager c) of (m, r) \<Rightarrow> (c\<lparr>cl_manager := m\<rparr>, r))"

datatype cluster_call =
    CAcquire side u64 u64 job_id u64
  | CComplete side u64 lease_id
  | CPartition side
  | CHeal
  | CActiveLeaseFor u64 job_id u64

primrec cluster_step :: "cluster_call \<Rightarrow> cluster \<Rightarrow> cluster" where
  "cluster_step (CAcquire sd now now' job runner) c = fst (cl_acquire sd now now' job runner c)"
| "cluster_step (CComplete sd now lid) c = fst (cl_complete sd now lid c)"
| "cluster_step (CPartition sd) c = cl_do_partition sd c"
| "cluster_step CHeal c = cl_heal c"
| "cluster_step (CActiveLeaseFor now job runner) c = fst (cl_active_lease_for now job runner c)"

section \<open>The authorised calls\<close>

text \<open>What a perfect gate lets through, given the partition declared so far.\<close>

definition may_write :: "side option \<Rightarrow> side \<Rightarrow> bool" where
  "may_write prt sd \<longleftrightarrow> prt = None \<or> prt = Some sd"

fun admitted :: "side option \<Rightarrow> cluster_call list \<Rightarrow> lease_call list" where
  "admitted prt [] = []"
| "admitted prt (CAcquire sd now now' job runner # cs) =
     (if may_write prt sd then [LAcquire now now' job runner] else []) @ admitted prt cs"
| "admitted prt (CComplete sd now lid # cs) = (if may_write prt sd then [LComplete now lid] else []) @ admitted prt cs"
| "admitted prt (CPartition sd # cs) = admitted (Some sd) cs"
| "admitted prt (CHeal # cs) = admitted None cs"
| "admitted prt (CActiveLeaseFor now job runner # cs) = LObserve now # admitted prt cs"

lemma cl_authorize_iff: "cl_authorize sd c = (if may_write (cl_partition c) sd then Inr () else Inl NotAuthoritative)"
  by (auto simp: cl_authorize_def may_write_def split: option.splits)

lemma cl_step_acquire:
  "fst (cl_acquire sd now now' job runner c) =
    (if may_write (cl_partition c) sd then c\<lparr>cl_manager := fst (lm_acquire now now' job runner (cl_manager c))\<rparr> else c)"
  by (simp add: cl_acquire_def cl_authorize_iff split: prod.split sum.split)

lemma cl_step_complete:
  "fst (cl_complete sd now lid c) =
    (if may_write (cl_partition c) sd then c\<lparr>cl_manager := lm_complete now lid (cl_manager c)\<rparr> else c)"
  by (simp add: cl_complete_def cl_authorize_iff)

lemmas cl_steps = cl_step_acquire cl_step_complete cl_do_partition_def cl_heal_def cl_active_lease_for_def
  lm_active_lease_for_def Let_def

lemma admitted_length: "length (admitted prt cs) \<le> length cs"
  by (induction prt cs rule: admitted.induct) auto

section \<open>Properties\<close>

text \<open>C21: the gate is exact: after any sequence of calls from both sides, with partitions
  declared and healed in between, the lease manager is in the state that the authorised
  calls alone produce; no minority call reaches it, not even its expiry sweep.\<close>

theorem partition_gate_exact:
  "cl_manager (fold cluster_step calls c) = fold lease_step (admitted (cl_partition c) calls) (cl_manager c)"
proof (induction calls arbitrary: c)
  case (Cons k calls)
  then show ?case by (cases k) (simp_all add: cl_steps)
qed simp

text \<open>a write from the minority side is refused as such: while a partition is declared,
  acquire and complete from the other side answer NotAuthoritative and leave the whole
  cluster as it was, and the majority side gets the answer of the lease manager.\<close>

theorem partition_minority_refused:
  assumes "cl_partition c = Some majority"
  shows "(sd \<noteq> majority \<longrightarrow> cl_acquire sd now now' job runner c = (c, Inl NotAuthoritative) \<and>
      cl_complete sd now lid c = (c, Inl NotAuthoritative)) \<and>
    (sd = majority \<longrightarrow> snd (cl_acquire sd now now' job runner c) =
      map_sum cluster_error_from (\<lambda>i. i) (snd (lm_acquire now now' job runner (cl_manager c))))"
  using assms by (auto simp: cl_acquire_def cl_complete_def cl_authorize_def split: prod.split sum.split)

theorem partition_minority_refused_witness:
  "snd (cl_acquire SideB 0 0 1 7 (cl_do_partition SideA (cl_new 10))) = Inl NotAuthoritative"
  using partition_minority_refused [of "cl_do_partition SideA (cl_new 10)" SideA SideB 0 0 1 7]
  by (simp add: cl_do_partition_def)

end
