(* ===== verification/Replicated_Cluster.thy ===== *)
theory Replicated_Cluster
  imports Lease
begin

text \<open>
  The two-replica cluster (\<open>cosaci-state/src/replicated_cluster.rs\<close>): two lease managers
  that are written together while connected, apart while partitioned, with the minority
  replica reset by \<open>heal\<close>. The clock readings of an operation are its first arguments,
  in the order in which the code reads the clock.
\<close>

section \<open>State and operations\<close>

datatype replica_side = ReplicaA | ReplicaB

datatype replica_error = RAlreadyLeased

primrec replica_error_from :: "lease_error \<Rightarrow> replica_error" where
  "replica_error_from AlreadyLeased = RAlreadyLeased"

record two_replica_cluster =
  rc_replica_a :: lease_manager
  rc_replica_b :: lease_manager
  rc_partitioned :: bool
  rc_majority :: replica_side
  rc_ttl_ns :: u64

definition rc_new :: "u64 \<Rightarrow> two_replica_cluster" where
  "rc_new ttl_ns = \<lparr>rc_replica_a = lm_new ttl_ns, rc_replica_b = lm_new ttl_ns, rc_partitioned = False,
     rc_majority = ReplicaA, rc_ttl_ns = ttl_ns\<rparr>"

primrec rc_other_side :: "replica_side \<Rightarrow> replica_side" where
  "rc_other_side ReplicaA = ReplicaB"
| "rc_other_side ReplicaB = ReplicaA"

primrec rc_replica :: "replica_side \<Rightarrow> two_replica_cluster \<Rightarrow> lease_manager" where
  "rc_replica ReplicaA c = rc_replica_a c"
| "rc_replica ReplicaB c = rc_replica_b c"

primrec rc_set_replica :: "replica_side \<Rightarrow> lease_manager \<Rightarrow> two_replica_cluster \<Rightarrow> two_replica_cluster" where
  "rc_set_replica ReplicaA m c = c\<lparr>rc_replica_a := m\<rparr>"
| "rc_set_replica ReplicaB m c = c\<lparr>rc_replica_b := m\<rparr>"

definition rc_acquire ::
    "replica_side \<Rightarrow> u64 \<times> u64 \<Rightarrow> u64 \<times> u64 \<Rightarrow> job_id \<Rightarrow> u64 \<Rightarrow> two_replica_cluster \<Rightarrow>
      two_replica_cluster \<times> (replica_error + unit)" where
  "rc_acquire sd reads reads_other job runner c =
     (case lm_acquire (fst reads) (snd reads) job runner (rc_replica sd c) of
        (m, Inl e) \<Rightarrow> (rc_set_replica sd m c, Inl (replica_error_from e))
      | (m, Inr _) \<Rightarrow>
          let c1 = rc_set_replica sd m c;
              other = rc_other_side sd;
              c2 = (if \<not> rc_partitioned c1
                    then rc_set_replica other
                      (fst (lm_acquire (fst reads_other) (snd reads_other) job runner (rc_replica other c1))) c1
                    else c1)
          in (c2, Inr ()))"

definition rc_partition :: "replica_side \<Rightarrow> two_replica_cluster \<Rightarrow> two_replica_cluster" where
  "rc_partition majority c = c\<lparr>rc_partitioned := True, rc_majority := majority\<rparr>"

definition rc_heal :: "two_replica_cluster \<Rightarrow> two_replica_cluster" where
  "rc_heal c =
     (let c1 = (if rc_partitioned c
                then rc_set_replica (rc_other_side (rc_majority c)) (lm_new (rc_ttl_ns c)) c
                else c)
      in c1\<lparr>rc_partitioned := False\<rparr>)"

definition rc_side_has_active ::
    "u64 \<Rightarrow> replica_side \<Rightarrow> job_id \<Rightarrow> u64 \<Rightarrow> two_replica_cluster \<Rightarrow> two_replica_cluster \<times> bool" where
  "rc_side_has_active now sd job runner c =
     (case lm_active_lease_for now job runner (rc_replica sd c) of
        (m, r) \<Rightarrow> (rc_set_replica sd m c, r \<noteq> None))"

definition rc_global_active_count ::
    "u64 \<Rightarrow> u64 \<Rightarrow> job_id \<Rightarrow> u64 \<Rightarrow> two_replica_cluster \<Rightarrow> two_replica_cluster \<times> nat" where
  "rc_global_active_count now_a now_b job runner c =
     (case rc_side_has_active now_a ReplicaA job runner c of
        (c1, a) \<Rightarrow> (case rc_side_has_active now_b ReplicaB job runner c1 of
          (c2, b) \<Rightarrow> (c2, of_bool a + of_bool b)))"

definition rc_global_active_count_for_job ::
    "u64 \<Rightarrow> u64 \<Rightarrow> job_id \<Rightarrow> two_replica_cluster \<Rightarrow> two_replica_cluster \<times> nat" where
  "rc_global_active_count_for_job now_a now_b job c =
     (case lm_count_active_for_job now_a job (rc_replica_a c) of
        (ma, na) \<Rightarrow> (case lm_count_active_for_job now_b job (rc_replica_b c) of
          (mb, nb) \<Rightarrow> (c\<lparr>rc_replica_a := ma, rc_replica_b := mb\<rparr>, na + nb)))"

datatype replica_call =
    RAcquire replica_side u64 job_id u64
  | RSideHasActive u64 replica_side job_id u64

text \<open>The calls of a connected phase, each with the one reading a shared manual clock gives
  to all its clock reads.\<close>

primrec rc_step :: "replica_call \<Rightarrow> two_replica_cluster \<Rightarrow> two_replica_cluster" where
  "rc_step (RAcquire sd now job runner) c = fst (rc_acquire sd (now, now) (now, now) job runner c)"
| "rc_step (RSideHasActive now sd job runner) c = fst (rc_side_has_active now sd job runner c)"

primrec call_time :: "replica_call \<Rightarrow> u64" where
  "call_time (RAcquire sd now job runner) = now"
| "call_time (RSideHasActive now sd job runner) = now"

section \<open>Connected replicas stay in step\<close>

text \<open>In step from a time on: the two replicas hold the same pairs at every later reading.\<close>

definition in_step :: "u64 \<Rightarrow> two_replica_cluster \<Rightarrow> bool" where
  "in_step t c \<longleftrightarrow> (\<forall>now\<ge>t. sweep now (held (rc_replica_a c)) = sweep now (held (rc_replica_b c)))"

definition rc_inv :: "nat \<Rightarrow> two_replica_cluster \<Rightarrow> bool" where
  "rc_inv n c \<longleftrightarrow> \<not> rc_partitioned c \<and> lm_run_inv n (rc_replica_a c) \<and> lm_run_inv n (rc_replica_b c) \<and>
     lm_default_ttl_ns (rc_replica_a c) = lm_default_ttl_ns (rc_replica_b c)"

lemma sweep_sweep: "t \<le> now \<Longrightarrow> sweep now (sweep t h) = sweep now h"
  by (auto simp: sweep_def fun_eq_iff split: option.splits)

lemma rc_replica_set [simp]:
  "rc_replica sd (rc_set_replica sd m c) = m"
  "rc_replica (rc_other_side sd) (rc_set_replica sd m c) = rc_replica (rc_other_side sd) c"
  "rc_partitioned (rc_set_replica sd m c) = rc_partitioned c"
  by (cases sd; simp)+

lemma rc_both: "rc_replica_a c = rc_replica ReplicaA c" "rc_replica_b c = rc_replica ReplicaB c"
  by simp_all

lemma rc_sym:
  "rc_inv n c \<longleftrightarrow> \<not> rc_partitioned c \<and> lm_run_inv n (rc_replica sd c) \<and> lm_run_inv n (rc_replica (rc_other_side sd) c) \<and>
     lm_default_ttl_ns (rc_replica sd c) = lm_default_ttl_ns (rc_replica (rc_other_side sd) c)"
  "in_step t c \<longleftrightarrow> (\<forall>now\<ge>t. sweep now (held (rc_replica sd c)) = sweep now (held (rc_replica (rc_other_side sd) c)))"
  by (cases sd; auto simp: rc_inv_def in_step_def)+

text \<open>An acquire at one reading on both replicas is the same call on each; a refused one
  sweeps only the replica it was sent to.\<close>

lemma rc_step_acquire:
  assumes inv: "rc_inv n c" and n: "n < 2 ^ 64 - 2" and st: "in_step t c" and t: "t \<le> now"
  shows "rc_inv (Suc n) (rc_step (RAcquire sd now job runner) c) \<and> in_step now (rc_step (RAcquire sd now job runner) c)"
proof -
  let ?x = "rc_replica sd c" and ?y = "rc_replica (rc_other_side sd) c"
  let ?ax = "lm_acquire now now job runner ?x" and ?ay = "lm_acquire now now job runner ?y"
  have i: "lm_run_inv n ?x" "lm_run_inv n ?y" "lm_default_ttl_ns ?x = lm_default_ttl_ns ?y" "\<not> rc_partitioned c"
    and sw: "\<And>u. t \<le> u \<Longrightarrow> sweep u (held ?x) = sweep u (held ?y)"
    using inv st by (simp_all add: rc_sym [where sd = sd])
  then have ok: "lm_inv ?x" "lm_inv ?y" by (simp_all add: lm_run_inv_def)
  note same = lease_mgr.lockstep [OF ok sw [OF t] i(3), of now job runner]
  have ri: "lm_run_inv (Suc n) (fst ?ax)" "lm_run_inv (Suc n) (fst ?ay)"
    using lease_step_run_inv [OF i(1) n, of "LAcquire now now job runner"]
      lease_step_run_inv [OF i(2) n, of "LAcquire now now job runner"] by simp_all
  show ?thesis
  proof (cases "snd ?ax")
    case (Inl e)
    have "held (fst ?ax) = sweep now (held ?x)"
      using Inl lease_mgr.acq_refused [OF ok(1), of now now job runner] by (simp add: lease_mgr.acq_table [OF ok(1)])
    then have "\<forall>u\<ge>now. sweep u (held (fst ?ax)) = sweep u (held ?y)"
      using sw t by (auto simp: sweep_sweep)
    moreover have "rc_step (RAcquire sd now job runner) c = rc_set_replica sd (fst ?ax) c"
      using Inl by (cases ?ax) (simp add: rc_acquire_def)
    moreover have "lm_run_inv (Suc n) ?y" using i(2) by (simp add: lm_run_inv_def)
    ultimately show ?thesis using ri(1) i same(3) lease_mgr.acq_ttl [OF ok(2), of now now job runner]
      by (simp add: rc_sym [where sd = sd])
  next
    case (Inr lid)
    then have "rc_step (RAcquire sd now job runner) c = rc_set_replica (rc_other_side sd) (fst ?ay) (rc_set_replica sd (fst ?ax) c)"
      using i(4) by (cases ?ax) (simp add: rc_acquire_def Let_def)
    moreover have "rc_replica sd (rc_set_replica (rc_other_side sd) b d) = rc_replica sd d" for b d by (cases sd) simp_all
    ultimately show ?thesis using ri same i(4) by (simp add: rc_sym [where sd = sd])
  qed
qed

lemma rc_step_observe:
  assumes inv: "rc_inv n c" and st: "in_step t c" and t: "t \<le> now"
  shows "rc_inv (Suc n) (rc_step (RSideHasActive now sd job runner) c) \<and> in_step now (rc_step (RSideHasActive now sd job runner) c)"
proof -
  have i: "lm_inv (rc_replica sd c)" using inv by (simp add: rc_sym [where sd = sd] lm_run_inv_def)
  have "rc_step (RSideHasActive now sd job runner) c = rc_set_replica sd (lm_tick now (rc_replica sd c)) c"
    by (simp add: rc_side_has_active_def lm_active_lease_for_def Let_def)
  then show ?thesis using inv st t lm_tick_props [OF i, of now] held_tick [OF i, of now]
    by (auto simp: rc_sym [where sd = sd] lm_run_inv_def sweep_sweep)
qed

lemma rc_run_in_step:
  assumes "rc_inv n c" "in_step t c" "sorted (t # map call_time calls)" "n + length calls \<le> 2 ^ 64 - 2"
  shows "rc_inv (n + length calls) (fold rc_step calls c) \<and> in_step (last (t # map call_time calls)) (fold rc_step calls c)"
  using assms
proof (induction calls arbitrary: n t c)
  case (Cons k calls)
  have t: "t \<le> call_time k" and s: "sorted (call_time k # map call_time calls)" using Cons.prems(3) by simp_all
  have "rc_inv (Suc n) (rc_step k c) \<and> in_step (call_time k) (rc_step k c)"
    using rc_step_acquire [OF Cons.prems(1) _ Cons.prems(2)] rc_step_observe [OF Cons.prems(1,2)] t Cons.prems(4)
    by (cases k) simp_all
  then show ?case using Cons.IH [of "Suc n" "rc_step k c" "call_time k"] s Cons.prems(4) by simp
qed simp

lemma rc_new_in_step: "rc_inv 0 (rc_new ttl)" "in_step t (rc_new ttl)"
  by (simp_all add: rc_inv_def rc_new_def lm_run_inv_new in_step_def)

section \<open>Properties\<close>

text \<open>connected replicas never disagree: on a cluster that was never partitioned, after
  any acquires and reads on either side at non-decreasing clock readings, every pair is
  held by both replicas or by none, so the global active count is 0 or 2.\<close>

theorem replicas_agree_connected:
  assumes "sorted (0 # map call_time calls)" "length calls \<le> 2 ^ 64 - 2"
    and "last (0 # map call_time calls) \<le> now"
  shows "snd (rc_global_active_count now now job runner (fold rc_step calls (rc_new ttl))) \<in> {0, 2}"
proof -
  let ?c = "fold rc_step calls (rc_new ttl)"
  have r: "rc_inv (length calls) ?c" "in_step (last (0 # map call_time calls)) ?c"
    using rc_run_in_step [OF rc_new_in_step, of 0 calls ttl] assms by simp_all
  have i: "lm_inv (rc_replica_a ?c)" "lm_inv (rc_replica_b ?c)" using r(1) by (simp_all add: rc_inv_def lm_run_inv_def)
  have act: "lm_inv m \<Longrightarrow> hm_get (lm_active_by_pair (lm_tick now m)) (job, runner) \<noteq> None \<longleftrightarrow>
      sweep now (held m) (job, runner) \<noteq> None" for m
    using active_iff_held [OF lm_tick_props(1)] held_tick by (simp add: hm_contains_def)
  have "sweep now (held (rc_replica_a ?c)) = sweep now (held (rc_replica_b ?c))"
    using r(2) assms(3) by (simp add: in_step_def)
  then show ?thesis using act [OF i(1)] act [OF i(2)]
    by (simp add: rc_global_active_count_def rc_side_has_active_def lm_active_lease_for_def Let_def)
qed

theorem replicas_agree_connected_witness:
  "snd (rc_global_active_count 9 9 1 7 (fold rc_step [RAcquire ReplicaA 3 1 7, RAcquire ReplicaB 4 1 8,
     RSideHasActive 5 ReplicaB 1 7, RAcquire ReplicaB 6 1 7] (rc_new 10))) \<in> {0, 2}"
  by (rule replicas_agree_connected) simp_all

text \<open>heal discards the minority: healing a partitioned cluster replaces the minority
  replica by an empty one, keeps the majority replica, and reconnects; healing a connected
  cluster changes nothing.\<close>

theorem replica_heal:
  "rc_replica (rc_majority c) (rc_heal c) = rc_replica (rc_majority c) c \<and>
   rc_replica (rc_other_side (rc_majority c)) (rc_heal c) =
     (if rc_partitioned c then lm_new (rc_ttl_ns c) else rc_replica (rc_other_side (rc_majority c)) c) \<and>
   \<not> rc_partitioned (rc_heal c) \<and> (rc_partitioned c \<or> rc_heal c = c)"
  by (cases "rc_majority c") (auto simp: rc_heal_def Let_def)

text \<open>the replicas do not agree again after a heal: a lease granted on a connected
  cluster and untouched by a partition is held by the majority only once the partition is
  healed, so the connected cluster reports one active lease for the pair, and the
  other replica grants the same pair a second time.\<close>

theorem replica_heal_diverges:
  "let c = rc_heal (rc_partition ReplicaA (fst (rc_acquire ReplicaA (1, 1) (1, 1) 1 7 (rc_new 100)))) in
     \<not> rc_partitioned c \<and> snd (rc_global_active_count 2 2 1 7 c) = 1 \<and>
     snd (rc_acquire ReplicaA (2, 2) (2, 2) 1 7 c) = Inl RAlreadyLeased \<and>
     snd (rc_acquire ReplicaB (2, 2) (2, 2) 1 7 c) = Inr ()"
  by code_simp

end
