(* ===== verification/Text_Format.thy ===== *)
theory Text_Format
  imports Prelude
begin

text \<open>
  The parts of Rust's string library that the text files and log lines of the program
  rely on. A \<open>str\<close> is its sequence of UTF-8 bytes; \<open>trim\<close> and \<open>split_whitespace\<close>
  are modelled on the ASCII white space characters. The locale \<open>hex_reader\<close> is the
  interface of the program's hexadecimal parsers: each component has its own digit
  function, and the round trip with the common lower-case printer is proved once.
\<close>

unbundle bit_operations_syntax

section \<open>Lines and fields\<close>

definition ascii :: "string \<Rightarrow> bytes" where
  "ascii s = map of_char s"

definition is_space :: "u8 \<Rightarrow> bool" where
  "is_space b \<longleftrightarrow> b = 32 \<or> 9 \<le> b \<and> b \<le> 13"

definition is_ascii_space :: "u8 \<Rightarrow> bool" where
  "is_ascii_space b \<longleftrightarrow> b \<in> {9, 10, 12, 13, 32}"

definition trim :: "bytes \<Rightarrow> bytes" where
  "trim s = rev (dropWhile is_space (rev (dropWhile is_space s)))"

text \<open>\<open>lines()\<close>: split at line feeds, each with an optional carriage return before it; a
  final empty piece is no line.\<close>

fun lines :: "bytes \<Rightarrow> bytes \<Rightarrow> bytes list" where
  "lines cur [] = (if cur = [] then [] else [rev cur])"
| "lines cur (b # bs) =
     (if b = 10 then rev (case cur of c # cs \<Rightarrow> if c = 13 then cs else cur | [] \<Rightarrow> []) # lines [] bs
      else lines (b # cur) bs)"

text \<open>\<open>split_whitespace\<close> and its ASCII variant: the maximal non-empty runs of other bytes.\<close>

fun split_fields :: "(u8 \<Rightarrow> bool) \<Rightarrow> bytes \<Rightarrow> bytes \<Rightarrow> bytes list" where
  "split_fields sp cur [] = (if cur = [] then [] else [rev cur])"
| "split_fields sp cur (b # bs) =
     (if sp b then (if cur = [] then [] else [rev cur]) @ split_fields sp [] bs else split_fields sp (b # cur) bs)"

text \<open>The lines of a configuration file that are neither blank nor comments, with the
  number of the line, starting from one.\<close>

definition data_lines :: "bytes \<Rightarrow> (nat \<times> bytes) list" where
  "data_lines text =
     filter (\<lambda>(_, l). l \<noteq> [] \<and> hd l \<noteq> 35) (map (\<lambda>(n, l). (n + 1, trim l)) (List.enumerate 0 (lines [] text)))"

section \<open>Numbers\<close>

definition digit_value :: "u8 \<Rightarrow> nat option" where
  "digit_value b = (if 48 \<le> b \<and> b \<le> 57 then Some (unat (b - 48)) else None)"

fun dec_value :: "nat \<Rightarrow> bytes \<Rightarrow> nat option" where
  "dec_value acc [] = Some acc"
| "dec_value acc (b # bs) = (case digit_value b of None \<Rightarrow> None | Some d \<Rightarrow> dec_value (10 * acc + d) bs)"

definition parse_u64 :: "bytes \<Rightarrow> u64 option" where
  "parse_u64 s =
     (let ds = (case s of [] \<Rightarrow> [] | b # bs \<Rightarrow> if b = 43 then bs else s) in
      if ds = [] then None
      else case dec_value 0 ds of None \<Rightarrow> None | Some n \<Rightarrow> if n \<le> unat (- 1 :: u64) then Some (of_nat n) else None)"

fun dec_digits :: "nat \<Rightarrow> bytes" where
  "dec_digits n = (if n < 10 then [] else dec_digits (n div 10)) @ [48 + of_nat (n mod 10)]"

declare dec_digits.simps [simp del]

definition show_u64 :: "u64 \<Rightarrow> bytes" where
  "show_u64 n = dec_digits (unat n)"

section \<open>Hexadecimal\<close>

definition hex_char :: "u8 \<Rightarrow> u8" where
  "hex_char n = (if n \<le> 9 then 48 + n else 97 + n - 10)"

definition hex_encode :: "bytes \<Rightarrow> bytes" where
  "hex_encode bs = concat (map (\<lambda>b. [hex_char (drop_bit 4 b), hex_char (b AND 15)]) bs)"

fun hex_pairs :: "(u8 \<Rightarrow> u8 option) \<Rightarrow> bytes \<Rightarrow> bytes option" where
  "hex_pairs nib (h # l # s) =
     (case nib h of None \<Rightarrow> None | Some hi \<Rightarrow>
        (case nib l of None \<Rightarrow> None | Some lo \<Rightarrow>
           map_option (\<lambda>bs. (push_bit 4 hi OR lo) # bs) (hex_pairs nib s)))"
| "hex_pairs nib _ = Some []"

section \<open>Round trips\<close>

lemma digit_value_digit: "d < 10 \<Longrightarrow> digit_value (48 + of_nat d) = Some d"
proof -
  assume d: "d < 10"
  have "\<forall>d\<in>set [0..<10]. digit_value (48 + of_nat d) = Some d" by code_simp
  with d show ?thesis by simp
qed

lemma dec_value_append: "dec_value acc (xs @ ys) = (case dec_value acc xs of None \<Rightarrow> None | Some a \<Rightarrow> dec_value a ys)"
  by (induction acc xs rule: dec_value.induct) (auto split: option.splits)

lemma dec_value_digits: "dec_value 0 (dec_digits n) = Some n"
proof (induction n rule: dec_digits.induct)
  case (1 n)
  then show ?case by (subst dec_digits.simps) (auto simp: dec_value_append digit_value_digit)
qed

lemma dec_digits_range: "b \<in> set (dec_digits n) \<Longrightarrow> 48 \<le> b \<and> b \<le> 57"
proof (induction n rule: dec_digits.induct)
  case (1 n)
  have "\<forall>d\<in>set [0..<10]. 48 \<le> (48 + of_nat d :: u8) \<and> (48 + of_nat d :: u8) \<le> 57" by code_simp
  then have "48 \<le> (48 + of_nat (n mod 10) :: u8) \<and> (48 + of_nat (n mod 10) :: u8) \<le> 57" by simp
  with 1 show ?case by (subst (asm) dec_digits.simps) (auto split: if_splits)
qed

lemma dec_digits_not_Nil [simp]: "dec_digits n \<noteq> []"
  by (subst dec_digits.simps) simp

lemma parse_show_u64 [simp]: "parse_u64 (show_u64 n) = Some n"
proof -
  obtain b bs where ds: "dec_digits (unat n) = b # bs" by (cases "dec_digits (unat n)") simp_all
  have "b \<noteq> 43" using dec_digits_range [of b "unat n"] by (auto simp: ds)
  moreover have "unat n \<le> unat (- 1 :: u64)" by (simp flip: word_le_nat_alt)
  ultimately show ?thesis using dec_value_digits [of "unat n"]
    by (simp add: parse_u64_def show_u64_def ds Let_def)
qed

lemma u8_less_16:
  assumes "n < (16 :: u8)"
  shows "n \<in> set (map of_nat [0..<16])"
proof -
  have "unat n < 16" using assms by (simp add: word_less_nat_alt)
  moreover have "n = of_nat (unat n)" by simp
  ultimately show ?thesis by (metis atLeastLessThan_iff imageI le0 list.set_map set_upt)
qed

lemma byte_split: "push_bit 4 (drop_bit 4 b) OR (b AND 15) = b" for b :: u8
proof -
  have m: "(15 :: u8) = mask 4" by (simp add: mask_eq_exp_minus_1)
  show ?thesis unfolding m by (rule bit_word_eqI) (auto simp: bit_simps)
qed

lemma nibbles_small: "drop_bit 4 b < 16" "b AND 15 < 16" for b :: u8
proof -
  show "drop_bit 4 b < 16" using unat_lt_pow [of b] by (simp add: word_less_nat_alt drop_bit_eq_div unat_div)
  have m: "(15 :: u8) = mask 4" by (simp add: mask_eq_exp_minus_1)
  have "b AND 15 = b mod 16" unfolding m by (simp add: take_bit_eq_mod flip: take_bit_eq_mask)
  then show "b AND 15 < 16" by (simp add: word_less_nat_alt unat_mod)
qed

lemma nibble_join:
  assumes "hi < 16" "lo < (16 :: u8)"
  shows "drop_bit 4 (push_bit 4 hi OR lo) = hi" "(push_bit 4 hi OR lo) AND 15 = lo"
proof -
  have "\<forall>hi\<in>set (map of_nat [0..<16]). \<forall>lo\<in>set (map of_nat [0..<16]).
      drop_bit 4 (push_bit 4 hi OR lo :: u8) = hi \<and> (push_bit 4 hi OR lo) AND 15 = lo" by code_simp
  with assms [THEN u8_less_16] show "drop_bit 4 (push_bit 4 hi OR lo) = hi" "(push_bit 4 hi OR lo) AND 15 = lo"
    by blast+
qed

text \<open>A parser reads a digit function; it must know the sixteen lower-case digits.\<close>

locale hex_reader =
  fixes nib :: "u8 \<Rightarrow> u8 option"
  assumes nib_digit: "n < 16 \<Longrightarrow> nib (hex_char n) = Some n"
begin

lemma decode_encode: "hex_pairs nib (hex_encode bs) = Some bs"
proof (induction bs)
  case (Cons b bs)
  have "nib (hex_char (drop_bit 4 b)) = Some (drop_bit 4 b)" "nib (hex_char (b AND 15)) = Some (b AND 15)"
    by (rule nib_digit, rule nibbles_small)+
  then show ?case using Cons by (simp add: hex_encode_def byte_split)
qed (simp add: hex_encode_def)

end

text \<open>A strict parser knows no other digits: it accepts exactly what the printer writes.\<close>

locale strict_hex_reader = hex_reader +
  assumes nib_only: "nib c = Some n \<Longrightarrow> n < 16 \<and> c = hex_char n"
begin

lemma encode_decode:
  assumes "hex_pairs nib s = Some bs" "even (length s)"
  shows "hex_encode bs = s"
  using assms
proof (induction s arbitrary: bs rule: induct_list012)
  case (3 h l s)
  then obtain hi lo bs' where d: "nib h = Some hi" "nib l = Some lo" "hex_pairs nib s = Some bs'"
    "bs = (push_bit 4 hi OR lo) # bs'" by (auto split: option.splits)
  then have "hex_encode bs' = s" using 3 by simp
  then show ?case using nib_only [OF d(1)] nib_only [OF d(2)] nibble_join [of hi lo]
    by (simp add: d(4) hex_encode_def)
qed (simp_all add: hex_encode_def)

end

lemma hex_encode_length [simp]: "length (hex_encode bs) = 2 * length bs"
  by (induction bs) (simp_all add: hex_encode_def)

end
