(* ===== verification/Record_File.thy ===== *)
theory Record_File
  imports Text_Format
begin

text \<open>
  The line-oriented record files of the program (\<open>tenants.txt\<close>, \<open>enrollment.txt\<close>,
  \<open>admin_keys.txt\<close>): loading one record per data line, appending a line, and removing
  the lines of one id, as the loaders and the coordinator's admin operations do it. The
  file content is its byte sequence.
\<close>

section \<open>Operations\<close>

text \<open>A loader parses each data line with its number and stores the record; the first
  error ends it.\<close>

fun load_records :: "(nat \<Rightarrow> bytes \<Rightarrow> 'e + 'r) \<Rightarrow> ('r \<Rightarrow> 's \<Rightarrow> 'e + 's) \<Rightarrow> (nat \<times> bytes) list \<Rightarrow> 's \<Rightarrow> 'e + 's" where
  "load_records parse store [] s = Inr s"
| "load_records parse store ((n, l) # ls) s =
     (case parse n l of Inl e \<Rightarrow> Inl e
      | Inr r \<Rightarrow> (case store r s of Inl e \<Rightarrow> Inl e | Inr s' \<Rightarrow> load_records parse store ls s'))"

definition append_line :: "bytes \<Rightarrow> bytes \<Rightarrow> bytes" where
  "append_line line existing =
     (if existing \<noteq> [] \<and> last existing \<noteq> 10 then existing @ [10] else existing) @ line @ [10]"

definition first_word :: "bytes \<Rightarrow> bytes" where
  "first_word t = (case split_fields is_space [] t of [] \<Rightarrow> [] | w # _ \<Rightarrow> w)"

definition line_of_id :: "u64 \<Rightarrow> bytes \<Rightarrow> bool" where
  "line_of_id k line =
     (let trimmed = dropWhile is_space line in
      trimmed \<noteq> [] \<and> hd trimmed \<noteq> 35 \<and> parse_u64 (first_word trimmed) = Some k)"

definition remove_lines :: "u64 \<Rightarrow> bytes \<Rightarrow> bytes \<times> bool" where
  "remove_lines k original =
     fold (\<lambda>line (out, found). if line_of_id k line then (out, True) else (out @ line @ [10], found))
       (lines [] original) ([], False)"

section \<open>White space\<close>

lemma is_space_simps [simp]: "is_space 10" "is_space 13" "is_space 32" "is_ascii_space 32" "is_ascii_space 10"
  by (simp_all add: is_space_def is_ascii_space_def)

lemma dropWhile_all_space: "list_all is_space ys \<Longrightarrow> dropWhile is_space (xs @ ys) =
    (if list_all is_space xs then [] else dropWhile is_space xs @ ys)"
  by (induction xs) (auto simp: list_all_iff)

lemma trim_append_space: "list_all is_space ys \<Longrightarrow> trim (xs @ ys) = trim xs"
proof -
  assume ys: "list_all is_space ys"
  show ?thesis
  proof (cases "list_all is_space xs")
    case True
    then have "dropWhile is_space xs = []" "dropWhile is_space (xs @ ys) = []" using ys by (auto simp: list_all_iff)
    then show ?thesis by (simp only: trim_def)
  next
    case False
    have "dropWhile is_space (rev ys @ zs) = dropWhile is_space zs" for zs
      using ys by (intro dropWhile_append2) (auto simp: list_all_iff)
    then show ?thesis using False ys by (simp add: trim_def dropWhile_all_space)
  qed
qed

lemma trim_snoc_cr: "trim (xs @ [13]) = trim xs"
  by (rule trim_append_space) simp

lemma trim_id: "l \<noteq> [] \<Longrightarrow> \<not> is_space (hd l) \<Longrightarrow> \<not> is_space (last l) \<Longrightarrow> trim l = l"
proof -
  assume "l \<noteq> []" "\<not> is_space (hd l)" "\<not> is_space (last l)"
  then have "dropWhile is_space l = l" "dropWhile is_space (rev l) = rev l"
    by (cases l rule: list.exhaust, simp_all, cases l rule: rev_cases, simp_all)
  then show ?thesis by (simp add: trim_def)
qed

lemma trim_split: "\<exists>ys. dropWhile is_space l = trim l @ ys \<and> list_all is_space ys"
proof -
  let ?d = "dropWhile is_space l"
  have "?d = rev (takeWhile is_space (rev ?d) @ dropWhile is_space (rev ?d))" by simp
  then have "?d = trim l @ rev (takeWhile is_space (rev ?d))" unfolding rev_append by (simp add: trim_def)
  moreover have "list_all is_space (rev (takeWhile is_space (rev ?d)))" by (auto simp: list_all_iff dest: set_takeWhileD)
  ultimately show ?thesis by blast
qed

lemma hd_trim: "trim l \<noteq> [] \<Longrightarrow> \<not> is_space (hd (trim l))"
proof -
  assume ne: "trim l \<noteq> []"
  obtain ys where ys: "dropWhile is_space l = trim l @ ys" using trim_split by blast
  then have "hd (trim l) = hd (dropWhile is_space l)" using ne by simp
  then show ?thesis using ne ys hd_dropWhile [of is_space l] by simp
qed

section \<open>Fields\<close>

lemma fields_append_space: "list_all sp ys \<Longrightarrow> split_fields sp cur (xs @ ys) = split_fields sp cur xs"
proof (induction xs arbitrary: cur)
  case Nil
  have "split_fields sp [] ys = []" if "list_all sp ys" for ys
    using that by (induction ys) auto
  then show ?case using Nil by (cases ys) auto
qed auto

lemma fields_word_aux:
  "list_all (\<lambda>b. \<not> sp b) w \<Longrightarrow> split_fields sp cur (w @ s) = split_fields sp (rev w @ cur) s"
  by (induction w arbitrary: cur) auto

lemma fields_word_sep:
  "list_all (\<lambda>b. \<not> sp b) w \<Longrightarrow> w \<noteq> [] \<Longrightarrow> sp c \<Longrightarrow> split_fields sp [] (w @ c # s) = w # split_fields sp [] s"
  by (simp add: fields_word_aux)

lemma fields_word_end: "list_all (\<lambda>b. \<not> sp b) w \<Longrightarrow> w \<noteq> [] \<Longrightarrow> split_fields sp [] w = [w]"
  using fields_word_aux [of sp w "[]" "[]"] by simp

text \<open>The first field of a line with respect to one notion of space, and what follows.\<close>

lemma fields_first:
  "split_fields sp (rev cur) s = w # ws \<Longrightarrow> cur = [] \<longrightarrow> s \<noteq> [] \<and> \<not> sp (hd s) \<Longrightarrow>
   \<exists>v rest. w = cur @ v \<and> list_all (\<lambda>b. \<not> sp b) v \<and> s = v @ rest \<and> (rest = [] \<or> sp (hd rest))"
proof (induction s arbitrary: cur)
  case Nil
  then show ?case by (auto split: if_splits)
next
  case (Cons b s)
  show ?case
  proof (cases "sp b")
    case True
    then have "cur \<noteq> []" using Cons.prems(2) by auto
    then have "w = cur" using Cons.prems(1) True by simp
    then show ?thesis using True by (intro exI [of _ "[]"] exI [of _ "b # s"]) simp
  next
    case False
    then have "split_fields sp (rev (cur @ [b])) s = w # ws" using Cons.prems(1) by simp
    from Cons.IH [OF this] obtain v rest where
      "w = (cur @ [b]) @ v" "list_all (\<lambda>b. \<not> sp b) v" "s = v @ rest" "rest = [] \<or> sp (hd rest)" by auto
    then show ?thesis using False by (intro exI [of _ "b # v"] exI [of _ rest]) simp
  qed
qed

section \<open>Lines\<close>

definition strip_cr :: "bytes \<Rightarrow> bytes" where
  "strip_cr cur = (case cur of c # cs \<Rightarrow> if c = 13 then cs else cur | [] \<Rightarrow> [])"

lemma lines_append_newline: "lines cur (xs @ 10 # ys) = lines cur (xs @ [10]) @ lines [] ys"
  by (induction xs arbitrary: cur) simp_all

lemma lines_one: "10 \<notin> set xs \<Longrightarrow> lines cur (xs @ [10]) = [rev (strip_cr (rev xs @ cur))]"
  by (induction xs arbitrary: cur) (auto simp: strip_cr_def)

lemma lines_no_newline: "10 \<notin> set cur \<Longrightarrow> l \<in> set (lines cur xs) \<Longrightarrow> 10 \<notin> set l"
  by (induction cur xs rule: lines.induct) (auto split: if_splits list.splits)

lemma trim_strip_cr: "trim (rev (strip_cr xs)) = trim (rev xs)"
  by (auto simp: strip_cr_def trim_snoc_cr split: list.split)

lemma lines_end_newline:
  "cur \<noteq> [] \<or> xs \<noteq> [] \<Longrightarrow> (xs \<noteq> [] \<longrightarrow> last xs \<noteq> 10) \<Longrightarrow> map trim (lines cur (xs @ [10])) = map trim (lines cur xs)"
proof (induction xs arbitrary: cur)
  case Nil
  then show ?case using trim_strip_cr [of cur] by (auto simp: strip_cr_def)
next
  case (Cons x xs)
  then show ?case by (cases "xs = []") (auto simp: Cons.IH trim_snoc_cr)
qed

lemma trim_lines_append_line:
  assumes "10 \<notin> set line"
  shows "map trim (lines [] (append_line line text)) = map trim (lines [] text) @ [trim line]"
proof -
  let ?t = "if text \<noteq> [] \<and> last text \<noteq> 10 then text @ [10] else text"
  have t: "map trim (lines [] ?t) = map trim (lines [] text)" using lines_end_newline [of "[]" "text"] by simp
  have line: "map trim (lines [] (line @ [10])) = [trim line]"
    using lines_one [OF assms, of "[]"] trim_strip_cr [of "rev line"] by simp
  show ?thesis
  proof (cases "?t = []")
    case True
    then show ?thesis using line t by (auto simp: append_line_def split: if_splits)
  next
    case False
    then obtain xs where xs: "?t = xs @ [10]" by (metis append_butlast_last_id snoc_eq_iff_butlast)
    then have "lines [] (append_line line text) = lines [] ?t @ lines [] (line @ [10])"
      using lines_append_newline [of "[]" xs "line @ [10]"] by (simp add: append_line_def)
    then show ?thesis using t line by simp
  qed
qed

lemma trim_lines_unlines:
  "(\<And>l. l \<in> set ls \<Longrightarrow> 10 \<notin> set l) \<Longrightarrow> map trim (lines [] (concat (map (\<lambda>l. l @ [10]) ls))) = map trim ls"
proof (induction ls)
  case (Cons l ls)
  have "lines [] (l @ 10 # concat (map (\<lambda>l. l @ [10]) ls)) = lines [] (l @ [10]) @ lines [] (concat (map (\<lambda>l. l @ [10]) ls))"
    by (rule lines_append_newline)
  then show ?case using Cons lines_one [of l "[]"] trim_strip_cr [of "rev l"] by simp
qed simp

section \<open>Data lines\<close>

definition is_data :: "bytes \<Rightarrow> bool" where
  "is_data l \<longleftrightarrow> l \<noteq> [] \<and> hd l \<noteq> 35"

lemma data_lines_snd: "map snd (data_lines text) = filter is_data (map trim (lines [] text))"
proof -
  have "map snd (filter (\<lambda>(_, l). l \<noteq> [] \<and> hd l \<noteq> 35) (map (\<lambda>(n, l). (n + 1, trim l)) (List.enumerate k ls)))
      = filter is_data (map trim ls)" for k ls
    by (induction ls arbitrary: k) (auto simp: is_data_def)
  then show ?thesis by (simp add: data_lines_def)
qed

lemma remove_lines_eq:
  "remove_lines k text = (concat (map (\<lambda>l. l @ [10]) (filter (\<lambda>l. \<not> line_of_id k l) (lines [] text))),
     list_ex (line_of_id k) (lines [] text))"
proof -
  have "fold (\<lambda>line (out, found). if line_of_id k line then (out, True) else (out @ line @ [10], found)) ls (out, f)
    = (out @ concat (map (\<lambda>l. l @ [10]) (filter (\<lambda>l. \<not> line_of_id k l) ls)), f \<or> list_ex (line_of_id k) ls)" for ls out f
    by (induction ls arbitrary: out f) auto
  then show ?thesis by (simp add: remove_lines_def)
qed

lemma dropWhile_trim: "dropWhile is_space (trim l) = trim l"
  using hd_trim [of l] by (cases "trim l") auto

lemma line_of_id_trim: "line_of_id k (trim l) \<longleftrightarrow> line_of_id k l"
proof -
  obtain ys where ys: "dropWhile is_space l = trim l @ ys" "list_all is_space ys" using trim_split by blast
  have "split_fields is_space [] (dropWhile is_space l) = split_fields is_space [] (trim l)"
    using ys fields_append_space by metis
  then have w: "first_word (dropWhile is_space l) = first_word (trim l)" by (simp add: first_word_def)
  have "trim l = [] \<Longrightarrow> dropWhile is_space l = []"
    using ys hd_dropWhile [of is_space l] by (cases ys) auto
  then show ?thesis unfolding line_of_id_def Let_def dropWhile_trim w using ys by (cases "trim l") simp_all
qed

lemma data_lines_remove:
  "map snd (data_lines (fst (remove_lines k text))) = filter (\<lambda>l. \<not> line_of_id k l) (map snd (data_lines text))"
proof -
  let ?ls = "filter (\<lambda>l. \<not> line_of_id k l) (lines [] text)"
  have "map trim (lines [] (concat (map (\<lambda>l. l @ [10]) ?ls))) = map trim ?ls"
    by (rule trim_lines_unlines) (auto dest: lines_no_newline [of "[]", simplified])
  then show ?thesis unfolding data_lines_snd remove_lines_eq fst_conv
    by (simp add: filter_map comp_def line_of_id_trim conj_commute)
qed

lemma data_lines_append:
  "10 \<notin> set line \<Longrightarrow> is_data (trim line) \<Longrightarrow>
    map snd (data_lines (append_line line text)) = map snd (data_lines text) @ [trim line]"
  unfolding data_lines_snd by (simp add: trim_lines_append_line)

section \<open>The id of a line\<close>

lemma dec_value_digits_only: "dec_value acc bs = Some n \<Longrightarrow> b \<in> set bs \<Longrightarrow> 48 \<le> b \<and> b \<le> 57"
  by (induction acc bs rule: dec_value.induct) (auto simp: digit_value_def split: option.splits if_splits)

lemma parse_u64_no_space:
  assumes "parse_u64 w = Some n"
  shows "w \<noteq> []" "list_all (\<lambda>b. \<not> is_space b) w"
proof -
  have nsp: "48 \<le> b \<and> b \<le> 57 \<or> b = 43 \<Longrightarrow> \<not> is_space b" for b by (auto simp: is_space_def word_le_nat_alt)
  show ne: "w \<noteq> []" using assms by (auto simp: parse_u64_def)
  then obtain b bs where w: "w = b # bs" by (cases w) auto
  let ?ds = "if b = 43 then bs else w"
  have "dec_value 0 ?ds = Some (case dec_value 0 ?ds of Some m \<Rightarrow> m | None \<Rightarrow> 0)"
    using assms by (auto simp: parse_u64_def w Let_def split: option.splits if_splits)
  then have "\<forall>c\<in>set ?ds. 48 \<le> c \<and> c \<le> 57" using dec_value_digits_only by blast
  then have "\<forall>c\<in>set w. 48 \<le> c \<and> c \<le> 57 \<or> c = 43" by (auto simp: w split: if_splits)
  then show "list_all (\<lambda>b. \<not> is_space b) w" using nsp by (auto simp: list_all_iff)
qed

lemma first_field_word:
  assumes "split_fields is_ascii_space [] l = w # ws" "parse_u64 w = Some n" "l \<noteq> []" "\<not> is_space (hd l)"
  shows "first_word (dropWhile is_space l) = w"
proof -
  have sub: "is_ascii_space b \<Longrightarrow> is_space b" for b by (auto simp: is_space_def is_ascii_space_def)
  obtain rest where l: "l = w @ rest" "rest = [] \<or> is_ascii_space (hd rest)"
    using fields_first [of is_ascii_space "[]" l w ws] assms sub by auto
  note w = parse_u64_no_space [OF assms(2)]
  have "split_fields is_space [] l = w # split_fields is_space [] (tl rest)"
    using l sub fields_word_end [OF w(2) w(1)] fields_word_sep [OF w(2) w(1), of "hd rest" "tl rest"] by (cases rest) auto
  moreover have "dropWhile is_space l = l" using assms(3,4) by (cases l) auto
  ultimately show ?thesis by (simp add: first_word_def)
qed

text \<open>What the printers write contains no white space.\<close>

lemma ascii_space_is_space: "is_ascii_space b \<Longrightarrow> is_space b"
  by (auto simp: is_space_def is_ascii_space_def)

definition word_bytes :: "bytes \<Rightarrow> bool" where
  "word_bytes w \<longleftrightarrow> w \<noteq> [] \<and> list_all (\<lambda>b. \<not> is_space b) w"

lemma word_show_u64 [simp]: "word_bytes (show_u64 n)"
  using parse_u64_no_space [OF parse_show_u64] by (simp add: word_bytes_def)

lemma hex_char_not_space: "n < 16 \<Longrightarrow> \<not> is_space (hex_char n)"
proof -
  assume "n < 16"
  moreover have "\<forall>n\<in>set (map of_nat [0..<16]). \<not> is_space (hex_char n)" by code_simp
  ultimately show ?thesis using u8_less_16 by blast
qed

lemma word_hex_encode: "bs \<noteq> [] \<Longrightarrow> word_bytes (hex_encode bs)"
  by (cases bs) (auto simp: word_bytes_def hex_encode_def list_all_iff hex_char_not_space nibbles_small)

lemma word_bytesD: "word_bytes w \<Longrightarrow> w \<noteq> [] \<and> list_all (\<lambda>b. \<not> is_ascii_space b) w"
  using ascii_space_is_space by (auto simp: word_bytes_def list_all_iff)

lemma split_fields_word:
  "word_bytes w \<Longrightarrow> split_fields is_ascii_space [] (w @ 32 # s) = w # split_fields is_ascii_space [] s"
  "word_bytes w \<Longrightarrow> split_fields is_ascii_space [] w = [w]"
  using word_bytesD [of w] fields_word_sep [of is_ascii_space w 32 s] fields_word_end [of is_ascii_space w] by simp_all

text \<open>A line that starts and ends with a word, and has words and single spaces in between,
  is its own trimmed form.\<close>

lemma line_of_words:
  assumes "word_bytes v" "word_bytes w" "set mid \<inter> {10, 13} = {}"
  shows "trim (v @ mid @ w) = v @ mid @ w" "10 \<notin> set (v @ mid @ w)"
proof -
  show "trim (v @ mid @ w) = v @ mid @ w"
    using assms by (intro trim_id) (auto simp: word_bytes_def list_all_iff hd_append)
  have "10 \<notin> set v" "10 \<notin> set w" using assms(1,2) is_space_simps(1) by (auto simp: word_bytes_def list_all_iff)
  then show "10 \<notin> set (v @ mid @ w)" using assms(3) by auto
qed

lemma word_bytes_mid: "word_bytes w \<Longrightarrow> set w \<inter> {10, 13} = {}"
  using is_space_simps(1,2) by (auto simp: word_bytes_def list_all_iff)

section \<open>A keyed record file\<close>

text \<open>
  What the generic operations need of a record format: parsing does not depend on the line
  number except in its error, the id that the removal looks at is the key of the record,
  and storing a record either overwrites or refuses, depending only on whether its key is
  taken.
\<close>

locale record_file =
  fixes parse :: "nat \<Rightarrow> bytes \<Rightarrow> 'e + 'r"
    and key :: "'r \<Rightarrow> u64"
    and store :: "'r \<Rightarrow> (u64, 'r) hmap \<Rightarrow> 'e + (u64, 'r) hmap"
  assumes parse_lineno: "parse n l = Inr r \<Longrightarrow> parse n' l = Inr r"
    and parse_key: "parse n l = Inr r \<Longrightarrow> is_data l \<Longrightarrow> \<not> is_space (hd l) \<Longrightarrow> line_of_id k l \<longleftrightarrow> key r = k"
    and store_result: "store r m = Inr m' \<Longrightarrow> m' = hm_insert (key r) r m"
    and store_free: "hm_get m (key r) = None \<Longrightarrow> isl (store r m) = False"
    and store_taken: "hm_get m (key r) \<noteq> None \<Longrightarrow> hm_get m' (key r) \<noteq> None \<Longrightarrow> isl (store r m) = isl (store r m')"
begin

abbreviation load :: "bytes \<Rightarrow> 'e + (u64, 'r) hmap" where
  "load file \<equiv> load_records parse store (data_lines file) []"

lemma load_records_cong:
  "map snd ls = map snd ls' \<Longrightarrow> load_records parse store ls m = Inr m' \<Longrightarrow> load_records parse store ls' m = Inr m'"
proof (induction ls arbitrary: ls' m)
  case (Cons e ls)
  obtain n l where e: "e = (n, l)" by fastforce
  obtain n' ls'' where ls': "ls' = (n', l) # ls''" "map snd ls = map snd ls''" using Cons.prems(1) e by (cases ls') auto
  show ?case using Cons.prems(2) Cons.IH [OF ls'(2)] parse_lineno [of n l _ n']
    by (auto simp: e ls' split: sum.splits)
qed auto

lemma load_records_append:
  "load_records parse store (ls @ ls') m =
    (case load_records parse store ls m of Inl e \<Rightarrow> Inl e | Inr m' \<Rightarrow> load_records parse store ls' m')"
  by (induction ls arbitrary: m) (auto split: sum.splits)

lemma store_isl_cong: "(hm_get m (key r) = None \<longleftrightarrow> hm_get m' (key r) = None) \<Longrightarrow> isl (store r m) = isl (store r m')"
  using store_free [of m r] store_free [of m' r] store_taken [of m r m'] by auto

lemma load_append:
  assumes "load file = Inr m" "10 \<notin> set line" "is_data (trim line)" "parse n (trim line) = Inr r" "hm_get m (key r) = None"
  shows "load (append_line line file) = Inr (hm_insert (key r) r m)"
proof -
  have "store r m = Inr (hm_insert (key r) r m)"
    using store_free [OF assms(5)] store_result [of r m] by (cases "store r m") auto
  then have l: "load_records parse store (data_lines file @ [(n, trim line)]) [] = Inr (hm_insert (key r) r m)"
    using assms(1,4) by (simp add: load_records_append)
  show ?thesis by (rule load_records_cong [OF _ l]) (simp add: data_lines_append [OF assms(2,3)])
qed

lemma load_remove_aux:
  assumes "load_records parse store ls m = Inr res" "list_all (\<lambda>(n, l). is_data l \<and> \<not> is_space (hd l)) ls"
    "hm_get m' k = None" "\<forall>j. j \<noteq> k \<longrightarrow> hm_get m' j = hm_get m j"
  shows "\<exists>res'. load_records parse store (filter (\<lambda>(n, l). \<not> line_of_id k l) ls) m' = Inr res' \<and>
    hm_get res' k = None \<and> (\<forall>j. j \<noteq> k \<longrightarrow> hm_get res' j = hm_get res j) \<and>
    (hm_get res k \<noteq> None \<longleftrightarrow> hm_get m k \<noteq> None \<or> list_ex (\<lambda>(n, l). line_of_id k l) ls)"
  using assms
proof (induction ls arbitrary: m m')
  case (Cons e ls)
  obtain n l where e: "e = (n, l)" by fastforce
  obtain r m1 where r: "parse n l = Inr r" and m1: "store r m = Inr m1" and
    rest: "load_records parse store ls m1 = Inr res" using Cons.prems(1) by (auto simp: e split: sum.splits)
  have m1': "m1 = hm_insert (key r) r m" by (rule store_result [OF m1])
  have key: "line_of_id k l \<longleftrightarrow> key r = k" using parse_key [OF r] Cons.prems(2) by (simp add: e)
  have data: "list_all (\<lambda>(n, l). is_data l \<and> \<not> is_space (hd l)) ls" using Cons.prems(2) by simp
  show ?case
  proof (cases "key r = k")
    case True
    then have "\<forall>j. j \<noteq> k \<longrightarrow> hm_get m' j = hm_get m1 j" using Cons.prems(4) by (simp add: m1' hm_simps)
    from Cons.IH [OF rest data Cons.prems(3) this] show ?thesis using True key by (simp add: e m1' hm_simps)
  next
    case False
    then have "isl (store r m') = isl (store r m)" using Cons.prems(4) by (intro store_isl_cong) simp
    then obtain m2 where m2: "store r m' = Inr m2" using m1 by (cases "store r m'") auto
    have m2': "m2 = hm_insert (key r) r m'" by (rule store_result [OF m2])
    have "hm_get m2 k = None" "\<forall>j. j \<noteq> k \<longrightarrow> hm_get m2 j = hm_get m1 j"
      using Cons.prems(3,4) False by (simp_all add: m2' m1' hm_simps)
    from Cons.IH [OF rest data this] show ?thesis using False key r m2 by (simp add: e m1' hm_simps)
  qed
qed auto

lemma data_lines_trimmed: "list_all (\<lambda>(n, l). is_data l \<and> \<not> is_space (hd l)) (data_lines file)"
  using hd_trim by (auto simp: data_lines_def is_data_def list_all_iff)

lemma load_remove:
  assumes "load file = Inr m"
  shows "\<exists>m'. load (fst (remove_lines k file)) = Inr m' \<and> hm_get m' k = None \<and>
    (\<forall>j. j \<noteq> k \<longrightarrow> hm_get m' j = hm_get m j) \<and> (snd (remove_lines k file) \<longleftrightarrow> hm_get m k \<noteq> None)"
proof -
  let ?ls = "filter (\<lambda>(n, l). \<not> line_of_id k l) (data_lines file)"
  obtain m' where m': "load_records parse store ?ls [] = Inr m'" "hm_get m' k = None"
      "\<forall>j. j \<noteq> k \<longrightarrow> hm_get m' j = hm_get m j"
      "hm_get m k \<noteq> None \<longleftrightarrow> list_ex (\<lambda>(n, l). line_of_id k l) (data_lines file)"
    using load_remove_aux [OF assms data_lines_trimmed, of "[]" k] by auto
  have "map snd ?ls = map snd (data_lines (fst (remove_lines k file)))"
    unfolding data_lines_remove by (simp add: filter_map comp_def case_prod_unfold)
  then have "load (fst (remove_lines k file)) = Inr m'" using load_records_cong [OF _ m'(1)] by simp
  moreover have "snd (remove_lines k file) \<longleftrightarrow> list_ex (line_of_id k) (map snd (data_lines file))"
  proof -
    have "line_of_id k l \<Longrightarrow> is_data (trim l)" for l
      using line_of_id_trim [of k l] by (auto simp: line_of_id_def Let_def dropWhile_trim is_data_def)
    then show ?thesis unfolding data_lines_snd remove_lines_eq snd_conv
      by (auto simp: list_ex_iff line_of_id_trim)
  qed
  moreover have "list_ex (line_of_id k) (map snd (data_lines file)) \<longleftrightarrow> list_ex (\<lambda>(n, l). line_of_id k l) (data_lines file)"
    by (simp add: list_ex_iff case_prod_unfold)
  ultimately show ?thesis using m' by blast
qed

end

end
