(* ===== verification/Rate_Limit.thy ===== *)
theory Rate_Limit
  imports Prelude
begin

text \<open>
  The per-tenant token buckets (\<open>cosaci-state/src/rate_limit.rs\<close>). \<open>refill\<close> keeps the
  code's 128-bit intermediate product and its \<open>as u64\<close> truncation; the clock reading of
  an operation is the argument \<open>now\<close>.
\<close>

section \<open>State and operations\<close>

type_synonym tenant_id = u64

record token_bucket =
  tb_capacity :: u64
  tb_refill_per_sec :: u64
  tb_tokens :: u64
  tb_last_refill_ns :: u64

definition tb_new :: "u64 \<Rightarrow> u64 \<Rightarrow> u64 \<Rightarrow> token_bucket" where
  "tb_new capacity refill_per_sec now_ns =
     \<lparr>tb_capacity = capacity, tb_refill_per_sec = refill_per_sec, tb_tokens = capacity,
      tb_last_refill_ns = now_ns\<rparr>"

definition tb_new_tokens :: "u64 \<Rightarrow> u64 \<Rightarrow> u64" where
  "tb_new_tokens elapsed_ns refill_per_sec =
     ucast ((ucast elapsed_ns :: u128) * (ucast refill_per_sec :: u128) div 1000000000)"

definition tb_refill :: "u64 \<Rightarrow> token_bucket \<Rightarrow> token_bucket" where
  "tb_refill now_ns b =
     (let elapsed_ns = sat_sub now_ns (tb_last_refill_ns b);
          new_tokens = tb_new_tokens elapsed_ns (tb_refill_per_sec b)
      in b\<lparr>tb_tokens := min (sat_add (tb_tokens b) new_tokens) (tb_capacity b),
           tb_last_refill_ns := now_ns\<rparr>)"

definition tb_try_consume :: "u64 \<Rightarrow> u64 \<Rightarrow> token_bucket \<Rightarrow> token_bucket \<times> bool" where
  "tb_try_consume cost now_ns b0 =
     (let b = tb_refill now_ns b0 in
      if cost \<le> tb_tokens b then (b\<lparr>tb_tokens := tb_tokens b - cost\<rparr>, True) else (b, False))"

record rate_limiter =
  rl_buckets :: "(tenant_id, token_bucket) hmap"
  rl_default_capacity :: u64
  rl_default_refill_per_sec :: u64

definition rl_new :: "u64 \<Rightarrow> u64 \<Rightarrow> rate_limiter" where
  "rl_new capacity refill_per_sec =
     \<lparr>rl_buckets = [], rl_default_capacity = capacity, rl_default_refill_per_sec = refill_per_sec\<rparr>"

definition rl_accept_with_config ::
    "u64 \<Rightarrow> tenant_id \<Rightarrow> u64 \<Rightarrow> u64 \<Rightarrow> u64 \<Rightarrow> rate_limiter \<Rightarrow> rate_limiter \<times> bool" where
  "rl_accept_with_config now tenant cost capacity refill_per_sec rl =
     (let bucket = hm_get_or (tb_new capacity refill_per_sec now) (rl_buckets rl) tenant;
          (bucket', admitted) = tb_try_consume cost now bucket
      in (rl\<lparr>rl_buckets := hm_insert tenant bucket' (rl_buckets rl)\<rparr>, admitted))"

definition rl_accept :: "u64 \<Rightarrow> tenant_id \<Rightarrow> u64 \<Rightarrow> rate_limiter \<Rightarrow> rate_limiter \<times> bool" where
  "rl_accept now tenant cost rl =
     (let bucket = hm_get_or (tb_new (rl_default_capacity rl) (rl_default_refill_per_sec rl) now) (rl_buckets rl) tenant;
          (bucket', admitted) = tb_try_consume cost now bucket
      in (rl\<lparr>rl_buckets := hm_insert tenant bucket' (rl_buckets rl)\<rparr>, admitted))"

definition rl_tokens_of :: "u64 \<Rightarrow> tenant_id \<Rightarrow> rate_limiter \<Rightarrow> rate_limiter \<times> u64" where
  "rl_tokens_of now tenant rl =
     (case hm_get (rl_buckets rl) tenant of
        Some b \<Rightarrow> let b' = tb_refill now b in
          (rl\<lparr>rl_buckets := hm_insert tenant b' (rl_buckets rl)\<rparr>, tb_tokens b')
      | None \<Rightarrow> (rl, rl_default_capacity rl))"

datatype rl_call =
    RlAccept tenant_id u64 u64
  | RlAcceptCfg tenant_id u64 u64 u64 u64
  | RlTokensOf tenant_id u64

text \<open>Each call carries tenant, cost, the configuration where it has one, and the clock
  reading last; its answer tells whether tokens were spent.\<close>

primrec rl_step :: "rl_call \<Rightarrow> rate_limiter \<Rightarrow> rate_limiter \<times> bool" where
  "rl_step (RlAccept tenant cost now) rl = rl_accept now tenant cost rl"
| "rl_step (RlAcceptCfg tenant cost cap refill now) rl = rl_accept_with_config now tenant cost cap refill rl"
| "rl_step (RlTokensOf tenant now) rl = (fst (rl_tokens_of now tenant rl), True)"

primrec rl_call_tenant :: "rl_call \<Rightarrow> tenant_id" where
  "rl_call_tenant (RlAccept tenant cost now) = tenant"
| "rl_call_tenant (RlAcceptCfg tenant cost cap refill now) = tenant"
| "rl_call_tenant (RlTokensOf tenant now) = tenant"

primrec rl_call_cost :: "rl_call \<Rightarrow> u64" where
  "rl_call_cost (RlAccept tenant cost now) = cost"
| "rl_call_cost (RlAcceptCfg tenant cost cap refill now) = cost"
| "rl_call_cost (RlTokensOf tenant now) = 0"

primrec rl_call_time :: "rl_call \<Rightarrow> u64" where
  "rl_call_time (RlAccept tenant cost now) = now"
| "rl_call_time (RlAcceptCfg tenant cost cap refill now) = now"
| "rl_call_time (RlTokensOf tenant now) = now"

text \<open>The cost a tenant is granted over a sequence of calls.\<close>

fun rl_granted :: "tenant_id \<Rightarrow> rl_call list \<Rightarrow> rate_limiter \<Rightarrow> nat" where
  "rl_granted tenant [] rl = 0"
| "rl_granted tenant (c # cs) rl =
     (case rl_step c rl of (rl', admitted) \<Rightarrow>
        (if rl_call_tenant c = tenant \<and> admitted then unat (rl_call_cost c) else 0) + rl_granted tenant cs rl')"

section \<open>One bucket\<close>

lemma unat_tb_new_tokens: "unat (tb_new_tokens e r) \<le> unat e * unat r div 1000000000"
proof -
  have lt: "unat e < 2 ^ 64" "unat r < 2 ^ 64" using unat_lt_pow [of e] unat_lt_pow [of r] by simp_all
  then have "unat e * unat r < 2 ^ 64 * 2 ^ 64" by (intro mult_strict_mono') simp_all
  moreover have "unat (ucast e :: u128) = unat e" "unat (ucast r :: u128) = unat r"
    by (simp_all add: unsigned_ucast_eq take_bit_nat_eq_self_iff less_le_trans [OF lt(1)] less_le_trans [OF lt(2)])
  ultimately have "unat ((ucast e :: u128) * ucast r) = unat e * unat r"
    by (simp add: unat_word_ariths)
  then have "unat ((ucast e :: u128) * ucast r div 1000000000) = unat e * unat r div 1000000000"
    by (simp add: unat_div)
  then show ?thesis by (simp add: tb_new_tokens_def unsigned_ucast_eq)
qed

lemma unat_min: "unat (min a b) = min (unat a) (unat b)"
  by (simp add: min_def word_le_nat_alt)

definition tb_ok :: "token_bucket \<Rightarrow> bool" where
  "tb_ok b \<longleftrightarrow> tb_tokens b \<le> tb_capacity b"

lemma tb_refill_frame [simp]:
  "tb_capacity (tb_refill now b) = tb_capacity b" "tb_refill_per_sec (tb_refill now b) = tb_refill_per_sec b"
  "tb_last_refill_ns (tb_refill now b) = now"
  by (simp_all add: tb_refill_def Let_def)

lemma tb_try_consume_frame [simp]:
  "tb_capacity (fst (tb_try_consume cost now b)) = tb_capacity b"
  "tb_refill_per_sec (fst (tb_try_consume cost now b)) = tb_refill_per_sec b"
  "tb_last_refill_ns (fst (tb_try_consume cost now b)) = now"
  by (simp_all add: tb_try_consume_def Let_def)

lemma tb_ok_refill: "tb_ok (tb_refill now b)"
  by (simp add: tb_ok_def tb_refill_def Let_def)

lemma tb_ok_consume: "tb_ok (fst (tb_try_consume cost now b))"
  using tb_ok_refill [of now b] by (auto simp: tb_try_consume_def Let_def tb_ok_def word_nat unat_sub)

text \<open>What a refill may add, scaled by the nanoseconds in a second to stay in the integers.\<close>

lemma tb_refill_bound:
  assumes "tb_last_refill_ns b \<le> now"
  shows "1000000000 * unat (tb_tokens (tb_refill now b)) \<le>
    1000000000 * unat (tb_tokens b) + unat (tb_refill_per_sec b) * (unat now - unat (tb_last_refill_ns b))"
proof -
  let ?n = "tb_new_tokens (sat_sub now (tb_last_refill_ns b)) (tb_refill_per_sec b)"
  have "unat ?n \<le> (unat now - unat (tb_last_refill_ns b)) * unat (tb_refill_per_sec b) div 1000000000"
    using unat_tb_new_tokens [of "sat_sub now (tb_last_refill_ns b)" "tb_refill_per_sec b"] by (simp add: unat_sat_sub)
  then have "1000000000 * unat ?n \<le> 1000000000 * ((unat now - unat (tb_last_refill_ns b)) * unat (tb_refill_per_sec b) div 1000000000)"
    by (rule mult_le_mono2)
  also have "\<dots> \<le> (unat now - unat (tb_last_refill_ns b)) * unat (tb_refill_per_sec b)"
    by (rule times_div_less_eq_dividend)
  finally have "1000000000 * unat ?n \<le> (unat now - unat (tb_last_refill_ns b)) * unat (tb_refill_per_sec b)" .
  moreover have "unat (tb_tokens (tb_refill now b)) \<le> unat (tb_tokens b) + unat ?n"
    by (simp add: tb_refill_def Let_def unat_min unat_sat_add)
  ultimately show ?thesis by (simp add: mult.commute)
qed

lemma tb_consume_bound:
  assumes "tb_last_refill_ns b \<le> now"
  shows "1000000000 * (unat (tb_tokens (fst (tb_try_consume cost now b))) +
      (if snd (tb_try_consume cost now b) then unat cost else 0)) \<le>
    1000000000 * unat (tb_tokens b) + unat (tb_refill_per_sec b) * (unat now - unat (tb_last_refill_ns b))"
  using tb_refill_bound [OF assms] by (auto simp: tb_try_consume_def Let_def unat_sub word_le_nat_alt)

section \<open>Buckets of different tenants\<close>

definition rl_bucket :: "rl_call \<Rightarrow> rate_limiter \<Rightarrow> token_bucket option" where
  "rl_bucket c rl = (case hm_get (rl_buckets rl) (rl_call_tenant c) of
      Some b \<Rightarrow> Some b
    | None \<Rightarrow> (case c of
        RlAccept _ _ now \<Rightarrow> Some (tb_new (rl_default_capacity rl) (rl_default_refill_per_sec rl) now)
      | RlAcceptCfg _ _ cap refill now \<Rightarrow> Some (tb_new cap refill now)
      | RlTokensOf _ _ \<Rightarrow> None))"

lemma tb_consume_zero: "tb_try_consume 0 now b = (tb_refill now b, True)"
  by (simp add: tb_try_consume_def Let_def)

text \<open>Every call is a consume on the caller's own bucket, and leaves the others alone.\<close>

lemma rl_step_own:
  "rl_bucket c rl = Some b \<Longrightarrow>
    hm_get (rl_buckets (fst (rl_step c rl))) (rl_call_tenant c) =
      Some (fst (tb_try_consume (rl_call_cost c) (rl_call_time c) b)) \<and>
    snd (rl_step c rl) = snd (tb_try_consume (rl_call_cost c) (rl_call_time c) b)"
  by (cases c) (auto simp: rl_bucket_def rl_accept_def rl_accept_with_config_def rl_tokens_of_def hm_get_or_def
    hm_simps tb_consume_zero Let_def split: option.splits prod.splits)

lemma rl_step_other:
  "t \<noteq> rl_call_tenant c \<Longrightarrow> hm_get (rl_buckets (fst (rl_step c rl))) t = hm_get (rl_buckets rl) t"
  by (cases c) (auto simp: rl_accept_def rl_accept_with_config_def rl_tokens_of_def hm_simps Let_def
    split: option.splits prod.splits)

lemma rl_step_unseen:
  "rl_bucket c rl = None \<Longrightarrow> hm_get (rl_buckets (fst (rl_step c rl))) (rl_call_tenant c) = None \<and>
    rl_call_cost c = 0"
  by (cases c) (auto simp: rl_bucket_def rl_tokens_of_def split: option.splits)

definition rl_inv :: "rate_limiter \<Rightarrow> bool" where
  "rl_inv rl \<longleftrightarrow> hm_wf (rl_buckets rl) \<and> (\<forall>t b. hm_get (rl_buckets rl) t = Some b \<longrightarrow> tb_ok b)"

lemma rl_step_inv:
  assumes inv: "rl_inv rl"
  shows "rl_inv (fst (rl_step c rl))"
proof -
  have "hm_wf (rl_buckets (fst (rl_step c rl)))"
    using inv by (cases c) (auto simp: rl_inv_def rl_accept_def rl_accept_with_config_def rl_tokens_of_def Let_def
      split: option.splits prod.splits)
  moreover have "tb_ok b" if "hm_get (rl_buckets (fst (rl_step c rl))) t = Some b" for t b
  proof (cases "t = rl_call_tenant c")
    case True
    then show ?thesis using that rl_step_own [of c rl] rl_step_unseen [of c rl] tb_ok_consume
      by (cases "rl_bucket c rl") auto
  next
    case False
    then show ?thesis using that inv rl_step_other by (simp add: rl_inv_def)
  qed
  ultimately show ?thesis by (simp add: rl_inv_def)
qed

interpretation limiter: machine "\<lambda>c rl. fst (rl_step c rl)" rl_inv
  by unfold_locales (rule rl_step_inv)

lemma rl_granted_bound:
  assumes "hm_get (rl_buckets rl) t = Some b"
    "sorted (tb_last_refill_ns b # map rl_call_time cs)"
  shows "1000000000 * rl_granted t cs rl \<le> 1000000000 * unat (tb_tokens b) +
    unat (tb_refill_per_sec b) * (unat (last (tb_last_refill_ns b # map rl_call_time cs)) - unat (tb_last_refill_ns b))"
  using assms
proof (induction cs arbitrary: rl b)
  case (Cons c cs)
  let ?rl = "fst (rl_step c rl)" and ?now = "rl_call_time c"
  have le: "tb_last_refill_ns b \<le> ?now" and s: "sorted (?now # map rl_call_time cs)" using Cons.prems(2) by simp_all
  have le_last: "unat ?now \<le> unat (last (?now # map rl_call_time cs))"
    using sorted_le_last [OF s] by (simp only: word_le_nat_alt)
  show ?case
  proof (cases "rl_call_tenant c = t")
    case True
    then have own: "rl_bucket c rl = Some b" using Cons.prems(1) by (simp add: rl_bucket_def)
    let ?b = "fst (tb_try_consume (rl_call_cost c) ?now b)"
    have ih: "1000000000 * rl_granted t cs ?rl \<le> 1000000000 * unat (tb_tokens ?b) +
        unat (tb_refill_per_sec b) * (unat (last (?now # map rl_call_time cs)) - unat ?now)"
      using Cons.IH [of ?rl ?b] rl_step_own [OF own] True s by simp
    have split: "unat (tb_refill_per_sec b) * (unat (last (?now # map rl_call_time cs)) - unat ?now) +
        unat (tb_refill_per_sec b) * (unat ?now - unat (tb_last_refill_ns b)) =
        unat (tb_refill_per_sec b) * (unat (last (?now # map rl_call_time cs)) - unat (tb_last_refill_ns b))"
      using le le_last by (simp add: word_le_nat_alt flip: distrib_left)
    show ?thesis using ih split tb_consume_bound [OF le, of "rl_call_cost c"] rl_step_own [OF own] True
      by (simp add: case_prod_beta distrib_left)
  next
    case False
    have "hm_get (rl_buckets ?rl) t = Some b" using Cons.prems(1) False by (simp add: rl_step_other)
    moreover have "sorted (tb_last_refill_ns b # map rl_call_time cs)" using Cons.prems(2) by simp
    ultimately have ih: "1000000000 * rl_granted t cs ?rl \<le> 1000000000 * unat (tb_tokens b) +
        unat (tb_refill_per_sec b) * (unat (last (tb_last_refill_ns b # map rl_call_time cs)) - unat (tb_last_refill_ns b))"
      by (rule Cons.IH)
    have "unat (last (tb_last_refill_ns b # map rl_call_time cs)) \<le> unat (last (?now # map rl_call_time cs))"
      using le by (cases cs) (simp_all add: word_le_nat_alt)
    then show ?thesis using ih False le_trans [OF ih] by (simp add: case_prod_beta add_mono diff_le_mono mult_le_mono2 le_trans [OF ih])
  qed
qed simp

section \<open>Properties\<close>

text \<open>C15: the token bucket bound: from the first submission of a tenant on, the cost the
  limiter grants that tenant, over any sequence of calls by any tenants at non-decreasing
  clock readings, never exceeds the configured burst capacity plus the refill rate times
  the elapsed time (stated in billionths of a token).\<close>

theorem rate_limit_bound:
  assumes new: "hm_get (rl_buckets rl) t = None" and s: "sorted (now # map rl_call_time cs)"
  shows "1000000000 * rl_granted t (RlAcceptCfg t cost cap refill now # cs) rl \<le>
    1000000000 * unat cap + unat refill * (unat (last (now # map rl_call_time cs)) - unat now)"
proof -
  let ?c = "RlAcceptCfg t cost cap refill now"
  let ?b = "fst (tb_try_consume cost now (tb_new cap refill now))" and ?rl = "fst (rl_step ?c rl)"
  have own: "rl_bucket ?c rl = Some (tb_new cap refill now)" using new by (simp add: rl_bucket_def)
  have b: "hm_get (rl_buckets ?rl) t = Some ?b" using rl_step_own [OF own] by simp
  have first: "1000000000 * (unat (tb_tokens ?b) + (if snd (rl_step ?c rl) then unat cost else 0)) \<le> 1000000000 * unat cap"
    using tb_consume_bound [of "tb_new cap refill now" now cost] rl_step_own [OF own] by (simp add: tb_new_def)
  have rest: "1000000000 * rl_granted t cs ?rl \<le> 1000000000 * unat (tb_tokens ?b) +
      unat refill * (unat (last (now # map rl_call_time cs)) - unat now)"
    using rl_granted_bound [OF b] s by (simp add: tb_new_def)
  have sum: "rl_granted t (?c # cs) rl = (if snd (rl_step ?c rl) then unat cost else 0) + rl_granted t cs ?rl"
    by (simp add: case_prod_beta)
  have arith: "k * (y + g) \<le> k * c + z" if "k * (x + y) \<le> k * c" "k * g \<le> k * x + z" for k x y g c z :: nat
    using that by (simp add: distrib_left)
  show ?thesis unfolding sum by (rule arith [OF first rest])
qed

theorem rate_limit_bound_witness:
  "1000000000 * rl_granted 1 [RlAcceptCfg 1 1 2 10 0, RlAcceptCfg 1 1 2 10 5, RlAccept 9 1 6, RlAcceptCfg 1 1 2 10 100000000]
     (rl_new 5 5) \<le> 1000000000 * 2 + 10 * 100000000"
  using rate_limit_bound [of "rl_new 5 5" 1 0 "[RlAcceptCfg 1 1 2 10 5, RlAccept 9 1 6, RlAcceptCfg 1 1 2 10 100000000]" 1 2 10]
  by (simp add: rl_new_def del: rl_granted.simps)

text \<open>Clock readings of a client that calls again before a whole token has accrued.\<close>

fun polls :: "nat \<Rightarrow> u64 list \<Rightarrow> bool" where
  "polls r (x # y # ys) \<longleftrightarrow> (unat y - unat x) * r < 1000000000 \<and> polls r (y # ys)"
| "polls r _ \<longleftrightarrow> True"

lemma tb_new_tokens_zero: "unat e * unat r < 1000000000 \<Longrightarrow> tb_new_tokens e r = 0"
  using unat_tb_new_tokens [of e r] by (simp add: unat_eq_zero)

lemma tb_consume_starved:
  assumes "tb_tokens b = 0" "(unat now - unat (tb_last_refill_ns b)) * unat (tb_refill_per_sec b) < 1000000000"
  shows "tb_tokens (fst (tb_try_consume cost now b)) = 0 \<and> (snd (tb_try_consume cost now b) \<longrightarrow> cost = 0)"
proof -
  have z: "tb_new_tokens (sat_sub now (tb_last_refill_ns b)) (tb_refill_per_sec b) = 0"
    using assms(2) by (intro tb_new_tokens_zero) (simp add: unat_sat_sub)
  have "tb_tokens (tb_refill now b) = 0" by (simp add: tb_refill_def Let_def z assms(1) sat_add_def)
  then show ?thesis by (auto simp: tb_try_consume_def Let_def)
qed

text \<open>an eager client starves itself: a refill drops the fraction of a token that has
  accrued and still moves the refill time forward, so a tenant whose bucket is empty and
  who keeps calling at intervals in which less than one token accrues is never granted
  anything again, no matter how much time passes.\<close>

theorem rate_limit_starves_polling:
  assumes "hm_get (rl_buckets rl) t = Some b" "tb_tokens b = 0"
    "polls (unat (tb_refill_per_sec b)) (tb_last_refill_ns b # map rl_call_time cs)"
    "list_all (\<lambda>c. rl_call_tenant c = t) cs"
  shows "rl_granted t cs rl = 0"
  using assms
proof (induction cs arbitrary: rl b)
  case (Cons c cs)
  let ?b = "fst (tb_try_consume (rl_call_cost c) (rl_call_time c) b)"
  have own: "rl_bucket c rl = Some b" using Cons.prems by (simp add: rl_bucket_def)
  have st: "tb_tokens ?b = 0 \<and> (snd (rl_step c rl) \<longrightarrow> rl_call_cost c = 0)"
    using tb_consume_starved [of b "rl_call_time c" "rl_call_cost c"] Cons.prems rl_step_own [OF own] by simp
  have "rl_granted t cs (fst (rl_step c rl)) = 0"
    using Cons.IH [of "fst (rl_step c rl)" ?b] rl_step_own [OF own] st Cons.prems by simp
  then show ?case using st by (simp add: case_prod_beta)
qed simp

theorem rate_limit_starves_polling_witness:
  "rl_granted 1 [RlAccept 1 1 900000000, RlAccept 1 1 1800000000, RlAccept 1 1 2700000000, RlAccept 1 1 3600000000]
     (fst (rl_accept 0 1 1 (rl_new 1 1))) = 0"
proof -
  have b: "hm_get (rl_buckets (fst (rl_accept 0 1 1 (rl_new 1 1)))) 1 =
      Some \<lparr>tb_capacity = 1, tb_refill_per_sec = 1, tb_tokens = 0, tb_last_refill_ns = 0\<rparr>" by code_simp
  show ?thesis by (rule rate_limit_starves_polling [OF b]) simp_all
qed

end
