(* ===== verification/Crypto.thy ===== *)
theory Crypto
  imports Prelude
begin

text \<open>
  Byte encodings of machine integers, and the cryptographic libraries as a parameter.

  The hash and signature functions come from third-party crates (\<open>sha2\<close>,
  \<open>ed25519-dalek\<close>); the record \<open>crypto\<close> holds one function per library call, and every
  definition that uses them takes it as an argument. \<open>crypto_ok\<close> states what those
  crates document: digests of 32 bytes, and that a signature made with a seed verifies
  under its public key. \<open>cosaci-core/src/signing.rs\<close> is the wrapper modelled here.
\<close>

unbundle bit_operations_syntax

section \<open>Little-endian integers\<close>

primrec le_bytes :: "nat \<Rightarrow> 'a::len word \<Rightarrow> bytes" where
  "le_bytes 0 w = []"
| "le_bytes (Suc n) w = ucast w # le_bytes n (drop_bit 8 w)"

primrec from_le_bytes :: "bytes \<Rightarrow> 'a::len word" where
  "from_le_bytes [] = 0"
| "from_le_bytes (b # bs) = ucast b OR push_bit 8 (from_le_bytes bs)"

definition be_bytes :: "nat \<Rightarrow> 'a::len word \<Rightarrow> bytes" where
  "be_bytes n w = rev (le_bytes n w)"

definition from_be_bytes :: "bytes \<Rightarrow> 'a::len word" where
  "from_be_bytes bs = from_le_bytes (rev bs)"

lemma le_bytes_length [simp]: "length (le_bytes n w) = n"
  by (induction n arbitrary: w) simp_all

lemma from_le_bytes_take: "from_le_bytes (le_bytes n w) = take_bit (8 * n) w"
proof (induction n arbitrary: w)
  case (Suc n)
  have "ucast (ucast w :: u8) OR push_bit 8 (take_bit (8 * n) (drop_bit 8 w)) = take_bit (8 * Suc n) w"
    by (rule bit_word_eqI) (auto simp: bit_simps)
  then show ?case by (simp add: Suc.IH)
qed simp

lemma from_le_bytes_le_bytes [simp]:
  "8 * n = LENGTH('a) \<Longrightarrow> from_le_bytes (le_bytes n w) = w" for w :: "'a::len word"
  by (simp add: from_le_bytes_take take_bit_word_eq_self)

lemma from_be_bytes_be_bytes [simp]:
  "8 * n = LENGTH('a) \<Longrightarrow> from_be_bytes (be_bytes n w) = w" for w :: "'a::len word"
  by (simp add: from_be_bytes_def be_bytes_def)

lemma le_bytes_inj: "le_bytes n v = le_bytes n w \<Longrightarrow> 8 * n = LENGTH('a) \<Longrightarrow> v = w" for v w :: "'a::len word"
  by (metis from_le_bytes_le_bytes)

section \<open>The libraries\<close>

record crypto =
  cr_sha256 :: "bytes \<Rightarrow> bytes"
  cr_public_key :: "bytes \<Rightarrow> bytes"
  cr_sign :: "bytes \<Rightarrow> bytes \<Rightarrow> bytes"
  cr_key_valid :: "bytes \<Rightarrow> bool"
  cr_verify_strict :: "bytes \<Rightarrow> bytes \<Rightarrow> bytes \<Rightarrow> bool"

definition crypto_ok :: "crypto \<Rightarrow> bool" where
  "crypto_ok cr \<longleftrightarrow> (\<forall>x. length (cr_sha256 cr x) = 32) \<and>
     (\<forall>seed m. cr_key_valid cr (cr_public_key cr seed) \<and>
        cr_verify_strict cr (cr_public_key cr seed) m (cr_sign cr seed m))"

text \<open>A toy instance that satisfies the documented behaviour, for witnesses: the digest is
  the first 32 bytes of the input padded with zeros, and a signature is key and message.\<close>

definition toy_crypto :: crypto where
  "toy_crypto = \<lparr>cr_sha256 = (\<lambda>x. take 32 (x @ replicate 32 0)), cr_public_key = (\<lambda>s. s),
     cr_sign = (\<lambda>s m. s @ m), cr_key_valid = (\<lambda>k. True), cr_verify_strict = (\<lambda>k m s. s = k @ m)\<rparr>"

lemma toy_crypto_ok: "crypto_ok toy_crypto"
  by (auto simp: crypto_ok_def toy_crypto_def min_def)

section \<open>Signing\<close>

record keypair =
  kp_seed :: bytes

definition keypair_from_seed :: "bytes \<Rightarrow> keypair" where
  "keypair_from_seed seed = \<lparr>kp_seed = seed\<rparr>"

definition keypair_verifying_key :: "crypto \<Rightarrow> keypair \<Rightarrow> bytes" where
  "keypair_verifying_key cr kp = cr_public_key cr (kp_seed kp)"

definition keypair_sign :: "crypto \<Rightarrow> keypair \<Rightarrow> bytes \<Rightarrow> bytes" where
  "keypair_sign cr kp msg = cr_sign cr (kp_seed kp) msg"

definition verify :: "crypto \<Rightarrow> bytes \<Rightarrow> bytes \<Rightarrow> bytes \<Rightarrow> bool" where
  "verify cr pk msg sig = cr_verify_strict cr pk msg sig"

lemma verify_sign:
  "crypto_ok cr \<Longrightarrow> verify cr (keypair_verifying_key cr kp) msg (keypair_sign cr kp msg)"
  by (simp add: crypto_ok_def verify_def keypair_verifying_key_def keypair_sign_def)

lemma key_valid: "crypto_ok cr \<Longrightarrow> cr_key_valid cr (keypair_verifying_key cr kp)"
  by (simp add: crypto_ok_def keypair_verifying_key_def)

lemma sha256_length [simp]: "crypto_ok cr \<Longrightarrow> length (cr_sha256 cr x) = 32"
  by (simp add: crypto_ok_def)

end
