(* ===== verification/Tenant.thy ===== *)
theory Tenant
  imports Record_File Rate_Limit Crypto
begin

text \<open>
  The tenant registry and its file format (\<open>cosaci-state/src/tenant.rs\<close>). The loader is
  an instance of \<open>record_file\<close>, its hexadecimal parser of \<open>strict_hex_reader\<close>.
\<close>

section \<open>Data and operations\<close>

datatype io_error = InvalidData nat string | AlreadyExists | NotFound

record tenant_record =
  tn_tenant_id :: tenant_id
  tn_signing_fp :: bytes
  tn_rate_capacity :: u64
  tn_rate_refill_per_sec :: u64
  tn_registered_at_unix_ns :: u64

type_synonym tenant_registry = "(tenant_id, tenant_record) hmap"

definition tenant_new :: tenant_registry where
  "tenant_new = []"

definition tenant_insert :: "tenant_record \<Rightarrow> tenant_registry \<Rightarrow> io_error + tenant_registry" where
  "tenant_insert rec reg =
     (if hm_contains reg (tn_tenant_id rec) then Inl AlreadyExists
      else Inr (hm_insert (tn_tenant_id rec) rec reg))"

definition tenant_get :: "tenant_registry \<Rightarrow> tenant_id \<Rightarrow> tenant_record option" where
  "tenant_get reg t = hm_get reg t"

definition tenant_iter :: "tenant_registry \<Rightarrow> tenant_record list" where
  "tenant_iter reg = sort_key tn_tenant_id (map snd reg)"

definition tenant_fingerprint :: "crypto \<Rightarrow> bytes \<Rightarrow> bytes" where
  "tenant_fingerprint cr pubkey = cr_sha256 cr pubkey"

definition tenant_fingerprint_hex :: "bytes \<Rightarrow> bytes" where
  "tenant_fingerprint_hex fp = hex_encode fp"

definition tenant_hex_nibble :: "u8 \<Rightarrow> u8 option" where
  "tenant_hex_nibble b =
     (if 48 \<le> b \<and> b \<le> 57 then Some (b - 48)
      else if 97 \<le> b \<and> b \<le> 102 then Some (b - 97 + 10)
      else None)"

definition tenant_parse_hex32 :: "bytes \<Rightarrow> bytes option" where
  "tenant_parse_hex32 s = (if length s \<noteq> 64 then None else hex_pairs tenant_hex_nibble s)"

definition tenant_parse_fields :: "nat \<Rightarrow> bytes list \<Rightarrow> io_error + (bytes \<times> bytes \<times> bytes \<times> bytes \<times> bytes)" where
  "tenant_parse_fields lineno fs =
     (case fs of
        [] \<Rightarrow> Inl (InvalidData lineno ''missing field: tenant_id'')
      | [_] \<Rightarrow> Inl (InvalidData lineno ''missing field: signing_fp_hex'')
      | [_, _] \<Rightarrow> Inl (InvalidData lineno ''missing field: rate_capacity'')
      | [_, _, _] \<Rightarrow> Inl (InvalidData lineno ''missing field: rate_refill_per_sec'')
      | [_, _, _, _] \<Rightarrow> Inl (InvalidData lineno ''missing field: registered_at_unix_ns'')
      | [a, b, c, d, e] \<Rightarrow> Inr (a, b, c, d, e)
      | _ \<Rightarrow> Inl (InvalidData lineno ''trailing fields after registered_at_unix_ns''))"

definition tenant_parse_line :: "nat \<Rightarrow> bytes \<Rightarrow> io_error + tenant_record" where
  "tenant_parse_line lineno line =
     (case tenant_parse_fields lineno (split_fields is_ascii_space [] line) of
        Inl e \<Rightarrow> Inl e
      | Inr (id_s, fp_s, cap_s, refill_s, registered_s) \<Rightarrow>
          (case parse_u64 id_s of None \<Rightarrow> Inl (InvalidData lineno ''tenant_id not a u64'')
           | Some t \<Rightarrow> (case tenant_parse_hex32 fp_s of
               None \<Rightarrow> Inl (InvalidData lineno ''signing_fp_hex not 64 lowercase-hex chars'')
             | Some fp \<Rightarrow> (case parse_u64 cap_s of None \<Rightarrow> Inl (InvalidData lineno ''rate_capacity not a u64'')
               | Some cap \<Rightarrow> (case parse_u64 refill_s of
                   None \<Rightarrow> Inl (InvalidData lineno ''rate_refill_per_sec not a u64'')
                 | Some refill \<Rightarrow> (case parse_u64 registered_s of
                     None \<Rightarrow> Inl (InvalidData lineno ''registered_at_unix_ns not a u64'')
                   | Some reg_at \<Rightarrow>
                       Inr \<lparr>tn_tenant_id = t, tn_signing_fp = fp, tn_rate_capacity = cap,
                         tn_rate_refill_per_sec = refill, tn_registered_at_unix_ns = reg_at\<rparr>))))))"

text \<open>The content of the file, or \<open>None\<close> when there is none.\<close>

definition tenant_load :: "bytes option \<Rightarrow> io_error + tenant_registry" where
  "tenant_load content =
     (case content of None \<Rightarrow> Inl NotFound
      | Some text \<Rightarrow> load_records tenant_parse_line tenant_insert (data_lines text) tenant_new)"

section \<open>The digit function and the record format\<close>

interpretation tenant_hex: strict_hex_reader tenant_hex_nibble
proof unfold_locales
  fix n :: u8
  assume "n < 16"
  moreover have "\<forall>n\<in>set (map of_nat [0..<16]). tenant_hex_nibble (hex_char n) = Some n" by code_simp
  ultimately show "tenant_hex_nibble (hex_char n) = Some n" using u8_less_16 by blast
next
  fix c n
  assume a: "tenant_hex_nibble c = Some n"
  have "\<forall>k\<in>set [0..<256]. case tenant_hex_nibble (of_nat k) of None \<Rightarrow> True
      | Some n \<Rightarrow> n < 16 \<and> of_nat k = hex_char n" by code_simp
  moreover have "unat c \<in> set [0..<256]" using unat_lt_pow [of c] by simp
  ultimately have "case tenant_hex_nibble (of_nat (unat c)) of None \<Rightarrow> True | Some n \<Rightarrow> n < 16 \<and> of_nat (unat c) = hex_char n"
    by (rule bspec)
  then show "n < 16 \<and> c = hex_char n" by (simp add: a)
qed

lemma tenant_parse_lineE:
  assumes "tenant_parse_line n l = Inr r"
  obtains a b c d e where "split_fields is_ascii_space [] l = [a, b, c, d, e]" "parse_u64 a = Some (tn_tenant_id r)"
    "tenant_parse_hex32 b = Some (tn_signing_fp r)" "parse_u64 c = Some (tn_rate_capacity r)"
    "parse_u64 d = Some (tn_rate_refill_per_sec r)" "parse_u64 e = Some (tn_registered_at_unix_ns r)"
  using assms by (auto simp: tenant_parse_line_def tenant_parse_fields_def split: list.splits option.splits sum.splits)

lemma tenant_parse_line_ok:
  assumes "split_fields is_ascii_space [] l = [a, b, c, d, e]" "parse_u64 a = Some (tn_tenant_id r)"
    "tenant_parse_hex32 b = Some (tn_signing_fp r)" "parse_u64 c = Some (tn_rate_capacity r)"
    "parse_u64 d = Some (tn_rate_refill_per_sec r)" "parse_u64 e = Some (tn_registered_at_unix_ns r)"
  shows "tenant_parse_line n l = Inr r"
  using assms by (simp add: tenant_parse_line_def tenant_parse_fields_def)

interpretation tenants: record_file tenant_parse_line tn_tenant_id tenant_insert
proof unfold_locales
  fix n n' l r
  assume "tenant_parse_line n l = Inr r"
  then show "tenant_parse_line n' l = Inr r" by (elim tenant_parse_lineE) (rule tenant_parse_line_ok)
next
  fix n l r k
  assume p: "tenant_parse_line n l = Inr r" and l: "is_data l" "\<not> is_space (hd l)"
  then have "first_word (dropWhile is_space l) = hd (split_fields is_ascii_space [] l)"
      "parse_u64 (hd (split_fields is_ascii_space [] l)) = Some (tn_tenant_id r)"
    using first_field_word [of l] by (auto elim!: tenant_parse_lineE simp: is_data_def)
  moreover have "dropWhile is_space l = l" using l by (cases l) (auto simp: is_data_def)
  ultimately show "line_of_id k l \<longleftrightarrow> tn_tenant_id r = k" using l by (simp add: line_of_id_def Let_def is_data_def)
qed (auto simp: tenant_insert_def hm_contains_def split: if_splits)

section \<open>The line of a record\<close>

definition tenant_line :: "tenant_record \<Rightarrow> bytes" where
  "tenant_line r = show_u64 (tn_tenant_id r) @ [32] @ tenant_fingerprint_hex (tn_signing_fp r) @ [32] @
     show_u64 (tn_rate_capacity r) @ [32] @ show_u64 (tn_rate_refill_per_sec r) @ [32] @
     show_u64 (tn_registered_at_unix_ns r)"

lemma tenant_parse_hex32_encode: "length fp = 32 \<Longrightarrow> tenant_parse_hex32 (tenant_fingerprint_hex fp) = Some fp"
  by (simp add: tenant_parse_hex32_def tenant_fingerprint_hex_def tenant_hex.decode_encode)

lemma tenant_fp_word: "length fp = 32 \<Longrightarrow> word_bytes (tenant_fingerprint_hex fp)"
  by (auto simp: tenant_fingerprint_hex_def intro: word_hex_encode)

lemma tenant_parse_tenant_line:
  assumes "length (tn_signing_fp r) = 32"
  shows "tenant_parse_line n (tenant_line r) = Inr r"
  by (rule tenant_parse_line_ok [of _ "show_u64 (tn_tenant_id r)" "tenant_fingerprint_hex (tn_signing_fp r)"
      "show_u64 (tn_rate_capacity r)" "show_u64 (tn_rate_refill_per_sec r)" "show_u64 (tn_registered_at_unix_ns r)"])
    (simp_all add: tenant_line_def split_fields_word tenant_fp_word tenant_parse_hex32_encode assms)

lemma tenant_line_trim:
  assumes "length (tn_signing_fp r) = 32"
  shows "trim (tenant_line r) = tenant_line r" "10 \<notin> set (tenant_line r)" "is_data (tenant_line r)"
proof -
  let ?mid = "[32] @ tenant_fingerprint_hex (tn_signing_fp r) @ [32] @ show_u64 (tn_rate_capacity r) @ [32] @
     show_u64 (tn_rate_refill_per_sec r) @ [32]"
  have l: "tenant_line r = show_u64 (tn_tenant_id r) @ ?mid @ show_u64 (tn_registered_at_unix_ns r)"
    by (simp add: tenant_line_def)
  have mid: "set ?mid \<inter> {10, 13} = {}"
    using word_bytes_mid [OF tenant_fp_word [OF assms]] word_bytes_mid [OF word_show_u64] by auto
  show "trim (tenant_line r) = tenant_line r" unfolding l by (rule line_of_words(1) [OF word_show_u64 word_show_u64 mid])
  show "10 \<notin> set (tenant_line r)" unfolding l by (rule line_of_words(2) [OF word_show_u64 word_show_u64 mid])
  have "hd (show_u64 n) \<noteq> 35" for n
    using dec_digits_range [of "hd (show_u64 n)" "unat n"] by (auto simp: show_u64_def)
  then show "is_data (tenant_line r)" using word_show_u64 [of "tn_tenant_id r"]
    by (simp add: is_data_def l hd_append word_bytes_def)
qed

section \<open>Properties\<close>

text \<open>the fingerprint parser accepts exactly what the printer writes: a text is read
  as a fingerprint if and only if it is the 64-digit lower-case rendering of that 32-byte
  fingerprint, so every fingerprint has one spelling.\<close>

theorem tenant_hex_exact: "tenant_parse_hex32 s = Some fp \<longleftrightarrow> length fp = 32 \<and> s = tenant_fingerprint_hex fp"
proof
  assume p: "tenant_parse_hex32 s = Some fp"
  then have s: "length s = 64" "hex_pairs tenant_hex_nibble s = Some fp"
    by (simp_all add: tenant_parse_hex32_def split: if_splits)
  then have "hex_encode fp = s" using tenant_hex.encode_decode by simp
  then show "length fp = 32 \<and> s = tenant_fingerprint_hex fp" using s(1) hex_encode_length [of fp]
    by (simp add: tenant_fingerprint_hex_def)
qed (simp add: tenant_parse_hex32_encode)

end
