(* ===== verification/Replay.thy ===== *)
theory Replay
  imports Prelude
begin

text \<open>
  The replay guard (\<open>cosaci-state/src/replay.rs\<close>): a map from accepted nonces to the
  clock reading of their acceptance, swept at the start of every operation. The clock
  readings are arguments: \<open>now\<close> is what the sweep reads, \<open>now'\<close> what \<open>accept\<close> reads
  after it.
\<close>

section \<open>State and operations\<close>

datatype accept_error = StaleTimestamp | Replayed

record replay_guard =
  rg_ttl_ns :: u64
  rg_accepted :: "(u64, u64) hmap"

definition rg_new :: "u64 \<Rightarrow> replay_guard" where
  "rg_new ttl_ns = \<lparr>rg_ttl_ns = ttl_ns, rg_accepted = []\<rparr>"

definition rg_sweep :: "u64 \<Rightarrow> replay_guard \<Rightarrow> replay_guard" where
  "rg_sweep now g = g\<lparr>rg_accepted :=
     hm_retain (\<lambda>_ accepted_at. sat_sub now accepted_at < rg_ttl_ns g) (rg_accepted g)\<rparr>"

definition rg_accept :: "u64 \<Rightarrow> u64 \<Rightarrow> u64 \<Rightarrow> u64 \<Rightarrow> replay_guard \<Rightarrow> replay_guard \<times> (accept_error + unit)" where
  "rg_accept now now' nonce timestamp_ns g0 =
     (let g = rg_sweep now g0; age = abs_diff now' timestamp_ns in
      if rg_ttl_ns g < age then (g, Inl StaleTimestamp)
      else if hm_contains (rg_accepted g) nonce then (g, Inl Replayed)
      else (g\<lparr>rg_accepted := hm_insert nonce now' (rg_accepted g)\<rparr>, Inr ()))"

definition rg_is_known :: "u64 \<Rightarrow> u64 \<Rightarrow> replay_guard \<Rightarrow> replay_guard \<times> bool" where
  "rg_is_known now nonce g0 = (let g = rg_sweep now g0 in (g, hm_contains (rg_accepted g) nonce))"

definition rg_count :: "u64 \<Rightarrow> replay_guard \<Rightarrow> replay_guard \<times> nat" where
  "rg_count now g0 = (let g = rg_sweep now g0 in (g, length (rg_accepted g)))"

datatype replay_call = Accept u64 u64 u64 u64 | Lookup u64

primrec replay_step :: "replay_call \<Rightarrow> replay_guard \<Rightarrow> replay_guard" where
  "replay_step (Accept now now' nonce ts) g = fst (rg_accept now now' nonce ts g)"
| "replay_step (Lookup now) g = rg_sweep now g"

primrec replay_time :: "replay_call \<Rightarrow> u64" where
  "replay_time (Accept now now' nonce ts) = now"
| "replay_time (Lookup now) = now"

section \<open>The window\<close>

definition rg_inv :: "replay_guard \<Rightarrow> bool" where
  "rg_inv g \<longleftrightarrow> hm_wf (rg_accepted g)"

lemma replay_step_inv: "rg_inv g \<Longrightarrow> rg_inv (replay_step c g)"
  by (cases c) (simp_all add: rg_inv_def rg_accept_def rg_sweep_def Let_def)

interpretation replay: machine replay_step rg_inv
  by unfold_locales (rule replay_step_inv)

lemma rg_inv_new [simp]: "rg_inv (rg_new ttl)"
  by (simp add: rg_inv_def rg_new_def)

lemma rg_ttl_frame [simp]:
  "rg_ttl_ns (rg_sweep now g) = rg_ttl_ns g"
  "rg_ttl_ns (fst (rg_accept now now' nonce ts g)) = rg_ttl_ns g"
  "rg_ttl_ns (replay_step c g) = rg_ttl_ns g"
  by (simp add: rg_sweep_def) (cases c; simp add: rg_sweep_def rg_accept_def Let_def)+

text \<open>A reading is inside the window of an acceptance while less than the time to live
  has passed.\<close>

definition in_window :: "u64 \<Rightarrow> u64 \<Rightarrow> u64 \<Rightarrow> bool" where
  "in_window ttl accepted_at now \<longleftrightarrow> unat now < unat accepted_at + unat ttl"

lemma in_window_iff: "sat_sub now a < ttl \<longleftrightarrow> in_window ttl a now \<and> 0 < unat ttl"
  by (auto simp: word_nat in_window_def)

lemma rg_sweep_keeps:
  assumes "rg_inv g" "hm_get (rg_accepted g) nonce = Some a" "in_window (rg_ttl_ns g) a now" "rg_ttl_ns g \<noteq> 0"
  shows "hm_get (rg_accepted (rg_sweep now g)) nonce = Some a"
  using assms by (simp add: rg_sweep_def rg_inv_def hm_get_retain in_window_iff unat_gt_0)

lemma replay_step_keeps:
  assumes "rg_inv g" "hm_get (rg_accepted g) nonce = Some a" "in_window (rg_ttl_ns g) a (replay_time c)"
    "rg_ttl_ns g \<noteq> 0"
  shows "hm_get (rg_accepted (replay_step c g)) nonce = Some a"
  using assms rg_sweep_keeps [OF assms(1,2) _ assms(4), of "replay_time c"]
  by (cases c) (auto simp: rg_accept_def Let_def hm_contains_def hm_simps)

lemma replay_run_keeps:
  assumes "rg_inv g" "hm_get (rg_accepted g) nonce = Some a" "rg_ttl_ns g \<noteq> 0"
    "\<And>c. c \<in> set cs \<Longrightarrow> in_window (rg_ttl_ns g) a (replay_time c)"
  shows "hm_get (rg_accepted (fold replay_step cs g)) nonce = Some a \<and> rg_ttl_ns (fold replay_step cs g) = rg_ttl_ns g"
  using assms
proof (induction cs arbitrary: g)
  case (Cons c cs)
  have "hm_get (rg_accepted (replay_step c g)) nonce = Some a"
    using Cons.prems by (intro replay_step_keeps) simp_all
  then show ?case using Cons.IH [of "replay_step c g"] Cons.prems replay_step_inv by simp
qed simp

lemma rg_accept_known:
  assumes "rg_inv g" "hm_get (rg_accepted g) nonce = Some a" "in_window (rg_ttl_ns g) a now" "rg_ttl_ns g \<noteq> 0"
  shows "isl (snd (rg_accept now now' nonce ts g))"
  using rg_sweep_keeps [OF assms] by (simp add: rg_accept_def Let_def hm_contains_def)

lemma rg_accept_records:
  assumes "snd (rg_accept now now' nonce ts g) = Inr ()"
  shows "hm_get (rg_accepted (fst (rg_accept now now' nonce ts g))) nonce = Some now'"
  using assms by (auto simp: rg_accept_def Let_def hm_simps split: if_splits)

section \<open>Properties\<close>

text \<open>C14: no nonce is accepted twice inside its window: once a guard with a non-zero time
  to live has accepted a nonce, every further attempt with that nonce is refused, whatever
  timestamp it carries and whatever other calls come in between, as long as less than the
  time to live has passed at each sweep.\<close>

theorem replay_window_unique:
  assumes "snd (rg_accept now now' nonce ts (fold replay_step earlier (rg_new ttl))) = Inr ()" "ttl \<noteq> 0"
    and "\<And>c. c \<in> set between \<Longrightarrow> in_window ttl now' (replay_time c)"
    and "in_window ttl now' later"
  shows "isl (snd (rg_accept later later' nonce ts'
    (fold replay_step between (fst (rg_accept now now' nonce ts (fold replay_step earlier (rg_new ttl)))))))"
proof -
  let ?g = "fold replay_step earlier (rg_new ttl)"
  let ?h = "fst (rg_accept now now' nonce ts ?g)"
  have g: "rg_inv ?g" "rg_ttl_ns ?g = ttl"
    using replay.run_inv [OF rg_inv_new] by (simp, induction earlier rule: rev_induct) (simp_all add: rg_new_def)
  have h: "rg_inv ?h" using replay_step_inv [OF g(1), of "Accept now now' nonce ts"] by simp
  have "hm_get (rg_accepted (fold replay_step between ?h)) nonce = Some now' \<and> rg_ttl_ns (fold replay_step between ?h) = ttl"
    using replay_run_keeps [OF h rg_accept_records [OF assms(1)], of between] assms(2,3) g(2) by simp
  then show ?thesis using assms(2,4) replay.run_inv [OF h] by (intro rg_accept_known) simp_all
qed

theorem replay_window_unique_witness:
  "isl (snd (rg_accept 104 104 7 104 (fold replay_step [Accept 101 101 8 100, Lookup 103]
     (fst (rg_accept 100 100 7 98 (fold replay_step [] (rg_new 5)))))))"
proof -
  have a: "snd (rg_accept 100 100 7 98 (fold replay_step [] (rg_new 5))) = Inr ()" by code_simp
  show ?thesis by (rule replay_window_unique [OF a]) (auto simp: in_window_def)
qed

text \<open>the window is half open while the freshness check is closed: with a time to
  live of 5, a message stamped 105 is accepted at time 100, again at 105 and again at 110,
  because a nonce is forgotten exactly when the time to live has passed, while its
  timestamp still counts as fresh then.\<close>

theorem replay_same_message_accepted_thrice:
  "let (g1, r1) = rg_accept 100 100 7 105 (rg_new 5);
       (g2, r2) = rg_accept 105 105 7 105 g1;
       (g3, r3) = rg_accept 110 110 7 105 g2
   in r1 = Inr () \<and> r2 = Inr () \<and> r3 = Inr ()"
  by code_simp

end
