(* ===== verification/Submission_Auth.thy ===== *)
theory Submission_Auth
  imports Tenant Replay
begin

text \<open>
  The admission gate for job submissions (\<open>cosaci-state/src/submission_auth.rs\<close>): tenant
  lookup, key fingerprint and signature, replay check, rate limit, in that order. The
  CBOR encoders (\<open>ciborium\<close>) are the parameters \<open>enc\<close>; the three clock readings of an
  admission (the guard's sweep, the guard's acceptance, the limiter) are the argument
  \<open>reads\<close>.
\<close>

section \<open>Data and operations\<close>

record job_submission_payload =
  js_tenant_id :: tenant_id
  js_kind :: bytes
  js_a :: u32
  js_b :: u32
  js_deadline_secs :: u32
  js_nonce :: u128

record pipeline_submission_payload =
  ps_tenant_id :: tenant_id
  ps_pipeline_cbor :: bytes
  ps_deadline_secs :: u32
  ps_nonce :: u128

definition canonical_bytes :: "(job_submission_payload \<Rightarrow> string + bytes) \<Rightarrow> job_submission_payload \<Rightarrow> string + bytes" where
  "canonical_bytes enc payload =
     (case enc payload of Inl e \<Rightarrow> Inl (''ciborium encode JobSubmissionPayload: '' @ e) | Inr buf \<Rightarrow> Inr buf)"

definition canonical_bytes_pipeline ::
    "(pipeline_submission_payload \<Rightarrow> string + bytes) \<Rightarrow> pipeline_submission_payload \<Rightarrow> string + bytes" where
  "canonical_bytes_pipeline enc payload =
     (case enc payload of Inl e \<Rightarrow> Inl (''ciborium encode PipelineSubmissionPayload: '' @ e) | Inr buf \<Rightarrow> Inr buf)"

datatype auth_check = AuthOk | UnknownTenant | BadSignature | RateLimited | ReplayDetected

definition fold_replay_key :: "crypto \<Rightarrow> tenant_id \<Rightarrow> u128 \<Rightarrow> u64" where
  "fold_replay_key cr t nonce =
     from_le_bytes (take 8 (cr_sha256 cr (le_bytes 8 t @ le_bytes 16 nonce)))"

type_synonym clock_reads = "u64 \<times> u64 \<times> u64"
type_synonym admission = "rate_limiter \<times> replay_guard \<times> auth_check"

definition verify_and_admit ::
    "crypto \<Rightarrow> (job_submission_payload \<Rightarrow> string + bytes) \<Rightarrow> job_submission_payload \<Rightarrow> bytes \<Rightarrow> bytes \<Rightarrow> u64 \<Rightarrow>
      clock_reads \<Rightarrow> tenant_registry \<Rightarrow> rate_limiter \<Rightarrow> replay_guard \<Rightarrow> admission" where
  "verify_and_admit cr enc payload pubkey signature now_ns reads registry rl rg =
     (case tenant_get registry (js_tenant_id payload) of
        None \<Rightarrow> (rl, rg, UnknownTenant)
      | Some tenant \<Rightarrow>
          if tenant_fingerprint cr pubkey \<noteq> tn_signing_fp tenant then (rl, rg, BadSignature)
          else (case canonical_bytes enc payload of
              Inl _ \<Rightarrow> (rl, rg, BadSignature)
            | Inr buf \<Rightarrow>
                if \<not> cr_key_valid cr pubkey then (rl, rg, BadSignature)
                else if \<not> verify cr pubkey buf signature then (rl, rg, BadSignature)
                else let replay_key = fold_replay_key cr (js_tenant_id payload) (js_nonce payload) in
                  (case rg_accept (fst reads) (fst (snd reads)) replay_key now_ns rg of
                     (rg', Inl _) \<Rightarrow> (rl, rg', ReplayDetected)
                   | (rg', Inr _) \<Rightarrow>
                       (case rl_accept_with_config (snd (snd reads)) (js_tenant_id payload) 1
                               (tn_rate_capacity tenant) (tn_rate_refill_per_sec tenant) rl of
                          (rl', admitted) \<Rightarrow> (rl', rg', if admitted then AuthOk else RateLimited)))))"

definition verify_and_admit_pipeline ::
    "crypto \<Rightarrow> (pipeline_submission_payload \<Rightarrow> string + bytes) \<Rightarrow> pipeline_submission_payload \<Rightarrow> bytes \<Rightarrow> bytes \<Rightarrow> u64 \<Rightarrow>
      clock_reads \<Rightarrow> tenant_registry \<Rightarrow> rate_limiter \<Rightarrow> replay_guard \<Rightarrow> admission" where
  "verify_and_admit_pipeline cr enc payload pubkey signature now_ns reads registry rl rg =
     (case tenant_get registry (ps_tenant_id payload) of
        None \<Rightarrow> (rl, rg, UnknownTenant)
      | Some tenant \<Rightarrow>
          if tenant_fingerprint cr pubkey \<noteq> tn_signing_fp tenant then (rl, rg, BadSignature)
          else (case canonical_bytes_pipeline enc payload of
              Inl _ \<Rightarrow> (rl, rg, BadSignature)
            | Inr buf \<Rightarrow>
                if \<not> cr_key_valid cr pubkey then (rl, rg, BadSignature)
                else if \<not> verify cr pubkey buf signature then (rl, rg, BadSignature)
                else let replay_key = fold_replay_key cr (ps_tenant_id payload) (ps_nonce payload) in
                  (case rg_accept (fst reads) (fst (snd reads)) replay_key now_ns rg of
                     (rg', Inl _) \<Rightarrow> (rl, rg', ReplayDetected)
                   | (rg', Inr _) \<Rightarrow>
                       (case rl_accept_with_config (snd (snd reads)) (ps_tenant_id payload) 1
                               (tn_rate_capacity tenant) (tn_rate_refill_per_sec tenant) rl of
                          (rl', admitted) \<Rightarrow> (rl', rg', if admitted then AuthOk else RateLimited)))))"

section \<open>The gate both variants share\<close>

definition authentic :: "crypto \<Rightarrow> tenant_record \<Rightarrow> bytes \<Rightarrow> string + bytes \<Rightarrow> bytes \<Rightarrow> bool" where
  "authentic cr tenant pubkey buf signature \<longleftrightarrow>
     tenant_fingerprint cr pubkey = tn_signing_fp tenant \<and> cr_key_valid cr pubkey \<and>
     (\<exists>b. buf = Inr b \<and> verify cr pubkey b signature)"

definition admit_gate ::
    "tenant_record option \<Rightarrow> (tenant_record \<Rightarrow> bool) \<Rightarrow> tenant_id \<Rightarrow> u64 \<Rightarrow> u64 \<Rightarrow> clock_reads \<Rightarrow>
      rate_limiter \<Rightarrow> replay_guard \<Rightarrow> admission" where
  "admit_gate tenant auth t replay_key now_ns reads rl rg =
     (case tenant of
        None \<Rightarrow> (rl, rg, UnknownTenant)
      | Some rec \<Rightarrow>
          if \<not> auth rec then (rl, rg, BadSignature)
          else if isl (snd (rg_accept (fst reads) (fst (snd reads)) replay_key now_ns rg))
          then (rl, fst (rg_accept (fst reads) (fst (snd reads)) replay_key now_ns rg), ReplayDetected)
          else (case rl_accept_with_config (snd (snd reads)) t 1 (tn_rate_capacity rec) (tn_rate_refill_per_sec rec) rl of
              (rl', admitted) \<Rightarrow>
                (rl', fst (rg_accept (fst reads) (fst (snd reads)) replay_key now_ns rg), if admitted then AuthOk else RateLimited)))"

lemma verify_and_admit_gate:
  "verify_and_admit cr enc payload pubkey signature now_ns reads registry rl rg =
    admit_gate (tenant_get registry (js_tenant_id payload))
      (\<lambda>rec. authentic cr rec pubkey (canonical_bytes enc payload) signature)
      (js_tenant_id payload) (fold_replay_key cr (js_tenant_id payload) (js_nonce payload)) now_ns reads rl rg"
  unfolding verify_and_admit_def admit_gate_def
  by (auto simp: authentic_def Let_def split: option.split sum.split prod.split)

lemma verify_and_admit_pipeline_gate:
  "verify_and_admit_pipeline cr enc payload pubkey signature now_ns reads registry rl rg =
    admit_gate (tenant_get registry (ps_tenant_id payload))
      (\<lambda>rec. authentic cr rec pubkey (canonical_bytes_pipeline enc payload) signature)
      (ps_tenant_id payload) (fold_replay_key cr (ps_tenant_id payload) (ps_nonce payload)) now_ns reads rl rg"
  unfolding verify_and_admit_pipeline_def admit_gate_def
  by (auto simp: authentic_def Let_def split: option.split sum.split prod.split)

lemma admit_gate_unadmitted:
  "admit_gate tenant auth t key now_ns reads rl rg = (rl', rg', v) \<Longrightarrow>
    (v \<in> {UnknownTenant, BadSignature} \<longrightarrow> rl' = rl \<and> rg' = rg) \<and> (v = ReplayDetected \<longrightarrow> rl' = rl) \<and>
    (v \<in> {AuthOk, RateLimited, ReplayDetected} \<longrightarrow> (\<exists>rec. tenant = Some rec \<and> auth rec \<and>
       rg' = fst (rg_accept (fst reads) (fst (snd reads)) key now_ns rg))) \<and>
    (v \<in> {AuthOk, RateLimited} \<longrightarrow> snd (rg_accept (fst reads) (fst (snd reads)) key now_ns rg) = Inr ())"
  by (cases tenant; cases "snd (rg_accept (fst reads) (fst (snd reads)) key now_ns rg)")
    (auto simp: admit_gate_def split: if_splits prod.splits)

section \<open>Properties\<close>

abbreviation sample_payload :: job_submission_payload where
  "sample_payload \<equiv> \<lparr>js_tenant_id = 1, js_kind = [], js_a = 0, js_b = 0, js_deadline_secs = 60, js_nonce = 7\<rparr>"

abbreviation sample_tenant :: "u64 \<Rightarrow> tenant_record" where
  "sample_tenant capacity \<equiv> \<lparr>tn_tenant_id = 1, tn_signing_fp = 9 # replicate 31 0, tn_rate_capacity = capacity,
     tn_rate_refill_per_sec = 0, tn_registered_at_unix_ns = 0\<rparr>"



text \<open>a legitimate submission is admitted: a submission signed with the key whose
  fingerprint the tenant registered, with a nonce the guard has not recorded, checked at
  a time within the guard's time to live of its acceptance, is admitted whenever the
  tenant has a token.\<close>

theorem auth_gate_complete:
  assumes cr: "crypto_ok cr" and t: "tenant_get registry (js_tenant_id p) = Some rec"
    and fp: "tn_signing_fp rec = cr_sha256 cr (keypair_verifying_key cr kp)"
    and enc: "enc p = Inr buf"
    and inv: "rg_inv rg" and unseen: "hm_get (rg_accepted rg) (fold_replay_key cr (js_tenant_id p) (js_nonce p)) = None"
    and fresh: "abs_diff r2 now_ns \<le> rg_ttl_ns rg"
    and tokens: "snd (rl_accept_with_config r3 (js_tenant_id p) 1 (tn_rate_capacity rec) (tn_rate_refill_per_sec rec) rl)"
  shows "snd (snd (verify_and_admit cr enc p (keypair_verifying_key cr kp) (keypair_sign cr kp buf) now_ns (r1, r2, r3)
    registry rl rg)) = AuthOk"
proof -
  let ?key = "fold_replay_key cr (js_tenant_id p) (js_nonce p)"
  have "hm_get (rg_accepted (rg_sweep r1 rg)) ?key = None"
    using inv unseen by (simp add: rg_sweep_def rg_inv_def hm_get_retain)
  then have "snd (rg_accept r1 r2 ?key now_ns rg) = Inr ()"
    using fresh by (simp add: rg_accept_def Let_def hm_contains_def not_less)
  moreover have "authentic cr rec (keypair_verifying_key cr kp) (canonical_bytes enc p) (keypair_sign cr kp buf)"
    using verify_sign [OF cr] key_valid [OF cr] by (simp add: authentic_def tenant_fingerprint_def fp canonical_bytes_def enc)
  ultimately show ?thesis using tokens unfolding verify_and_admit_gate
    by (simp add: admit_gate_def t case_prod_beta)
qed

theorem auth_gate_complete_witness:
  "snd (snd (verify_and_admit toy_crypto (\<lambda>p. Inr [1, 2])
     sample_payload
     (keypair_verifying_key toy_crypto \<lparr>kp_seed = [9]\<rparr>) (keypair_sign toy_crypto \<lparr>kp_seed = [9]\<rparr> [1, 2]) 5 (5, 5, 5)
     [(1, sample_tenant 2)] (rl_new 1 1) (rg_new 10))) = AuthOk"
proof (rule auth_gate_complete [OF toy_crypto_ok])
  show "snd (rl_accept_with_config 5 (js_tenant_id sample_payload) 1 (tn_rate_capacity (sample_tenant 2))
      (tn_rate_refill_per_sec (sample_tenant 2)) (rl_new 1 1))" by code_simp
qed (simp_all add: tenant_get_def toy_crypto_def keypair_verifying_key_def rg_new_def rg_inv_def numeral_eq_Suc)

text \<open>a rate-limited submission has still used up its nonce: when the gate answers
  RateLimited, the replay guard has recorded the submission, so the same submission is
  reported as a replay when it is tried again inside the window, even with tokens left.\<close>

theorem auth_rate_limited_burns_nonce:
  assumes "verify_and_admit cr enc p pubkey signature now_ns reads registry rl rg = (rl1, rg1, RateLimited)"
    and "rg_inv rg" "rg_ttl_ns rg \<noteq> 0" "in_window (rg_ttl_ns rg) (fst (snd reads)) (fst reads')"
  shows "snd (snd (verify_and_admit cr enc p pubkey signature now' reads' registry rl' rg1)) = ReplayDetected"
proof -
  let ?key = "fold_replay_key cr (js_tenant_id p) (js_nonce p)"
  let ?acc = "rg_accept (fst reads) (fst (snd reads)) ?key now_ns rg"
  obtain rec where rec: "tenant_get registry (js_tenant_id p) = Some rec"
      "authentic cr rec pubkey (canonical_bytes enc p) signature" and rg1: "rg1 = fst ?acc" and ok: "snd ?acc = Inr ()"
    using admit_gate_unadmitted [OF assms(1) [unfolded verify_and_admit_gate]] by auto
  have inv: "rg_inv rg1" using replay_step_inv [OF assms(2), of "Accept (fst reads) (fst (snd reads)) ?key now_ns"] by (simp add: rg1)
  have "isl (snd (rg_accept (fst reads') (fst (snd reads')) ?key now' rg1))"
    using rg_accept_known [OF inv, of ?key "fst (snd reads)" "fst reads'"] rg_accept_records [OF ok] assms(3,4) by (simp add: rg1)
  then show ?thesis unfolding verify_and_admit_gate by (simp add: admit_gate_def rec)
qed

theorem auth_rate_limited_burns_nonce_witness:
  "snd (snd (verify_and_admit toy_crypto (\<lambda>p. Inr [1, 2])
     sample_payload [9] [9, 1, 2] 8 (8, 8, 8)
     [(1, sample_tenant 0)] (rl_new 50 50)
     (fst (snd (verify_and_admit toy_crypto (\<lambda>p. Inr [1, 2])
       sample_payload [9] [9, 1, 2] 5 (5, 5, 5)
       [(1, sample_tenant 0)] (rl_new 50 50) (rg_new 10)))))) = ReplayDetected"
proof -
  let ?a = "verify_and_admit toy_crypto (\<lambda>p. Inr [1, 2])
       sample_payload [9] [9, 1, 2] 5 (5, 5, 5)
       [(1, sample_tenant 0)] (rl_new 50 50) (rg_new 10)"
  have "snd (snd ?a) = RateLimited" by code_simp
  then have "?a = (fst ?a, fst (snd ?a), RateLimited)" by (metis prod.collapse)
  from auth_rate_limited_burns_nonce [OF this, of "(8, 8, 8)" 8 "rl_new 50 50"]
  show ?thesis by (simp add: rg_new_def rg_inv_def in_window_def)
qed

end
