(* ===== verification/Status.thy ===== *)
theory Status
  imports Prelude
begin

text \<open>
  The status lifecycle published to the source forge (\<open>cosaci-core/src/status.rs\<close>): the
  allowed edges as a bool-valued function and as the step relation \<open>status_edge\<close>, the
  machine that enforces them, and the histories it can produce.
\<close>

datatype status = Pending | Running | QuorumVerifying | Success | Failure

datatype transition_error = IllegalTransition status status | AlreadyTerminal status

fun is_allowed :: "status \<Rightarrow> status \<Rightarrow> bool" where
  "is_allowed Pending Running = True"
| "is_allowed Running QuorumVerifying = True"
| "is_allowed QuorumVerifying Success = True"
| "is_allowed QuorumVerifying Failure = True"
| "is_allowed _ _ = False"

definition status_is_terminal :: "status \<Rightarrow> bool" where
  "status_is_terminal s \<longleftrightarrow> s \<in> {Success, Failure}"

record status_machine =
  sm_current :: status

definition sm_new :: status_machine where
  "sm_new = \<lparr>sm_current = Pending\<rparr>"

definition sm_transition :: "status \<Rightarrow> status_machine \<Rightarrow> status_machine \<times> (transition_error + status)" where
  "sm_transition to m =
     (if status_is_terminal (sm_current m) then (m, Inl (AlreadyTerminal (sm_current m)))
      else if \<not> is_allowed (sm_current m) to then (m, Inl (IllegalTransition (sm_current m) to))
      else (m\<lparr>sm_current := to\<rparr>, Inr to))"

definition sm_step :: "status \<Rightarrow> status_machine \<Rightarrow> status_machine" where
  "sm_step to m = fst (sm_transition to m)"

section \<open>The edges as a relation\<close>

inductive status_edge :: "status \<Rightarrow> status \<Rightarrow> bool" where
  dispatch: "status_edge Pending Running"
| collect: "status_edge Running QuorumVerifying"
| pass: "status_edge QuorumVerifying Success"
| fail: "status_edge QuorumVerifying Failure"

inductive_simps status_edge_from [simp]:
  "status_edge Pending s" "status_edge Running s" "status_edge QuorumVerifying s"
  "status_edge Success s" "status_edge Failure s"

lemma is_allowed_iff_edge: "is_allowed a b \<longleftrightarrow> status_edge a b"
  by (cases a; cases b) simp_all

lemma terminal_no_edge: "status_is_terminal s \<Longrightarrow> \<not> status_edge s t"
  by (auto simp: status_is_terminal_def)

lemma sm_transition_edge:
  "snd (sm_transition to m) = Inr s \<longleftrightarrow> s = to \<and> status_edge (sm_current m) to"
  using terminal_no_edge by (auto simp: sm_transition_def is_allowed_iff_edge)

lemma sm_step_eq: "sm_step to m = (if status_edge (sm_current m) to then \<lparr>sm_current = to\<rparr> else m)"
  using terminal_no_edge by (auto simp: sm_step_def sm_transition_def is_allowed_iff_edge)

section \<open>Histories\<close>

text \<open>The states a machine enters while a caller attempts a list of transitions.\<close>

fun entered :: "status list \<Rightarrow> status_machine \<Rightarrow> status list" where
  "entered [] m = []"
| "entered (to # tos) m =
     (case sm_transition to m of
        (m', Inr s) \<Rightarrow> s # entered tos m'
      | (m', Inl _) \<Rightarrow> entered tos m')"

definition sm_inv :: "status_machine \<Rightarrow> bool" where
  "sm_inv m \<longleftrightarrow> status_edge\<^sup>*\<^sup>* Pending (sm_current m)"

interpretation status_life: absorbing_machine sm_step sm_inv "\<lambda>m. status_is_terminal (sm_current m)"
proof unfold_locales
  fix s :: status_machine and e
  assume "sm_inv s"
  then show "sm_inv (sm_step e s)" by (auto simp: sm_inv_def sm_step_eq)
next
  fix s :: status_machine and e
  assume "status_is_terminal (sm_current s)"
  then show "sm_step e s = s" by (simp add: sm_step_eq terminal_no_edge)
qed

lemma entered_cons:
  "entered (to # tos) m = (if status_edge (sm_current m) to then to # entered tos \<lparr>sm_current = to\<rparr> else entered tos m)"
  using terminal_no_edge [of "sm_current m" to] by (cases m) (simp add: sm_transition_def is_allowed_iff_edge)

lemma entered_terminal: "status_is_terminal s \<Longrightarrow> entered tos \<lparr>sm_current = s\<rparr> = []"
  by (induction tos) (simp_all add: entered_cons terminal_no_edge del: entered.simps(2))

lemma entered_verifying: "entered tos \<lparr>sm_current = QuorumVerifying\<rparr> \<in> {[], [Success], [Failure]}"
  by (induction tos) (auto simp: entered_cons entered_terminal status_is_terminal_def simp del: entered.simps(2))

lemma entered_running:
  "entered tos \<lparr>sm_current = Running\<rparr> \<in> {[], [QuorumVerifying], [QuorumVerifying, Success], [QuorumVerifying, Failure]}"
proof (induction tos)
  case (Cons t tos)
  then show ?case using entered_verifying [of tos] by (auto simp: entered_cons simp del: entered.simps(2))
qed simp

section \<open>Properties\<close>

text \<open>whatever transitions a caller attempts on a new status machine, and in whatever
  order, the states it enters are an initial part of Running, QuorumVerifying, and one
  final Success or Failure: no state is skipped, repeated or left again once final.\<close>

theorem status_history:
  "entered attempts sm_new \<in> {[], [Running], [Running, QuorumVerifying], [Running, QuorumVerifying, Success],
     [Running, QuorumVerifying, Failure]}"
proof (induction attempts)
  case (Cons t tos)
  then show ?case using entered_running [of tos] by (auto simp: sm_new_def entered_cons simp del: entered.simps(2))
qed simp

lemma status_terminal_final:
  "status_is_terminal (sm_current (fold sm_step xs sm_new)) \<Longrightarrow> fold sm_step (xs @ ys) sm_new = fold sm_step xs sm_new"
  by (rule status_life.final_once)

end
