(* ===== verification/Gossip.thy ===== *)
theory Gossip
  imports Prelude
begin

text \<open>
  Last-writer-wins gossip (\<open>cosaci-core/src/gossip.rs\<close>). Entries are ordered by timestamp
  and then value, an instance of the library's \<open>linorder\<close>, and dominance is that order.
  The locale \<open>replicas\<close> is the interface of a state-based replicated data type; node
  states are shown to be one, and convergence follows for every history of writes and
  merges.
\<close>

section \<open>Data and operations\<close>

type_synonym gkey = u64

datatype entry = Entry (entry_value: u64) (entry_timestamp: u64)

type_synonym node_state = "(gkey, entry) hmap"

definition entry_dominates :: "entry \<Rightarrow> entry \<Rightarrow> bool" where
  "entry_dominates a b =
     (if entry_timestamp a = entry_timestamp b then entry_value b \<le> entry_value a
      else entry_timestamp b < entry_timestamp a)"

definition node_new :: node_state where
  "node_new = []"

definition node_write :: "gkey \<Rightarrow> u64 \<Rightarrow> u64 \<Rightarrow> node_state \<Rightarrow> node_state" where
  "node_write key v timestamp s =
     (let incoming = Entry v timestamp;
          keep_existing = (case hm_get s key of Some existing \<Rightarrow> entry_dominates existing incoming | None \<Rightarrow> False)
      in if \<not> keep_existing then hm_insert key incoming s else s)"

definition node_get :: "gkey \<Rightarrow> node_state \<Rightarrow> entry option" where
  "node_get key s = hm_get s key"

definition merge_entry :: "gkey \<times> entry \<Rightarrow> node_state \<Rightarrow> node_state" where
  "merge_entry kb out =
     (case kb of (k, entry_b) \<Rightarrow>
        let winner = (case hm_get out k of
              Some entry_a \<Rightarrow> if entry_dominates entry_a entry_b then entry_a else entry_b
            | None \<Rightarrow> entry_b)
        in hm_insert k winner out)"

definition merge :: "node_state \<Rightarrow> node_state \<Rightarrow> node_state" where
  "merge a b = fold merge_entry b a"

section \<open>The order on entries\<close>

instantiation entry :: linorder
begin

definition less_eq_entry :: "entry \<Rightarrow> entry \<Rightarrow> bool" where
  "less_eq_entry a b \<longleftrightarrow> entry_timestamp a < entry_timestamp b \<or>
     entry_timestamp a = entry_timestamp b \<and> entry_value a \<le> entry_value b"

definition less_entry :: "entry \<Rightarrow> entry \<Rightarrow> bool" where
  "less_entry a b \<longleftrightarrow> entry_timestamp a < entry_timestamp b \<or>
     entry_timestamp a = entry_timestamp b \<and> entry_value a < entry_value b"

instance
  by standard (auto simp: less_eq_entry_def less_entry_def intro: entry.expand)

end

lemma entry_dominates_iff: "entry_dominates a b \<longleftrightarrow> b \<le> a"
  by (auto simp: entry_dominates_def less_eq_entry_def)

text \<open>The join of two optional entries.\<close>

fun join :: "entry option \<Rightarrow> entry option \<Rightarrow> entry option" where
  "join None y = y"
| "join x None = x"
| "join (Some a) (Some b) = Some (max a b)"

lemma join_None [simp]: "join x None = x"
  by (cases x) simp_all

lemma join_comm: "join x y = join y x"
  by (cases x; cases y) (simp_all add: max.commute)

lemma join_assoc: "join (join x y) z = join x (join y z)"
  by (cases x; cases y; cases z) (simp_all add: max.assoc)

lemma join_idem [simp]: "join x x = x"
  by (cases x) simp_all

section \<open>State-based replication\<close>

text \<open>A replica state has a view; merging joins the views, and a write joins its effect.\<close>

locale replicas =
  fixes ok :: "'s \<Rightarrow> bool"
    and view :: "'s \<Rightarrow> 'v"
    and merge_op :: "'s \<Rightarrow> 's \<Rightarrow> 's"
    and lub :: "'v \<Rightarrow> 'v \<Rightarrow> 'v"
  assumes merge_ok: "ok a \<Longrightarrow> ok b \<Longrightarrow> ok (merge_op a b)"
    and view_merge: "ok a \<Longrightarrow> ok b \<Longrightarrow> view (merge_op a b) = lub (view a) (view b)"
    and lub_comm: "lub x y = lub y x"
    and lub_assoc: "lub (lub x y) z = lub x (lub y z)"
    and lub_idem: "lub x x = x"
begin

lemma merge_comm: "ok a \<Longrightarrow> ok b \<Longrightarrow> view (merge_op a b) = view (merge_op b a)"
  by (simp add: view_merge lub_comm)

lemma merge_assoc:
  "ok a \<Longrightarrow> ok b \<Longrightarrow> ok c \<Longrightarrow> view (merge_op (merge_op a b) c) = view (merge_op a (merge_op b c))"
  by (simp add: view_merge merge_ok lub_assoc)

lemma merge_idem: "ok a \<Longrightarrow> view (merge_op a a) = view a"
  by (simp add: view_merge lub_idem)

lemma merge_absorb: "ok a \<Longrightarrow> ok b \<Longrightarrow> view (merge_op (merge_op a b) b) = view (merge_op a b)"
  by (simp add: view_merge merge_ok lub_assoc lub_idem)

end

lemma merge_entry_get: "hm_get (merge_entry (k, e) out) j = (if j = k then join (hm_get out k) (Some e) else hm_get out j)"
  by (auto simp: merge_entry_def Let_def hm_simps entry_dominates_iff max_def split: option.splits)

lemma merge_wf: "hm_wf a \<Longrightarrow> hm_wf (merge a b)"
  unfolding merge_def by (induction b arbitrary: a) (auto simp: merge_entry_def Let_def)

lemma merge_get: "hm_wf b \<Longrightarrow> hm_get (merge a b) j = join (hm_get a j) (hm_get b j)"
  unfolding merge_def
proof (induction b arbitrary: a)
  case (Cons e b)
  obtain k x where e: "e = (k, x)" by fastforce
  have wf: "hm_wf b" and new: "hm_get b k = None" using Cons.prems by (auto simp: e hm_wf_def map_of_eq_None_iff)
  show ?case using Cons.IH [OF wf] new by (auto simp: e merge_entry_get)
qed simp

interpretation gossip: replicas hm_wf hm_get merge "\<lambda>f g k. join (f k) (g k)"
  by unfold_locales (auto simp: merge_wf merge_get join_assoc fun_eq_iff intro: join_comm)

lemma write_wf: "hm_wf s \<Longrightarrow> hm_wf (node_write k v t s)"
  by (simp add: node_write_def Let_def)

lemma write_get: "hm_get (node_write k v t s) j = (if j = k then join (hm_get s k) (Some (Entry v t)) else hm_get s j)"
  by (auto simp: node_write_def Let_def hm_simps entry_dominates_iff max_def split: option.splits)

section \<open>Histories\<close>

text \<open>How a replica came about: writes and merges in any shape.\<close>

datatype history = Fresh | Write history gkey u64 u64 | Merge history history

primrec replay_history :: "history \<Rightarrow> node_state" where
  "replay_history Fresh = node_new"
| "replay_history (Write h k v t) = node_write k v t (replay_history h)"
| "replay_history (Merge g h) = merge (replay_history g) (replay_history h)"

primrec writes_of :: "history \<Rightarrow> (gkey \<times> entry) set" where
  "writes_of Fresh = {}"
| "writes_of (Write h k v t) = insert (k, Entry v t) (writes_of h)"
| "writes_of (Merge g h) = writes_of g \<union> writes_of h"

definition entries_at :: "(gkey \<times> entry) set \<Rightarrow> gkey \<Rightarrow> entry set" where
  "entries_at W k = {e. (k, e) \<in> W}"

definition latest :: "(gkey \<times> entry) set \<Rightarrow> gkey \<Rightarrow> entry option" where
  "latest W k = (if entries_at W k = {} then None else Some (Max (entries_at W k)))"

lemma finite_writes: "finite (writes_of h)"
  by (induction h) simp_all

lemma finite_entries_at: "finite W \<Longrightarrow> finite (entries_at W k)"
  unfolding entries_at_def by (rule finite_subset [of _ "snd ` W"]) force+

lemma latest_union:
  assumes "finite V" "finite W"
  shows "latest (V \<union> W) k = join (latest V k) (latest W k)"
proof -
  have "entries_at (V \<union> W) k = entries_at V k \<union> entries_at W k" by (auto simp: entries_at_def)
  then show ?thesis using assms [THEN finite_entries_at, of k] by (auto simp: latest_def Max_Un)
qed

lemma latest_insert: "finite W \<Longrightarrow> latest (insert (k, e) W) j = (if j = k then join (latest W k) (Some e) else latest W j)"
  using latest_union [of "{(k, e)}" W j]
  by (auto simp: latest_def entries_at_def join_comm)

lemma replay_history_ok: "hm_wf (replay_history h)"
  by (induction h) (simp_all add: node_new_def write_wf merge_wf)

lemma replay_history_latest: "hm_get (replay_history h) k = latest (writes_of h) k"
proof (induction h)
  case Fresh
  then show ?case by (simp add: node_new_def latest_def entries_at_def)
next
  case (Write h j v t)
  then show ?case by (auto simp: write_get latest_insert finite_writes)
next
  case (Merge g h)
  then show ?case by (simp add: merge_get replay_history_ok latest_union finite_writes)
qed

section \<open>Properties\<close>

text \<open>replicas converge: two replicas that have seen the same set of writes, each
  through its own sequence of local writes and merges in any order, shape and repetition,
  hold the same entry for every key, namely the one with the greatest timestamp and, among
  those, the greatest value.\<close>

theorem gossip_converges:
  assumes "writes_of g = writes_of h"
  shows "hm_get (replay_history g) k = hm_get (replay_history h) k \<and>
    hm_get (replay_history h) k = latest (writes_of h) k"
  using assms by (simp add: replay_history_latest)

theorem gossip_converges_witness:
  "hm_get (replay_history (Merge (Write Fresh 1 5 3) (Write (Write Fresh 1 9 2) 2 4 1))) 1 =
   hm_get (replay_history (Write (Merge (Write Fresh 2 4 1) (Write Fresh 1 5 3)) 1 9 2)) 1"
  using gossip_converges [of "Merge (Write Fresh 1 5 3) (Write (Write Fresh 1 9 2) 2 4 1)"
    "Write (Merge (Write Fresh 2 4 1) (Write Fresh 1 5 3)) 1 9 2" 1] by auto

text \<open>merge is the join the module documents: on node states it is commutative,
  associative and idempotent, up to the (unspecified) iteration order of the hash map.\<close>

theorem gossip_merge_join:
  assumes "hm_wf a" "hm_wf b" "hm_wf c"
  shows "hm_get (merge a b) = hm_get (merge b a) \<and>
    hm_get (merge (merge a b) c) = hm_get (merge a (merge b c)) \<and> hm_get (merge a a) = hm_get a"
  using gossip.merge_comm gossip.merge_assoc gossip.merge_idem assms by blast

theorem gossip_merge_join_witness:
  "hm_get (merge [(1, Entry 5 3)] [(1, Entry 9 2), (2, Entry 4 1)]) =
   hm_get (merge [(1, Entry 9 2), (2, Entry 4 1)] [(1, Entry 5 3)])"
  using gossip_merge_join [of "[(1, Entry 5 3)]" "[(1, Entry 9 2), (2, Entry 4 1)]" "[]"] by (simp add: hm_wf_def)

end
