(* ===== verification/Bloom.thy ===== *)
theory Bloom
  imports Crypto
begin

text \<open>
  The Bloom filter (\<open>cosaci-core/src/bloom.rs\<close>): \<open>m\<close> bits packed in 64-bit words and
  \<open>k\<close> indices derived from SHA-256. The constructor's assertions are the \<open>None\<close> case of
  \<open>bloom_new\<close>. The floating-point estimate of the false positive rate is not modelled.
\<close>

unbundle bit_operations_syntax

record bloom_filter =
  bf_bits :: "u64 list"
  bf_m :: nat
  bf_k :: nat

definition bloom_new :: "nat \<Rightarrow> nat \<Rightarrow> bloom_filter option" where
  "bloom_new m_bits k_hashes =
     (if m_bits = 0 \<or> k_hashes = 0 then None
      else Some \<lparr>bf_bits = replicate ((m_bits + 63) div 64) 0, bf_m = m_bits, bf_k = k_hashes\<rparr>)"

definition bloom_hash_indices :: "crypto \<Rightarrow> bloom_filter \<Rightarrow> bytes \<Rightarrow> nat list" where
  "bloom_hash_indices cr f item =
     map (\<lambda>i. unat (from_le_bytes (take 8 (cr_sha256 cr (item @ le_bytes 4 (of_nat i :: u32)))) :: u64) mod bf_m f)
       [0..<bf_k f]"

definition bloom_set_bit :: "nat \<Rightarrow> u64 list \<Rightarrow> u64 list" where
  "bloom_set_bit idx bits = bits[idx div 64 := bits ! (idx div 64) OR push_bit (idx mod 64) 1]"

definition bloom_insert :: "crypto \<Rightarrow> bytes \<Rightarrow> bloom_filter \<Rightarrow> bloom_filter" where
  "bloom_insert cr item f = f\<lparr>bf_bits := fold bloom_set_bit (bloom_hash_indices cr f item) (bf_bits f)\<rparr>"

definition bloom_contains :: "crypto \<Rightarrow> bloom_filter \<Rightarrow> bytes \<Rightarrow> bool" where
  "bloom_contains cr f item =
     list_all (\<lambda>idx. bf_bits f ! (idx div 64) AND push_bit (idx mod 64) 1 \<noteq> 0) (bloom_hash_indices cr f item)"

section \<open>The bit vector\<close>

definition bloom_inv :: "bloom_filter \<Rightarrow> bool" where
  "bloom_inv f \<longleftrightarrow> 0 < bf_m f \<and> length (bf_bits f) = (bf_m f + 63) div 64"

definition bit_at :: "nat \<Rightarrow> u64 list \<Rightarrow> bool" where
  "bit_at idx bits \<longleftrightarrow> bit (bits ! (idx div 64)) (idx mod 64)"

lemma and_one_bit: "w AND 2 ^ n = 0 \<longleftrightarrow> \<not> bit w n" for w :: u64
  by (rule and_exp_eq_0_iff_not_bit)

lemma bloom_set_bit_length [simp]: "length (bloom_set_bit idx bits) = length bits"
  by (simp add: bloom_set_bit_def)

lemma bit_at_set:
  assumes "idx div 64 < length bits" "j div 64 < length bits"
  shows "bit_at j (bloom_set_bit idx bits) \<longleftrightarrow> bit_at j bits \<or> j = idx"
proof (cases "j div 64 = idx div 64")
  case True
  have "j mod 64 = idx mod 64 \<longleftrightarrow> j = idx" using True by (metis mod_mult_div_eq)
  then show ?thesis using assms True by (auto simp: bit_at_def bloom_set_bit_def bit_simps)
next
  case False
  then show ?thesis using assms by (auto simp: bit_at_def bloom_set_bit_def)
qed

lemma fold_set_bit:
  assumes "\<forall>i\<in>set idxs. i div 64 < length bits" "j div 64 < length bits"
  shows "length (fold bloom_set_bit idxs bits) = length bits \<and>
    (bit_at j (fold bloom_set_bit idxs bits) \<longleftrightarrow> bit_at j bits \<or> j \<in> set idxs)"
  using assms
proof (induction idxs arbitrary: bits)
  case (Cons i idxs)
  then show ?case using Cons.IH [of "bloom_set_bit i bits"] by (auto simp: bit_at_set)
qed simp

lemma hash_indices_in_range:
  assumes "bloom_inv f" "i \<in> set (bloom_hash_indices cr f item)"
  shows "i < bf_m f" "i div 64 < length (bf_bits f)"
proof -
  show lt: "i < bf_m f" using assms by (auto simp: bloom_hash_indices_def bloom_inv_def)
  have "i div 64 \<le> (bf_m f - 1) div 64" using lt by (intro div_le_mono) simp
  also have "\<dots> < (bf_m f - 1 + 64) div 64" by simp
  also have "bf_m f - 1 + 64 = bf_m f + 63" using assms(1) by (simp add: bloom_inv_def)
  finally show "i div 64 < length (bf_bits f)" using assms(1) by (simp add: bloom_inv_def)
qed

lemma bloom_contains_iff: "bloom_contains cr f item \<longleftrightarrow> (\<forall>i\<in>set (bloom_hash_indices cr f item). bit_at i (bf_bits f))"
  by (simp add: bloom_contains_def list_all_iff and_one_bit bit_at_def)

lemma hash_indices_insert [simp]: "bloom_hash_indices cr (bloom_insert cr item f) x = bloom_hash_indices cr f x"
  by (simp add: bloom_hash_indices_def bloom_insert_def)

lemma bloom_inv_insert: "bloom_inv f \<Longrightarrow> bloom_inv (bloom_insert cr item f)"
  using fold_set_bit [of "bloom_hash_indices cr f item" "bf_bits f" 0] hash_indices_in_range [of f _ cr item]
  by (auto simp: bloom_inv_def bloom_insert_def)

interpretation bloom: machine "bloom_insert cr" bloom_inv for cr
  by unfold_locales (rule bloom_inv_insert)

lemma bloom_insert_bits:
  assumes "bloom_inv f" "j div 64 < length (bf_bits f)"
  shows "bit_at j (bf_bits (bloom_insert cr item f)) \<longleftrightarrow> bit_at j (bf_bits f) \<or> j \<in> set (bloom_hash_indices cr f item)"
  using fold_set_bit [of "bloom_hash_indices cr f item" "bf_bits f" j] hash_indices_in_range [of f _ cr item] assms
  by (auto simp: bloom_insert_def)

lemma bloom_contains_mono: "bloom_inv f \<Longrightarrow> bloom_contains cr f x \<Longrightarrow> bloom_contains cr (bloom_insert cr item f) x"
  using hash_indices_in_range [of f _ cr x] by (auto simp: bloom_contains_iff bloom_insert_bits)

lemma bloom_contains_inserted: "bloom_inv f \<Longrightarrow> bloom_contains cr (bloom_insert cr x f) x"
  using hash_indices_in_range [of f _ cr x] by (auto simp: bloom_contains_iff bloom_insert_bits)

lemma bloom_run_contains:
  "bloom_inv f \<Longrightarrow> x \<in> set items \<or> bloom_contains cr f x \<Longrightarrow> bloom_contains cr (fold (bloom_insert cr) items f) x"
proof (induction items arbitrary: f)
  case (Cons i items)
  have "x \<in> set items \<or> bloom_contains cr (bloom_insert cr i f) x"
    using Cons.prems bloom_contains_mono bloom_contains_inserted by auto
  then show ?case using Cons.IH [OF bloom_inv_insert [OF Cons.prems(1)]] by simp
qed simp

section \<open>Properties\<close>

text \<open>the filter has no false negatives: after any sequence of insertions into a new
  filter, whatever the hash function, every inserted item is reported as contained, and
  every access to the bit vector, for any item, stays inside it.\<close>

theorem bloom_no_false_negatives:
  assumes "bloom_new m k = Some f"
  shows "list_all (bloom_contains cr (fold (bloom_insert cr) items f)) items \<and>
    list_all (\<lambda>i. i div 64 < length (bf_bits (fold (bloom_insert cr) items f)))
      (bloom_hash_indices cr (fold (bloom_insert cr) items f) x)"
proof -
  have inv: "bloom_inv f" using assms by (auto simp: bloom_new_def bloom_inv_def split: if_splits)
  have "bloom_inv (fold (bloom_insert cr) items f)" by (rule bloom.run_inv [OF inv])
  then show ?thesis using bloom_run_contains [OF inv] hash_indices_in_range by (auto simp: list_all_iff)
qed

theorem bloom_no_false_negatives_witness:
  "list_all (bloom_contains toy_crypto (fold (bloom_insert toy_crypto) [[1], [2, 3]]
     \<lparr>bf_bits = [0, 0], bf_m = 100, bf_k = 3\<rparr>)) [[1], [2, 3]]"
proof -
  have "bloom_new 100 3 = Some \<lparr>bf_bits = [0, 0], bf_m = 100, bf_k = 3\<rparr>" by code_simp
  from bloom_no_false_negatives [OF this] show ?thesis by blast
qed

end
