(* ===== verification/Merkle_Log.thy ===== *)
theory Merkle_Log
  imports Crypto
begin

text \<open>
  The append-only Merkle log (\<open>cosaci-core/src/merkle_log.rs\<close>). The binary Merkle tree
  comes from the \<open>rs_merkle\<close> crate and is the parameter \<open>merkle_lib\<close>: root of a leaf
  list, proof for a leaf index, and proof verification; \<open>merkle_ok\<close> is what that crate
  documents. The two stores are instances of the locale \<open>append_store\<close>. A file store is
  the content of its file and its record count; what the operating system does to a write
  is the argument \<open>fault\<close>.
\<close>

unbundle bit_operations_syntax

section \<open>The Merkle library\<close>

type_synonym hash = bytes

record merkle_lib =
  ml_root :: "hash list \<Rightarrow> hash option"
  ml_proof :: "hash list \<Rightarrow> nat \<Rightarrow> hash list"
  ml_verify :: "hash list \<Rightarrow> hash \<Rightarrow> nat \<Rightarrow> hash \<Rightarrow> nat \<Rightarrow> bool"

definition merkle_ok :: "merkle_lib \<Rightarrow> bool" where
  "merkle_ok ml \<longleftrightarrow>
     (\<forall>leaves. leaves \<noteq> [] \<longrightarrow> ml_root ml leaves \<noteq> None) \<and>
     (\<forall>leaves i r. i < length leaves \<longrightarrow> ml_root ml leaves = Some r \<longrightarrow>
        ml_verify ml (ml_proof ml leaves i) r i (leaves ! i) (length leaves))"

text \<open>An instance for witnesses: the root is the concatenation of the leaves, and a proof
  is the whole leaf list.\<close>

definition toy_merkle :: merkle_lib where
  "toy_merkle = \<lparr>ml_root = (\<lambda>ls. if ls = [] then None else Some (concat ls)), ml_proof = (\<lambda>ls i. ls),
     ml_verify = (\<lambda>p r i l n. concat p = r \<and> i < length p \<and> p ! i = l \<and> length p = n)\<rparr>"

lemma toy_merkle_ok: "merkle_ok toy_merkle"
  by (auto simp: merkle_ok_def toy_merkle_def)

section \<open>Stores\<close>

definition hash_bytes :: "crypto \<Rightarrow> bytes \<Rightarrow> hash" where
  "hash_bytes cr data = cr_sha256 cr data"

record mem_store =
  ms_entries :: "hash list"

definition ms_append :: "hash \<Rightarrow> mem_store \<Rightarrow> mem_store \<times> u64" where
  "ms_append entry s = (s\<lparr>ms_entries := ms_entries s @ [entry]\<rparr>, of_nat (length (ms_entries s)))"

definition ms_read_all :: "mem_store \<Rightarrow> hash list" where
  "ms_read_all s = ms_entries s"

datatype file_error = FileCorrupt | WriteError | SyncError

text \<open>What happens to an append: all goes well, only the first \<open>n\<close> bytes are written, or
  everything is written but not known to be durable.\<close>

datatype fault = NoFault | ShortWrite nat | SyncFails

record file_store =
  fs_file :: bytes
  fs_len :: u64

definition fs_open :: "bytes \<Rightarrow> file_error + file_store" where
  "fs_open content =
     (if length content mod 32 \<noteq> 0 then Inl FileCorrupt
      else Inr \<lparr>fs_file = content, fs_len = of_nat (length content div 32)\<rparr>)"

definition fs_append :: "fault \<Rightarrow> hash \<Rightarrow> file_store \<Rightarrow> file_store \<times> (file_error + u64)" where
  "fs_append flt entry s =
     (case flt of
        ShortWrite n \<Rightarrow> (s\<lparr>fs_file := fs_file s @ take n entry\<rparr>, Inl WriteError)
      | SyncFails \<Rightarrow> (s\<lparr>fs_file := fs_file s @ entry\<rparr>, Inl SyncError)
      | NoFault \<Rightarrow> (s\<lparr>fs_file := fs_file s @ entry, fs_len := fs_len s + 1\<rparr>, Inr (fs_len s)))"

fun chunks_exact :: "nat \<Rightarrow> bytes \<Rightarrow> bytes list" where
  "chunks_exact n buf = (if n = 0 \<or> length buf < n then [] else take n buf # chunks_exact n (drop n buf))"

declare chunks_exact.simps [simp del]

definition fs_read_all :: "file_store \<Rightarrow> file_error + hash list" where
  "fs_read_all s =
     (if length (fs_file s) mod 32 \<noteq> 0 then Inl FileCorrupt else Inr (chunks_exact 32 (fs_file s)))"

section \<open>The log\<close>

record 's merkle_log =
  log_entries :: "hash list"
  log_store :: 's

definition log_new :: "mem_store merkle_log" where
  "log_new = \<lparr>log_entries = [], log_store = \<lparr>ms_entries = []\<rparr>\<rparr>"

definition log_append :: "hash \<Rightarrow> mem_store merkle_log \<Rightarrow> mem_store merkle_log \<times> u64" where
  "log_append entry l =
     (case ms_append entry (log_store l) of
        (s, pos) \<Rightarrow> (l\<lparr>log_store := s, log_entries := log_entries l @ [entry]\<rparr>, pos))"

definition flog_open :: "bytes \<Rightarrow> file_error + file_store merkle_log" where
  "flog_open content =
     (case fs_open content of Inl e \<Rightarrow> Inl e
      | Inr s \<Rightarrow> (case fs_read_all s of Inl e \<Rightarrow> Inl e
          | Inr es \<Rightarrow> Inr \<lparr>log_entries = es, log_store = s\<rparr>))"

definition flog_append ::
    "fault \<Rightarrow> hash \<Rightarrow> file_store merkle_log \<Rightarrow> file_store merkle_log \<times> (file_error + u64)" where
  "flog_append flt entry l =
     (case fs_append flt entry (log_store l) of
        (s, Inl e) \<Rightarrow> (l\<lparr>log_store := s\<rparr>, Inl e)
      | (s, Inr pos) \<Rightarrow> (l\<lparr>log_store := s, log_entries := log_entries l @ [entry]\<rparr>, Inr pos))"

definition log_len :: "('s, 'x) merkle_log_scheme \<Rightarrow> u64" where
  "log_len l = of_nat (length (log_entries l))"

definition log_entry_at :: "('s, 'x) merkle_log_scheme \<Rightarrow> u64 \<Rightarrow> hash option" where
  "log_entry_at l position =
     (if unat position < length (log_entries l) then Some (log_entries l ! unat position) else None)"

definition log_root :: "merkle_lib \<Rightarrow> ('s, 'x) merkle_log_scheme \<Rightarrow> hash option" where
  "log_root ml l = (if log_entries l = [] then None else ml_root ml (log_entries l))"

definition log_root_at :: "merkle_lib \<Rightarrow> ('s, 'x) merkle_log_scheme \<Rightarrow> u64 \<Rightarrow> hash option" where
  "log_root_at ml l n =
     (if n = 0 \<or> log_len l < n then None else ml_root ml (take (unat n) (log_entries l)))"

record inclusion_proof =
  ip_position :: u64
  ip_entry :: hash
  ip_proof_hashes :: "hash list"
  ip_length_at_proof :: u64

definition log_inclusion_proof_at ::
    "merkle_lib \<Rightarrow> ('s, 'x) merkle_log_scheme \<Rightarrow> u64 \<Rightarrow> u64 \<Rightarrow> inclusion_proof option" where
  "log_inclusion_proof_at ml l position len =
     (if len = 0 \<or> log_len l < len \<or> len \<le> position then None
      else let slice = take (unat len) (log_entries l) in
        Some \<lparr>ip_position = position, ip_entry = slice ! unat position,
              ip_proof_hashes = ml_proof ml slice (unat position), ip_length_at_proof = len\<rparr>)"

definition log_inclusion_proof ::
    "merkle_lib \<Rightarrow> ('s, 'x) merkle_log_scheme \<Rightarrow> u64 \<Rightarrow> inclusion_proof option" where
  "log_inclusion_proof ml l position = log_inclusion_proof_at ml l position (log_len l)"

definition verify_inclusion :: "merkle_lib \<Rightarrow> inclusion_proof \<Rightarrow> hash \<Rightarrow> bool" where
  "verify_inclusion ml p r =
     ml_verify ml (ip_proof_hashes p) r (unat (ip_position p)) (ip_entry p) (unat (ip_length_at_proof p))"

definition peak_heights :: "u64 \<Rightarrow> u8 list" where
  "peak_heights len = map of_nat (filter (\<lambda>h. drop_bit h len AND 1 = 1) (rev [0..<64]))"

fun peak_slices :: "nat \<Rightarrow> u8 list \<Rightarrow> hash list \<Rightarrow> hash list list" where
  "peak_slices start [] es = []"
| "peak_slices start (h # hs) es =
     take (2 ^ unat h) (drop start es) # peak_slices (start + 2 ^ unat h) hs es"

definition log_peak_hashes :: "merkle_lib \<Rightarrow> ('s, 'x) merkle_log_scheme \<Rightarrow> u64 \<Rightarrow> hash list" where
  "log_peak_hashes ml l len =
     (if len = 0 \<or> log_len l < len then []
      else map (\<lambda>slice. the (ml_root ml slice)) (peak_slices 0 (peak_heights len) (log_entries l)))"

section \<open>The contract of a store\<close>

text \<open>
  What the log needs of a backend: an append that reports success puts the entry at the
  end of what a later read returns and reports its position.
\<close>

locale append_store =
  fixes put :: "hash \<Rightarrow> 's \<Rightarrow> 's \<times> ('e + u64)"
    and contents :: "'s \<Rightarrow> hash list"
    and ok :: "'s \<Rightarrow> bool"
    and wide :: "hash \<Rightarrow> bool"
  assumes put_ok: "ok s \<Longrightarrow> wide e \<Longrightarrow> snd (put e s) = Inr pos \<Longrightarrow> ok (fst (put e s))"
    and put_contents: "ok s \<Longrightarrow> wide e \<Longrightarrow> snd (put e s) = Inr pos \<Longrightarrow> contents (fst (put e s)) = contents s @ [e]"
    and put_position: "ok s \<Longrightarrow> wide e \<Longrightarrow> snd (put e s) = Inr pos \<Longrightarrow> pos = of_nat (length (contents s))"
begin

text \<open>After any number of successful appends, reading returns what was there and then the
  appended entries in order.\<close>

lemma puts_contents:
  assumes "ok s" "list_all wide es" "\<forall>i<length es. \<not> isl (snd (put (es ! i) (fold (\<lambda>e s. fst (put e s)) (take i es) s)))"
  shows "ok (fold (\<lambda>e s. fst (put e s)) es s) \<and> contents (fold (\<lambda>e s. fst (put e s)) es s) = contents s @ es"
  using assms
proof (induction es arbitrary: s)
  case (Cons e es)
  obtain pos where p: "snd (put e s) = Inr pos" using Cons.prems(3) by (cases "snd (put e s)") auto
  have w: "wide e" using Cons.prems(2) by simp
  have "\<forall>i<length es. \<not> isl (snd (put (es ! i) (fold (\<lambda>e s. fst (put e s)) (take i es) (fst (put e s)))))"
  proof (intro allI impI)
    fix i assume "i < length es"
    then show "\<not> isl (snd (put (es ! i) (fold (\<lambda>e s. fst (put e s)) (take i es) (fst (put e s)))))"
      using Cons.prems(3) [rule_format, of "Suc i"] by simp
  qed
  then show ?case using Cons.IH [of "fst (put e s)"] Cons.prems(1,2) put_ok [OF _ w p] put_contents [OF _ w p] by simp
qed simp

end

interpretation mem: append_store "\<lambda>e s. (fst (ms_append e s), Inr (snd (ms_append e s)) :: unit + u64)" ms_read_all
  "\<lambda>s. True" "\<lambda>e. True"
  by unfold_locales (simp_all add: ms_append_def ms_read_all_def)

lemma chunks_exact_append:
  assumes "0 < n" "length xs mod n = 0" "length e = n"
  shows "chunks_exact n (xs @ e) = chunks_exact n xs @ [e]"
  using assms
proof (induction n xs rule: chunks_exact.induct)
  case (1 n buf)
  show ?case
  proof (cases "length buf < n")
    case True
    then have "buf = []" using "1.prems"(2) by simp
    then show ?thesis using "1.prems" by (simp add: chunks_exact.simps [of n e] chunks_exact.simps [of n "[]"])
  next
    case False
    then have "length (drop n buf) mod n = 0" using "1.prems" le_mod_geq [of n "length buf"] by simp
    then have "chunks_exact n (drop n buf @ e) = chunks_exact n (drop n buf) @ [e]" using 1 False by simp
    then show ?thesis using False "1.prems" by (simp add: chunks_exact.simps [of n buf] chunks_exact.simps [of n "buf @ e"])
  qed
qed

lemma chunks_exact_length: "0 < n \<Longrightarrow> length buf mod n = 0 \<Longrightarrow> length (chunks_exact n buf) = length buf div n"
proof (induction n buf rule: chunks_exact.induct)
  case (1 n buf)
  show ?case
  proof (cases "length buf < n")
    case True
    then show ?thesis by (simp add: chunks_exact.simps)
  next
    case False
    then have "length (drop n buf) mod n = 0" using "1.prems" le_mod_geq [of n "length buf"] by simp
    then show ?thesis using 1 False by (simp add: chunks_exact.simps [of n buf] le_div_geq)
  qed
qed

definition fs_inv :: "file_store \<Rightarrow> bool" where
  "fs_inv s \<longleftrightarrow> length (fs_file s) mod 32 = 0 \<and> fs_len s = of_nat (length (fs_file s) div 32)"

interpretation filestore: append_store "fs_append flt" "\<lambda>s. chunks_exact 32 (fs_file s)" fs_inv "\<lambda>e. length e = 32" for flt
  by unfold_locales (auto simp: fs_append_def fs_inv_def chunks_exact_append chunks_exact_length split: fault.splits)

section \<open>Prefixes never change\<close>

text \<open>A log extended by later entries; every read-side operation on an earlier length is
  unchanged.\<close>

definition log_extends :: "('s, 'x) merkle_log_scheme \<Rightarrow> ('t, 'y) merkle_log_scheme \<Rightarrow> bool" where
  "log_extends l l' \<longleftrightarrow> (\<exists>es. log_entries l' = log_entries l @ es) \<and> length (log_entries l') < 2 ^ 64"

lemma unat_log_len: "length (log_entries l) < 2 ^ 64 \<Longrightarrow> unat (log_len l) = length (log_entries l)"
  by (simp add: log_len_def unat_of_nat)

lemma log_extends_len:
  assumes "log_extends l l'"
  shows "unat (log_len l) = length (log_entries l)" "unat (log_len l') = length (log_entries l')"
    "length (log_entries l) \<le> length (log_entries l')"
  using assms by (auto simp: log_extends_def intro!: unat_log_len)

lemma log_extends_take:
  "log_extends l l' \<Longrightarrow> n \<le> log_len l \<Longrightarrow> take (unat n) (log_entries l') = take (unat n) (log_entries l)"
  using log_extends_len [of l l'] by (auto simp: log_extends_def word_le_nat_alt)

lemma log_prefix_stable:
  assumes ext: "log_extends l l'" and n: "n \<le> log_len l"
  shows "log_root_at ml l' n = log_root_at ml l n"
    and "log_inclusion_proof_at ml l' p n = log_inclusion_proof_at ml l p n"
proof -
  have "\<not> log_len l < n" "\<not> log_len l' < n" using n log_extends_len [OF ext] by (simp_all add: word_nat)
  then show "log_root_at ml l' n = log_root_at ml l n"
    "log_inclusion_proof_at ml l' p n = log_inclusion_proof_at ml l p n"
    by (simp_all add: log_root_at_def log_inclusion_proof_at_def log_extends_take [OF ext n])
qed

lemma log_proof_verifies:
  assumes ml: "merkle_ok ml" and len: "length (log_entries l) < 2 ^ 64"
    and p: "log_inclusion_proof_at ml l pos n = Some p" and r: "log_root_at ml l n = Some r"
  shows "verify_inclusion ml p r \<and> log_entry_at l pos = Some (ip_entry p)"
proof -
  let ?s = "take (unat n) (log_entries l)"
  have b: "n \<noteq> 0" "n \<le> log_len l" "pos < n" using p by (auto simp: log_inclusion_proof_at_def not_less split: if_splits)
  then have u: "unat pos < unat n" "unat n \<le> length (log_entries l)"
    using unat_log_len [OF len] by (simp_all add: word_nat)
  have pe: "p = \<lparr>ip_position = pos, ip_entry = ?s ! unat pos, ip_proof_hashes = ml_proof ml ?s (unat pos), ip_length_at_proof = n\<rparr>"
    using p by (simp add: log_inclusion_proof_at_def Let_def split: if_splits)
  have "ml_root ml ?s = Some r" using r by (simp add: log_root_at_def split: if_splits)
  moreover have len_s: "length ?s = unat n" using u by simp
  ultimately have "ml_verify ml (ml_proof ml ?s (unat pos)) r (unat pos) (?s ! unat pos) (length ?s)"
    using ml u(1) unfolding merkle_ok_def by metis
  then show ?thesis using u len_s by (simp add: verify_inclusion_def pe log_entry_at_def)
qed

lemma log_proof_exists:
  assumes ml: "merkle_ok ml" and len: "length (log_entries l) < 2 ^ 64"
    and n: "n \<noteq> 0" "n \<le> log_len l" "pos < n"
  shows "\<exists>p r. log_inclusion_proof_at ml l pos n = Some p \<and> log_root_at ml l n = Some r \<and>
    verify_inclusion ml p r \<and> log_entry_at l pos = Some (ip_entry p)"
proof -
  have "take (unat n) (log_entries l) \<noteq> []"
    using n unat_log_len [OF len] by (auto simp: word_nat unat_eq_zero)
  then obtain r where "ml_root ml (take (unat n) (log_entries l)) = Some r" using ml unfolding merkle_ok_def by blast
  then have r: "log_root_at ml l n = Some r" using n by (simp add: log_root_at_def leD)
  have "\<not> log_len l < n" "\<not> n \<le> pos" using n by (simp_all add: not_less not_le)
  then obtain p where p: "log_inclusion_proof_at ml l pos n = Some p"
    using n(1) by (simp add: log_inclusion_proof_at_def Let_def)
  show ?thesis using p r log_proof_verifies [OF ml len p r] by blast
qed

section \<open>Peaks\<close>

lemma peak_bit: "drop_bit h len AND 1 = 1 \<longleftrightarrow> bit len h" for len :: u64
  by (simp add: and_one_eq bit_iff_odd_drop_bit odd_iff_mod_2_eq_one)

lemma sum_bits: "(\<Sum>h\<leftarrow>filter (\<lambda>h. bit w h) [0..<64]. 2 ^ h) = unat w" for w :: u64
proof -
  have "sum_list (map ((^) 2) (filter P [0..<n])) = (\<Sum>h = 0..<n. if P h then 2 ^ h else (0 :: nat))" for P and n :: nat
    by (induction n) simp_all
  then have "(\<Sum>h\<leftarrow>filter (\<lambda>h. bit w h) [0..<64]. 2 ^ h) = (\<Sum>h = 0..<64. push_bit h (of_bool (bit (unat w) h)) :: nat)"
    by (simp add: bit_unsigned_iff of_bool_def if_distrib cong: if_cong)
  also have "\<dots> = take_bit 64 (unat w)" by (rule take_bit_sum [symmetric])
  also have "\<dots> = unat w" using unat_lt_pow [of w] by (simp add: take_bit_nat_eq_self_iff)
  finally show ?thesis .
qed

lemma peak_heights_nat: "map unat (peak_heights len) = rev (filter (\<lambda>h. bit len h) [0..<64])"
proof -
  have "map (unat \<circ> (of_nat :: nat \<Rightarrow> u8)) (filter P (rev [0..<64])) = filter P (rev [0..<64])" for P
    by (rule map_idI) (auto simp: unat_of_nat)
  then show ?thesis by (simp add: peak_heights_def peak_bit rev_filter)
qed

lemma peak_slices_concat:
  "concat (peak_slices start hs es) = take (\<Sum>h\<leftarrow>hs. 2 ^ unat h) (drop start es)"
  by (induction hs arbitrary: start) (simp_all add: take_add add.commute)

lemma peak_heights_sum: "(\<Sum>h\<leftarrow>peak_heights len. 2 ^ unat h) = unat len"
proof -
  have "(\<Sum>h\<leftarrow>peak_heights len. 2 ^ unat h) = sum_list (map ((^) (2 :: nat)) (map unat (peak_heights len)))"
    by (simp add: comp_def)
  also have "\<dots> = sum_list (rev (map ((^) 2) (filter (\<lambda>h. bit len h) [0..<64])))"
    unfolding peak_heights_nat rev_map ..
  also have "\<dots> = unat len" unfolding sum_list_rev by (rule sum_bits)
  finally show ?thesis .
qed

section \<open>Runs of a log\<close>

lemma log_append_entries: "log_entries (fst (log_append e l)) = log_entries l @ [e]"
  by (simp add: log_append_def ms_append_def)

lemma log_appends_entries: "log_entries (fold (\<lambda>e l. fst (log_append e l)) es l) = log_entries l @ es"
  by (induction es arbitrary: l) (simp_all add: log_append_entries)

definition flog_inv :: "file_store merkle_log \<Rightarrow> bool" where
  "flog_inv l \<longleftrightarrow> fs_inv (log_store l) \<and> log_entries l = chunks_exact 32 (fs_file (log_store l))"

lemma flog_open_inv: "flog_open content = Inr l \<Longrightarrow> flog_inv l \<and> fs_file (log_store l) = content"
  by (auto simp: flog_open_def fs_open_def fs_read_all_def flog_inv_def fs_inv_def split: if_splits)

lemma flog_inv_open: "flog_inv l \<Longrightarrow> flog_open (fs_file (log_store l)) = Inr l"
  by (cases l; cases "log_store l") (simp add: flog_open_def fs_open_def fs_read_all_def flog_inv_def fs_inv_def)

lemma flog_append_inv:
  assumes "flog_inv l" "length e = 32"
  shows "flog_inv (fst (flog_append NoFault e l)) \<and>
    snd (flog_append NoFault e l) = Inr (of_nat (length (log_entries l))) \<and>
    log_entries (fst (flog_append NoFault e l)) = log_entries l @ [e]"
proof -
  have s: "fs_inv (log_store l)" and es: "log_entries l = chunks_exact 32 (fs_file (log_store l))"
    using assms(1) by (simp_all add: flog_inv_def)
  have p: "snd (fs_append NoFault e (log_store l)) = Inr (fs_len (log_store l))" by (simp add: fs_append_def)
  note put = filestore.put_ok [OF s assms(2) p] filestore.put_contents [OF s assms(2) p] filestore.put_position [OF s assms(2) p]
  have "fs_len (log_store l) = of_nat (length (log_entries l))" using put(3) es by simp
  then show ?thesis using put(1,2) es by (auto simp: flog_inv_def flog_append_def fs_append_def)
qed

lemma flog_appends_inv:
  "flog_inv l \<Longrightarrow> list_all (\<lambda>e. length e = 32) es \<Longrightarrow>
    flog_inv (fold (\<lambda>e l. fst (flog_append NoFault e l)) es l) \<and>
    log_entries (fold (\<lambda>e l. fst (flog_append NoFault e l)) es l) = log_entries l @ es"
  by (induction es arbitrary: l) (auto simp: flog_append_inv)

section \<open>Properties\<close>

text \<open>an anchored prefix never changes and its proofs verify: in every log, for every
  non-empty prefix length up to the current one and every position in it, the prefix root
  and the inclusion proof exist, the proof verifies against the root and proves the entry
  that stands at that position, and after any number of further appends both are the very
  same root and proof.\<close>

theorem merkle_prefix_immutable:
  assumes ml: "merkle_ok ml" and small: "length (log_entries l @ es) < 2 ^ 64"
    and n: "n \<noteq> 0" "n \<le> log_len l" "pos < n"
  shows "\<exists>p r. log_inclusion_proof_at ml l pos n = Some p \<and> log_root_at ml l n = Some r \<and>
    verify_inclusion ml p r \<and> log_entry_at l pos = Some (ip_entry p) \<and>
    log_inclusion_proof_at ml (fold (\<lambda>e l. fst (log_append e l)) es l) pos n = Some p \<and>
    log_root_at ml (fold (\<lambda>e l. fst (log_append e l)) es l) n = Some r"
proof -
  let ?l = "fold (\<lambda>e l. fst (log_append e l)) es l"
  have ext: "log_extends l ?l" using small by (auto simp: log_extends_def log_appends_entries)
  have len: "length (log_entries l) < 2 ^ 64" using small by simp
  show ?thesis using log_proof_exists [OF ml len n] log_prefix_stable [OF ext n(2), of ml] by auto
qed

theorem merkle_prefix_immutable_witness:
  "\<exists>p r. log_inclusion_proof_at toy_merkle (fst (log_append [7] (fst (log_append [5] log_new)))) 0 1 = Some p \<and>
     log_root_at toy_merkle (fst (log_append [5] log_new)) 1 = Some r \<and> verify_inclusion toy_merkle p r"
  using merkle_prefix_immutable [OF toy_merkle_ok, of "fst (log_append [5] log_new)" "[[7]]" 1 0]
  by (auto simp: log_new_def log_append_def ms_append_def log_len_def)



text \<open>the peaks of a prefix are its binary decomposition: the heights are strictly
  decreasing, and the slices they cover, each of a power of two leaves, are consecutive
  and together are exactly the prefix.\<close>

theorem merkle_peaks_partition:
  assumes "length (log_entries l) < 2 ^ 64" "n \<le> log_len l"
  shows "sorted_wrt (>) (map unat (peak_heights n)) \<and>
    concat (peak_slices 0 (peak_heights n) (log_entries l)) = take (unat n) (log_entries l) \<and>
    map length (peak_slices 0 (peak_heights n) (log_entries l)) = map (\<lambda>h. 2 ^ unat h) (peak_heights n)"
proof -
  have "sorted_wrt (<) (filter (\<lambda>h. bit n h) [0..<64])" by (rule sorted_wrt_filter) (rule sorted_wrt_upt)
  then have desc: "sorted_wrt (>) (map unat (peak_heights n))" unfolding peak_heights_nat sorted_wrt_rev .
  have len: "start + (\<Sum>h\<leftarrow>hs. 2 ^ unat h) \<le> length es \<Longrightarrow>
      map length (peak_slices start hs es) = map (\<lambda>h. 2 ^ unat h) hs" for start hs and es :: "hash list"
    by (induction hs arbitrary: start) (simp_all add: add.assoc min_absorb2)
  have "unat n \<le> length (log_entries l)" using assms(2) unat_log_len [OF assms(1)] by (simp add: word_nat)
  then show ?thesis using desc len [of 0 "peak_heights n" "log_entries l"]
    by (simp add: peak_slices_concat peak_heights_sum)
qed

theorem merkle_peaks_partition_witness:
  "concat (peak_slices 0 (peak_heights 3) (log_entries \<lparr>log_entries = [[1], [2], [3], [4]], log_store = ()\<rparr>)) = [[1], [2], [3]]"
  using merkle_peaks_partition [of "\<lparr>log_entries = [[1], [2], [3], [4]], log_store = ()\<rparr>" 3]
  by (simp add: log_len_def)

text \<open>an append that fails at the sync leaves the file ahead of the log: the entry is
  in the file but neither in the mirror nor in the record count, so the next append
  reports a position that belongs to another entry once the file is opened again.\<close>

theorem file_log_sync_failure_shifts:
  "let l0 = \<lparr>log_entries = [], log_store = \<lparr>fs_file = [], fs_len = 0\<rparr>\<rparr>;
       l1 = fst (flog_append SyncFails (replicate 32 1) l0);
       (l2, r) = flog_append NoFault (replicate 32 2) l1
   in r = Inr 0 \<and> log_entry_at l2 0 = Some (replicate 32 2) \<and>
      map_sum (\<lambda>e. e) (\<lambda>l. log_entry_at l 0) (flog_open (fs_file (log_store l2))) = Inr (Some (replicate 32 1))"
  by code_simp

end
