(* ===== verification/Capabilities.thy ===== *)
theory Capabilities
  imports Prelude "HOL-Library.List_Lexorder"
begin

text \<open>
  Runner capabilities and committee selection (\<open>cosaci-core/src/capabilities.rs\<close>).
  Rust compares byte arrays lexicographically, which is the order \<open>List_Lexorder\<close> puts
  on \<open>bytes\<close>; \<open>sort_by\<close> is stable, as is \<open>sort_key\<close>. A \<open>BTreeSet\<close> of runtimes is a
  set.
\<close>

section \<open>Data and operations\<close>

datatype platform = LinuxX86_64 | LinuxAarch64 | DarwinX86_64 | DarwinAarch64

datatype runtime = Wasm | Firecracker | Docker

record capabilities =
  cap_cpu :: u32
  cap_memory_mb :: u32
  cap_platform :: platform
  cap_runtimes :: "runtime set"

record job_requirements =
  req_cpu :: u32
  req_memory_mb :: u32
  req_platform :: platform
  req_runtimes :: "runtime set"

definition matches :: "capabilities \<Rightarrow> job_requirements \<Rightarrow> bool" where
  "matches runner job \<longleftrightarrow>
     req_cpu job \<le> cap_cpu runner \<and> req_memory_mb job \<le> cap_memory_mb runner \<and>
     cap_platform runner = req_platform job \<and> req_runtimes job \<subseteq> cap_runtimes runner"

record 'i candidate =
  cd_id :: 'i
  cd_capabilities :: capabilities
  cd_vrf_output :: bytes

definition eligible :: "job_requirements \<Rightarrow> 'i candidate list \<Rightarrow> 'i candidate list" where
  "eligible req cs = filter (\<lambda>c. matches (cd_capabilities c) req) cs"

definition select_capability_aware_committee ::
    "'i candidate list \<Rightarrow> job_requirements \<Rightarrow> nat \<Rightarrow> 'i list option" where
  "select_capability_aware_committee candidates requirements committee_size =
     (let el = eligible requirements candidates in
      if length el < committee_size then None
      else Some (map cd_id (take committee_size (sort_key cd_vrf_output el))))"

section \<open>Capabilities as an order\<close>

text \<open>A runner that offers at least what another offers on the same platform.\<close>

definition cap_le :: "capabilities \<Rightarrow> capabilities \<Rightarrow> bool" where
  "cap_le a b \<longleftrightarrow> cap_cpu a \<le> cap_cpu b \<and> cap_memory_mb a \<le> cap_memory_mb b \<and>
     cap_platform a = cap_platform b \<and> cap_runtimes a \<subseteq> cap_runtimes b"

definition as_capabilities :: "job_requirements \<Rightarrow> capabilities" where
  "as_capabilities j = \<lparr>cap_cpu = req_cpu j, cap_memory_mb = req_memory_mb j,
     cap_platform = req_platform j, cap_runtimes = req_runtimes j\<rparr>"

lemma matches_iff_cap_le: "matches r j \<longleftrightarrow> cap_le (as_capabilities j) r"
  by (auto simp: matches_def cap_le_def as_capabilities_def)

lemma matches_mono: "matches r j \<Longrightarrow> cap_le r r' \<Longrightarrow> matches r' j"
  unfolding matches_iff_cap_le cap_le_def by (metis order_trans)

lemma mset_eligible: "mset (eligible req cs) = filter_mset (\<lambda>c. matches (cd_capabilities c) req) (mset cs)"
  by (simp add: eligible_def)

lemma sort_key_mset_cong:
  "mset xs = mset ys \<Longrightarrow> inj_on f (set xs) \<Longrightarrow> sort_key f xs = sort_key f ys"
  by (rule sort_key_inj_key_eq) simp_all

lemma select_None_iff:
  "select_capability_aware_committee cs req n = None \<longleftrightarrow> length (eligible req cs) < n"
  by (simp add: select_capability_aware_committee_def Let_def)

lemma sorted_take_le_drop:
  "sorted (map f xs) \<Longrightarrow> a \<in> set (take n xs) \<Longrightarrow> b \<in> set (drop n xs) \<Longrightarrow> f a \<le> f b"
  using sorted_append [of "map f (take n xs)" "map f (drop n xs)"] by (simp flip: map_append)

section \<open>Properties\<close>

text \<open>C17: committee selection is exact: it refuses exactly when fewer candidates than seats
  meet the requirements, and otherwise the eligible candidates split into a committee of
  exactly the requested size, listed by VRF output, and a rest none of which has a smaller
  output than a member; no candidate that fails the requirements is ever seated.\<close>

theorem committee_selection_exact:
  "case select_capability_aware_committee cs req n of
     None \<Rightarrow> size (filter_mset (\<lambda>c. matches (cd_capabilities c) req) (mset cs)) < n
   | Some ids \<Rightarrow> \<exists>members rest. ids = map cd_id members \<and> length members = n \<and>
       mset members + mset rest = filter_mset (\<lambda>c. matches (cd_capabilities c) req) (mset cs) \<and>
       sorted (map cd_vrf_output members) \<and>
       list_all (\<lambda>m. list_all (\<lambda>r. cd_vrf_output m \<le> cd_vrf_output r) rest) members"
proof (cases "length (eligible req cs) < n")
  case True
  then show ?thesis
    by (simp add: select_capability_aware_committee_def Let_def flip: mset_eligible)
next
  case False
  let ?s = "sort_key cd_vrf_output (eligible req cs)"
  have "mset (take n ?s) + mset (drop n ?s) = mset (eligible req cs)"
    by (metis append_take_drop_id mset_append mset_sort)
  moreover have "sorted (map cd_vrf_output (take n ?s))" by (simp flip: take_map)
  moreover have "list_all (\<lambda>m. list_all (\<lambda>r. cd_vrf_output m \<le> cd_vrf_output r) (drop n ?s)) (take n ?s)"
    using sorted_take_le_drop [of cd_vrf_output ?s] by (auto simp: list_all_iff)
  moreover have "length (take n ?s) = n" using False by simp
  ultimately show ?thesis using False
    unfolding select_capability_aware_committee_def Let_def mset_eligible by auto
qed

text \<open>every coordinator that holds the same candidates seats the same committee: when
  the eligible candidates have distinct VRF outputs, neither the order in which they are
  listed nor the presence of candidates that fail the requirements changes the result.\<close>

theorem committee_order_independent:
  assumes same: "filter_mset (\<lambda>c. matches (cd_capabilities c) req) (mset cs) =
      filter_mset (\<lambda>c. matches (cd_capabilities c) req) (mset cs')"
    and inj: "inj_on cd_vrf_output {c \<in> set cs. matches (cd_capabilities c) req}"
  shows "select_capability_aware_committee cs req n = select_capability_aware_committee cs' req n"
proof -
  have m: "mset (eligible req cs) = mset (eligible req cs')" using same by (simp add: mset_eligible)
  have "sort_key cd_vrf_output (eligible req cs) = sort_key cd_vrf_output (eligible req cs')"
    by (rule sort_key_mset_cong [OF m]) (use inj in \<open>simp add: eligible_def\<close>)
  then show ?thesis using mset_eq_length [OF m] by (simp add: select_capability_aware_committee_def Let_def)
qed

theorem committee_order_independent_witness:
  "let caps = \<lparr>cap_cpu = 4, cap_memory_mb = 512, cap_platform = LinuxX86_64, cap_runtimes = {Wasm, Docker}\<rparr>;
       req = \<lparr>req_cpu = 2, req_memory_mb = 256, req_platform = LinuxX86_64, req_runtimes = {Wasm}\<rparr>;
       a = \<lparr>cd_id = 1 :: u64, cd_capabilities = caps, cd_vrf_output = [9, 1]\<rparr>;
       b = \<lparr>cd_id = 2, cd_capabilities = caps, cd_vrf_output = [3, 7]\<rparr>;
       c = \<lparr>cd_id = 3, cd_capabilities = caps\<lparr>cap_cpu := 1\<rparr>, cd_vrf_output = [0, 0]\<rparr>
   in select_capability_aware_committee [a, b] req 1 = select_capability_aware_committee [c, b, a] req 1"
  unfolding Let_def by (rule committee_order_independent) (auto simp: matches_def inj_on_def add_mset_commute word_le_nat_alt)

end
