(* ===== verification/Attestation.thy ===== *)
theory Attestation
  imports Merkle_Log Capabilities
begin

text \<open>
  Signed attestations, the leaf verifier and retrieval bundles
  (\<open>cosaci-core/src/attestation.rs\<close>, \<open>verifier.rs\<close>, \<open>retrieval.rs\<close>). The CBOR
  encoding comes from the \<open>ciborium\<close> crate and is the parameter \<open>codec\<close>; \<open>codec_ok\<close>
  is the round trip that crate documents, on the values a Rust type can hold.
\<close>

section \<open>Encodings\<close>

record 'a codec =
  cd_encode :: "'a \<Rightarrow> bytes"
  cd_decode :: "bytes \<Rightarrow> 'a option"

definition codec_ok :: "('a \<Rightarrow> bool) \<Rightarrow> 'a codec \<Rightarrow> bool" where
  "codec_ok ok c \<longleftrightarrow> (\<forall>x. ok x \<longrightarrow> cd_decode c (cd_encode c x) = Some x)"

lemma codec_inj: "codec_ok ok c \<Longrightarrow> ok x \<Longrightarrow> ok y \<Longrightarrow> cd_encode c x = cd_encode c y \<Longrightarrow> x = y"
  unfolding codec_ok_def by (metis option.inject)

section \<open>Attestations\<close>

datatype attestation_result = APass | AFail

record attestation =
  at_version :: u8
  at_job_id :: bytes
  at_commit :: bytes
  at_runner_id :: u64
  at_result :: attestation_result
  at_environment_hash :: bytes
  at_artifact_hash :: bytes
  at_timestamp_unix_ns :: u64
  at_signature :: bytes

text \<open>The array lengths that the Rust type fixes. The timestamp is the two's complement
  word of an \<open>i64\<close>.\<close>

definition att_wf :: "attestation \<Rightarrow> bool" where
  "att_wf a \<longleftrightarrow> length (at_job_id a) = 16 \<and> length (at_commit a) = 32 \<and>
     length (at_environment_hash a) = 32 \<and> length (at_artifact_hash a) = 32 \<and> length (at_signature a) = 64"

definition att_VERSION :: u8 where
  "att_VERSION = 1"

definition canonicalize :: "attestation codec \<Rightarrow> attestation \<Rightarrow> bytes" where
  "canonicalize c a = cd_encode c a"

definition att_hash :: "crypto \<Rightarrow> attestation codec \<Rightarrow> attestation \<Rightarrow> bytes" where
  "att_hash cr c a = cr_sha256 cr (canonicalize c a)"

definition decanonicalize :: "attestation codec \<Rightarrow> bytes \<Rightarrow> attestation option" where
  "decanonicalize c bs = cd_decode c bs"

definition canonical_signing_input :: "attestation codec \<Rightarrow> attestation \<Rightarrow> bytes" where
  "canonical_signing_input c a = canonicalize c (a\<lparr>at_signature := replicate 64 0\<rparr>)"

definition sign_with :: "crypto \<Rightarrow> attestation codec \<Rightarrow> keypair \<Rightarrow> attestation \<Rightarrow> attestation" where
  "sign_with cr c kp a = a\<lparr>at_signature := keypair_sign cr kp (canonical_signing_input c a)\<rparr>"

definition verify_signature :: "crypto \<Rightarrow> attestation codec \<Rightarrow> attestation \<Rightarrow> bytes \<Rightarrow> bool" where
  "verify_signature cr c a pk = verify cr pk (canonical_signing_input c a) (at_signature a)"

section \<open>Leaf verifier\<close>

type_synonym leaf_hash = bytes

definition hash_leaf :: "crypto \<Rightarrow> bytes \<Rightarrow> leaf_hash" where
  "hash_leaf cr data = cr_sha256 cr data"

definition compute_root :: "merkle_lib \<Rightarrow> leaf_hash list \<Rightarrow> leaf_hash option" where
  "compute_root ml leaves = (if leaves = [] then None else ml_root ml (sort leaves))"

record vf_inclusion_proof =
  vf_leaf :: leaf_hash
  vf_index :: nat
  vf_proof_hashes :: "leaf_hash list"
  vf_total_leaves :: nat

fun list_position :: "'a \<Rightarrow> 'a list \<Rightarrow> nat option" where
  "list_position y [] = None"
| "list_position y (x # xs) = (if x = y then Some 0 else map_option Suc (list_position y xs))"

definition vf_prove_inclusion :: "merkle_lib \<Rightarrow> leaf_hash list \<Rightarrow> leaf_hash \<Rightarrow> vf_inclusion_proof option" where
  "vf_prove_inclusion ml leaves leaf =
     (if leaves = [] then None
      else let sorted_leaves = sort leaves in
        (case list_position leaf sorted_leaves of None \<Rightarrow> None
         | Some index \<Rightarrow> Some \<lparr>vf_leaf = leaf, vf_index = index,
             vf_proof_hashes = ml_proof ml sorted_leaves index, vf_total_leaves = length sorted_leaves\<rparr>))"

definition vf_verify_inclusion :: "merkle_lib \<Rightarrow> vf_inclusion_proof \<Rightarrow> leaf_hash \<Rightarrow> bool" where
  "vf_verify_inclusion ml p root =
     ml_verify ml (vf_proof_hashes p) root (vf_index p) (vf_leaf p) (vf_total_leaves p)"

section \<open>Retrieval bundles\<close>

record job_record =
  jr_job_id :: u64
  jr_pipeline_hash :: bytes
  jr_committee_attestations :: "attestation list"
  jr_consensus_artifact :: hash
  jr_log_position :: u64
  jr_log_length_at_anchor :: u64

record job_bundle =
  jb_job_id :: u64
  jb_pipeline_hash :: bytes
  jb_committee_attestations :: "attestation list"
  jb_consensus_artifact :: hash
  jb_merkle_proof :: inclusion_proof
  jb_log_root :: hash
  jb_log_position :: u64
  jb_log_length_at_anchor :: u64

definition build_bundle ::
    "merkle_lib \<Rightarrow> (u64, job_record) hmap \<Rightarrow> ('s, 'x) merkle_log_scheme \<Rightarrow> u64 \<Rightarrow> job_bundle option" where
  "build_bundle ml records l job_id =
     (case hm_get records job_id of None \<Rightarrow> None
      | Some r \<Rightarrow> (case log_inclusion_proof_at ml l (jr_log_position r) (jr_log_length_at_anchor r) of
          None \<Rightarrow> None
        | Some proof \<Rightarrow> (case log_root_at ml l (jr_log_length_at_anchor r) of
            None \<Rightarrow> None
          | Some root \<Rightarrow> Some \<lparr>jb_job_id = jr_job_id r, jb_pipeline_hash = jr_pipeline_hash r,
              jb_committee_attestations = jr_committee_attestations r,
              jb_consensus_artifact = jr_consensus_artifact r, jb_merkle_proof = proof,
              jb_log_root = root, jb_log_position = jr_log_position r,
              jb_log_length_at_anchor = jr_log_length_at_anchor r\<rparr>)))"

section \<open>A concrete encoding\<close>

text \<open>A fixed layout that satisfies the round trip, for witnesses.\<close>

definition toy_att_encode :: "attestation \<Rightarrow> bytes" where
  "toy_att_encode a = [at_version a, if at_result a = APass then 1 else 0] @ le_bytes 8 (at_runner_id a) @
     le_bytes 8 (at_timestamp_unix_ns a) @ at_job_id a @ at_commit a @ at_environment_hash a @
     at_artifact_hash a @ at_signature a"

definition toy_att_decode :: "bytes \<Rightarrow> attestation option" where
  "toy_att_decode bs = (if length bs \<noteq> 194 then None else
     Some \<lparr>at_version = bs ! 0, at_job_id = take 16 (drop 18 bs), at_commit = take 32 (drop 34 bs),
       at_runner_id = from_le_bytes (take 8 (drop 2 bs)), at_result = (if bs ! 1 = 1 then APass else AFail),
       at_environment_hash = take 32 (drop 66 bs), at_artifact_hash = take 32 (drop 98 bs),
       at_timestamp_unix_ns = from_le_bytes (take 8 (drop 10 bs)), at_signature = drop 130 bs\<rparr>)"

definition toy_att_codec :: "attestation codec" where
  "toy_att_codec = \<lparr>cd_encode = toy_att_encode, cd_decode = toy_att_decode\<rparr>"

lemma toy_att_codec_ok: "codec_ok att_wf toy_att_codec"
proof -
  have "toy_att_decode (toy_att_encode a) = Some a" if "att_wf a" for a
    using that by (cases a; cases "at_result a") (simp_all add: att_wf_def toy_att_encode_def toy_att_decode_def)
  then show ?thesis by (simp add: codec_ok_def toy_att_codec_def)
qed

section \<open>Lemmas\<close>

lemma signing_input_ignores_signature [simp]:
  "canonical_signing_input c (a\<lparr>at_signature := s\<rparr>) = canonical_signing_input c a"
  by (simp add: canonical_signing_input_def)

lemma sign_verify: "crypto_ok cr \<Longrightarrow> verify_signature cr c (sign_with cr c kp a) (keypair_verifying_key cr kp)"
  by (simp add: verify_signature_def sign_with_def verify_sign)

lemma att_wf_signature [simp]: "att_wf a \<Longrightarrow> length s = 64 \<Longrightarrow> att_wf (a\<lparr>at_signature := s\<rparr>)"
  by (simp add: att_wf_def)

lemma list_position_Some: "list_position y xs = Some i \<Longrightarrow> i < length xs \<and> xs ! i = y"
  by (induction y xs arbitrary: i rule: list_position.induct) (auto split: if_splits)

lemma list_position_None: "list_position y xs = None \<longleftrightarrow> y \<notin> set xs"
  by (induction y xs rule: list_position.induct) auto

lemma build_bundle_stable:
  assumes "log_extends l l'" "hm_get records j = Some r" "jr_log_length_at_anchor r \<le> log_len l"
  shows "build_bundle ml records l' j = build_bundle ml records l j"
  using assms by (simp add: build_bundle_def log_prefix_stable cong: option.case_cong)

lemma build_bundle_verifies:
  assumes ml: "merkle_ok ml" and len: "length (log_entries l) < 2 ^ 64" and r: "hm_get records j = Some r"
    and anchor: "jr_log_position r < jr_log_length_at_anchor r" "jr_log_length_at_anchor r \<le> log_len l"
      "log_entry_at l (jr_log_position r) = Some (jr_consensus_artifact r)"
  shows "\<exists>b. build_bundle ml records l j = Some b \<and> verify_inclusion ml (jb_merkle_proof b) (jb_log_root b) \<and>
    ip_entry (jb_merkle_proof b) = jb_consensus_artifact b \<and> jb_consensus_artifact b = jr_consensus_artifact r \<and>
    jb_committee_attestations b = jr_committee_attestations r"
proof -
  let ?n = "jr_log_length_at_anchor r" and ?pos = "jr_log_position r"
  have nz: "?n \<noteq> 0" using anchor(1) by auto
  have "\<exists>p r. log_inclusion_proof_at ml l ?pos ?n = Some p \<and> log_root_at ml l ?n = Some r \<and>
      verify_inclusion ml p r \<and> log_entry_at l ?pos = Some (ip_entry p)"
    using log_proof_exists [OF ml len nz anchor(2,1)] by blast
  then show ?thesis using r anchor(3) by (auto simp: build_bundle_def)
qed

section \<open>Properties\<close>

text \<open>a retrieval bundle is available and verifiable for ever: once a job's record points
  at the position of its artifact in the log, the bundle for that job exists, its proof
  verifies against its own root and proves exactly the consensus artifact, and it is the
  same bundle after any number of further appends.\<close>

theorem bundle_verifiable_forever:
  assumes ml: "merkle_ok ml" and small: "length (log_entries l @ es) < 2 ^ 64"
    and r: "hm_get records j = Some r"
    and anchor: "jr_log_position r < jr_log_length_at_anchor r" "jr_log_length_at_anchor r \<le> log_len l"
      "log_entry_at l (jr_log_position r) = Some (jr_consensus_artifact r)"
  shows "\<exists>b. build_bundle ml records (fold (\<lambda>e l. fst (log_append e l)) es l) j = Some b \<and>
    build_bundle ml records l j = Some b \<and> verify_inclusion ml (jb_merkle_proof b) (jb_log_root b) \<and>
    ip_entry (jb_merkle_proof b) = jr_consensus_artifact r \<and>
    jb_committee_attestations b = jr_committee_attestations r"
proof -
  have "log_extends l (fold (\<lambda>e l. fst (log_append e l)) es l)"
    using small by (auto simp: log_extends_def log_appends_entries)
  from build_bundle_stable [OF this r anchor(2), of ml] build_bundle_verifies [OF ml _ r anchor] small
  show ?thesis by auto
qed

theorem bundle_verifiable_forever_witness:
  "\<exists>b. build_bundle toy_merkle [(4, \<lparr>jr_job_id = 4, jr_pipeline_hash = [], jr_committee_attestations = [],
       jr_consensus_artifact = [5], jr_log_position = 0, jr_log_length_at_anchor = 1\<rparr>)]
       (fst (log_append [7] (fst (log_append [5] log_new)))) 4 = Some b \<and>
     verify_inclusion toy_merkle (jb_merkle_proof b) (jb_log_root b) \<and> ip_entry (jb_merkle_proof b) = [5]"
  using bundle_verifiable_forever [OF toy_merkle_ok, of "fst (log_append [5] log_new)" "[[7]]"
      "[(4, \<lparr>jr_job_id = 4, jr_pipeline_hash = [], jr_committee_attestations = [],
       jr_consensus_artifact = [5], jr_log_position = 0, jr_log_length_at_anchor = 1\<rparr>)]" 4]
  by (auto simp: log_new_def log_append_def ms_append_def log_len_def log_entry_at_def)

text \<open>the leaf verifier is canonical and complete: the root is the same for every order
  of the leaves, and for exactly the members of the leaf set there is a proof, which is
  again independent of the order and verifies against the root.\<close>

theorem verifier_canonical:
  assumes ml: "merkle_ok ml" and perm: "mset leaves' = mset leaves"
  shows "compute_root ml leaves' = compute_root ml leaves \<and>
    vf_prove_inclusion ml leaves' leaf = vf_prove_inclusion ml leaves leaf \<and>
    (case vf_prove_inclusion ml leaves leaf of None \<Rightarrow> leaf \<notin> set leaves
     | Some p \<Rightarrow> leaf \<in> set leaves \<and> vf_leaf p = leaf \<and>
         (\<exists>root. compute_root ml leaves = Some root \<and> vf_verify_inclusion ml p root))"
proof -
  have "sort leaves' = sort leaves" by (rule sort_key_mset_cong [OF perm]) simp
  moreover have "leaves' = [] \<longleftrightarrow> leaves = []" using perm by (metis mset_zero_iff)
  ultimately have same: "compute_root ml leaves' = compute_root ml leaves"
    "vf_prove_inclusion ml leaves' leaf = vf_prove_inclusion ml leaves leaf"
    by (simp_all add: compute_root_def vf_prove_inclusion_def)
  have "case vf_prove_inclusion ml leaves leaf of None \<Rightarrow> leaf \<notin> set leaves
     | Some p \<Rightarrow> leaf \<in> set leaves \<and> vf_leaf p = leaf \<and>
         (\<exists>root. compute_root ml leaves = Some root \<and> vf_verify_inclusion ml p root)"
  proof (cases "list_position leaf (sort leaves)")
    case None
    then show ?thesis using list_position_None [of leaf "sort leaves"] by (simp add: vf_prove_inclusion_def Let_def)
  next
    case (Some i)
    note i = list_position_Some [OF Some]
    then have ne: "leaves \<noteq> []" and mem: "leaf \<in> set leaves" using nth_mem [of i "sort leaves"] by auto
    obtain root where root: "ml_root ml (sort leaves) = Some root"
      using ml ne unfolding merkle_ok_def by (metis length_0_conv length_sort not_Some_eq)
    then have "ml_verify ml (ml_proof ml (sort leaves) i) root i (sort leaves ! i) (length (sort leaves))"
      using ml i unfolding merkle_ok_def by blast
    then show ?thesis using Some ne mem root i
      by (simp add: vf_prove_inclusion_def Let_def compute_root_def vf_verify_inclusion_def)
  qed
  then show ?thesis using same by simp
qed

theorem verifier_canonical_witness:
  "compute_root toy_merkle [[2], [1]] = compute_root toy_merkle [[1], [2]] \<and>
   vf_prove_inclusion toy_merkle [[2], [1]] [2] = vf_prove_inclusion toy_merkle [[1], [2]] [2]"
  using verifier_canonical [OF toy_merkle_ok, of "[[2], [1]]" "[[1], [2]]" "[2]"] by simp

text \<open>a signature covers exactly the attestation without its signature field: signing
  yields an attestation that verifies under the signer's key, changes nothing else, and
  two attestations have the same signed message exactly when they agree on every field
  but the signature; so a signature never carries over to another claim.\<close>

theorem attestation_signature_exact:
  assumes cr: "crypto_ok cr" and c: "codec_ok att_wf c" and a: "att_wf a" and b: "att_wf b"
  shows "verify_signature cr c (sign_with cr c kp a) (keypair_verifying_key cr kp) \<and>
    (sign_with cr c kp a)\<lparr>at_signature := at_signature a\<rparr> = a \<and>
    (canonical_signing_input c a = canonical_signing_input c b \<longleftrightarrow> b\<lparr>at_signature := at_signature a\<rparr> = a)"
proof -
  let ?z = "\<lambda>a. a\<lparr>at_signature := replicate 64 0\<rparr>"
  have "canonical_signing_input c a = canonical_signing_input c b \<longleftrightarrow> ?z a = ?z b"
    using codec_inj [OF c, of "?z a" "?z b"] a b by (auto simp: canonical_signing_input_def canonicalize_def)
  also have "\<dots> \<longleftrightarrow> b\<lparr>at_signature := at_signature a\<rparr> = a" by (cases a; cases b) auto
  finally show ?thesis using sign_verify [OF cr] by (simp add: sign_with_def)
qed

theorem attestation_signature_exact_witness:
  "let a = \<lparr>at_version = 1, at_job_id = replicate 16 1, at_commit = replicate 32 2, at_runner_id = 9,
         at_result = APass, at_environment_hash = replicate 32 3, at_artifact_hash = replicate 32 4,
         at_timestamp_unix_ns = 5, at_signature = replicate 64 0\<rparr>
   in canonical_signing_input toy_att_codec a \<noteq> canonical_signing_input toy_att_codec (a\<lparr>at_result := AFail\<rparr>)"
  unfolding Let_def
  by (subst attestation_signature_exact [OF toy_crypto_ok toy_att_codec_ok, THEN conjunct2, THEN conjunct2])
    (simp_all add: att_wf_def)

end
