(* ===== verification/Sharding.thy ===== *)
theory Sharding
  imports Prelude
begin

text \<open>
  The runner registry, the sharded store and the store with incremental handoff
  (\<open>cosaci-state/src/registry.rs\<close>, \<open>sharding.rs\<close>, \<open>sharding_handoff.rs\<close>). All three
  promise the contract of the locale \<open>kv_store\<close>: a key-value map whose reorganisations
  are invisible to its clients. A store never has an empty list of shards, so the
  assertion of \<open>shard_of\<close> cannot fire inside a store; the constructors and the
  rebalancing operations return \<open>None\<close> where the code panics.
\<close>

unbundle bit_operations_syntax

section \<open>The contract\<close>

datatype ('k, 'v, 'h) kv_call = Put 'k 'v | Remove 'k | Hidden 'h

fun kv_spec :: "('k, 'v, 'h) kv_call \<Rightarrow> ('k \<Rightarrow> 'v option) \<Rightarrow> ('k \<Rightarrow> 'v option)" where
  "kv_spec (Put k v) m = m(k \<mapsto> v)"
| "kv_spec (Remove k) m = m(k := None)"
| "kv_spec (Hidden h) m = m"

locale kv_store =
  fixes get :: "'s \<Rightarrow> 'k \<Rightarrow> 'v option"
    and put :: "'k \<Rightarrow> 'v \<Rightarrow> 's \<Rightarrow> 's"
    and remove :: "'k \<Rightarrow> 's \<Rightarrow> 's"
    and hidden :: "'h \<Rightarrow> 's \<Rightarrow> 's"
    and ok :: "'s \<Rightarrow> bool"
  assumes put_ok: "ok s \<Longrightarrow> ok (put k v s)"
    and remove_ok: "ok s \<Longrightarrow> ok (remove k s)"
    and hidden_ok: "ok s \<Longrightarrow> ok (hidden h s)"
    and get_put: "ok s \<Longrightarrow> get (put k v s) j = (if j = k then Some v else get s j)"
    and get_remove: "ok s \<Longrightarrow> get (remove k s) j = (if j = k then None else get s j)"
    and get_hidden: "ok s \<Longrightarrow> get (hidden h s) j = get s j"
begin

fun call :: "('k, 'v, 'h) kv_call \<Rightarrow> 's \<Rightarrow> 's" where
  "call (Put k v) s = put k v s"
| "call (Remove k) s = remove k s"
| "call (Hidden h) s = hidden h s"

lemma call_ok: "ok s \<Longrightarrow> ok (call c s)"
  by (cases c) (simp_all add: put_ok remove_ok hidden_ok)

lemma call_spec: "ok s \<Longrightarrow> get (call c s) = kv_spec c (get s)"
  by (cases c) (auto simp: get_put get_remove get_hidden)

lemma run_refines:
  "ok s \<Longrightarrow> ok (fold call cs s) \<and> get (fold call cs s) = fold kv_spec cs (get s)"
  by (induction cs arbitrary: s) (simp_all add: call_ok call_spec)

end

section \<open>Runner registry\<close>

record runner_info =
  ri_pubkey :: bytes
  ri_stake :: u64

record registry =
  rg_runners :: "(u64, runner_info) hmap"

definition reg_new :: registry where
  "reg_new = \<lparr>rg_runners = []\<rparr>"

definition reg_register :: "u64 \<Rightarrow> runner_info \<Rightarrow> registry \<Rightarrow> registry" where
  "reg_register i info r = r\<lparr>rg_runners := hm_insert i info (rg_runners r)\<rparr>"

definition reg_deregister :: "u64 \<Rightarrow> registry \<Rightarrow> registry" where
  "reg_deregister i r = r\<lparr>rg_runners := hm_remove i (rg_runners r)\<rparr>"

definition reg_lookup :: "registry \<Rightarrow> u64 \<Rightarrow> runner_info option" where
  "reg_lookup r i = hm_get (rg_runners r) i"

definition reg_is_registered :: "registry \<Rightarrow> u64 \<Rightarrow> bool" where
  "reg_is_registered r i = hm_contains (rg_runners r) i"

definition reg_len :: "registry \<Rightarrow> nat" where
  "reg_len r = length (rg_runners r)"

definition reg_is_empty :: "registry \<Rightarrow> bool" where
  "reg_is_empty r \<longleftrightarrow> rg_runners r = []"

definition reg_ids :: "registry \<Rightarrow> u64 list" where
  "reg_ids r = map fst (rg_runners r)"

section \<open>Sharded store\<close>

type_synonym shard = "(u64, u64) hmap"

definition shard_hash :: "u64 \<Rightarrow> u64" where
  "shard_hash key =
     (let h = 0xcbf29ce484222325 XOR key;
          h = h * 0x00000100000001b3;
          h = h XOR drop_bit 33 h;
          h = h * 0xff51afd7ed558ccd
      in h XOR drop_bit 33 h)"

definition shard_index :: "u64 \<Rightarrow> nat \<Rightarrow> nat" where
  "shard_index key n_shards = unat (shard_hash key) mod n_shards"

definition shard_of :: "u64 \<Rightarrow> nat \<Rightarrow> nat option" where
  "shard_of key n_shards = (if n_shards = 0 then None else Some (shard_index key n_shards))"

definition fresh_shards :: "nat \<Rightarrow> shard list" where
  "fresh_shards n = replicate n []"

text \<open>Insertion, lookup and removal in the shard that owns the key, which both stores do
  inline.\<close>

definition shards_insert :: "u64 \<Rightarrow> u64 \<Rightarrow> shard list \<Rightarrow> shard list" where
  "shards_insert k v ss = (let idx = shard_index k (length ss) in ss[idx := hm_insert k v (ss ! idx)])"

definition shards_get :: "shard list \<Rightarrow> u64 \<Rightarrow> u64 option" where
  "shards_get ss k = hm_get (ss ! shard_index k (length ss)) k"

definition shards_remove :: "u64 \<Rightarrow> shard list \<Rightarrow> shard list" where
  "shards_remove k ss = (let idx = shard_index k (length ss) in ss[idx := hm_remove k (ss ! idx)])"

definition shards_len :: "shard list \<Rightarrow> nat" where
  "shards_len ss = (\<Sum>s\<leftarrow>ss. length s)"

record sharded_store =
  ss_shards :: "shard list"

definition ss_new :: "nat \<Rightarrow> sharded_store option" where
  "ss_new n_shards = (if n_shards = 0 then None else Some \<lparr>ss_shards = fresh_shards n_shards\<rparr>)"

definition ss_n_shards :: "sharded_store \<Rightarrow> nat" where
  "ss_n_shards s = length (ss_shards s)"

definition ss_len :: "sharded_store \<Rightarrow> nat" where
  "ss_len s = shards_len (ss_shards s)"

definition ss_is_empty :: "sharded_store \<Rightarrow> bool" where
  "ss_is_empty s \<longleftrightarrow> ss_len s = 0"

definition ss_put :: "u64 \<Rightarrow> u64 \<Rightarrow> sharded_store \<Rightarrow> sharded_store" where
  "ss_put k v s = s\<lparr>ss_shards := shards_insert k v (ss_shards s)\<rparr>"

definition ss_get :: "sharded_store \<Rightarrow> u64 \<Rightarrow> u64 option" where
  "ss_get s k = shards_get (ss_shards s) k"

definition ss_remove :: "u64 \<Rightarrow> sharded_store \<Rightarrow> sharded_store \<times> u64 option" where
  "ss_remove k s = (s\<lparr>ss_shards := shards_remove k (ss_shards s)\<rparr>, shards_get (ss_shards s) k)"

definition ss_contains_key :: "sharded_store \<Rightarrow> u64 \<Rightarrow> bool" where
  "ss_contains_key s k \<longleftrightarrow> ss_get s k \<noteq> None"

definition ss_shard_load :: "sharded_store \<Rightarrow> nat \<Rightarrow> nat option" where
  "ss_shard_load s idx = (if idx < length (ss_shards s) then Some (length (ss_shards s ! idx)) else None)"

definition ss_all_keys :: "sharded_store \<Rightarrow> u64 list" where
  "ss_all_keys s = concat (map (map fst) (ss_shards s))"

definition ss_rebalance :: "nat \<Rightarrow> sharded_store \<Rightarrow> sharded_store option" where
  "ss_rebalance new_n s =
     (if new_n = 0 then None
      else Some (s\<lparr>ss_shards := fold (\<lambda>(k, v). shards_insert k v) (concat (ss_shards s)) (fresh_shards new_n)\<rparr>))"

section \<open>Store with incremental handoff\<close>

record handoff_store =
  hs_new_shards :: "shard list"
  hs_old_shards :: "shard list option"

definition hs_new :: "nat \<Rightarrow> handoff_store option" where
  "hs_new n_shards =
     (if n_shards = 0 then None else Some \<lparr>hs_new_shards = fresh_shards n_shards, hs_old_shards = None\<rparr>)"

definition hs_is_migrating :: "handoff_store \<Rightarrow> bool" where
  "hs_is_migrating s \<longleftrightarrow> hs_old_shards s \<noteq> None"

definition hs_n_shards :: "handoff_store \<Rightarrow> nat" where
  "hs_n_shards s = length (hs_new_shards s)"

definition hs_put :: "u64 \<Rightarrow> u64 \<Rightarrow> handoff_store \<Rightarrow> handoff_store" where
  "hs_put k v s = s\<lparr>hs_new_shards := shards_insert k v (hs_new_shards s),
     hs_old_shards := map_option (shards_remove k) (hs_old_shards s)\<rparr>"

definition hs_get :: "handoff_store \<Rightarrow> u64 \<Rightarrow> u64 option" where
  "hs_get s k =
     (case shards_get (hs_new_shards s) k of Some v \<Rightarrow> Some v
      | None \<Rightarrow> (case hs_old_shards s of None \<Rightarrow> None | Some old \<Rightarrow> shards_get old k))"

definition hs_remove :: "u64 \<Rightarrow> handoff_store \<Rightarrow> handoff_store \<times> u64 option" where
  "hs_remove k s =
     (let from_new = shards_get (hs_new_shards s) k;
          from_old = (case hs_old_shards s of None \<Rightarrow> None | Some old \<Rightarrow> shards_get old k)
      in (s\<lparr>hs_new_shards := shards_remove k (hs_new_shards s),
            hs_old_shards := map_option (shards_remove k) (hs_old_shards s)\<rparr>,
          case from_new of Some v \<Rightarrow> Some v | None \<Rightarrow> from_old))"

definition hs_begin_rebalance :: "nat \<Rightarrow> handoff_store \<Rightarrow> handoff_store option" where
  "hs_begin_rebalance new_n s =
     (if new_n = 0 \<or> hs_old_shards s \<noteq> None then None
      else Some (s\<lparr>hs_new_shards := fresh_shards new_n, hs_old_shards := Some (hs_new_shards s)\<rparr>))"

definition hs_migrate_step :: "u64 \<Rightarrow> handoff_store \<Rightarrow> handoff_store \<times> bool" where
  "hs_migrate_step k s =
     (case hs_old_shards s of None \<Rightarrow> (s, False)
      | Some old \<Rightarrow> (case shards_get old k of None \<Rightarrow> (s, False)
          | Some v \<Rightarrow> (s\<lparr>hs_new_shards := shards_insert k v (hs_new_shards s),
              hs_old_shards := Some (shards_remove k old)\<rparr>, True)))"

definition hs_complete_rebalance :: "handoff_store \<Rightarrow> handoff_store" where
  "hs_complete_rebalance s =
     (case hs_old_shards s of None \<Rightarrow> s
      | Some old \<Rightarrow> s\<lparr>hs_new_shards := fold (\<lambda>(k, v). shards_insert k v) (concat old) (hs_new_shards s),
          hs_old_shards := None\<rparr>)"

definition hs_len :: "handoff_store \<Rightarrow> nat" where
  "hs_len s = shards_len (hs_new_shards s) + (case hs_old_shards s of None \<Rightarrow> 0 | Some old \<Rightarrow> shards_len old)"

definition hs_is_empty :: "handoff_store \<Rightarrow> bool" where
  "hs_is_empty s \<longleftrightarrow> hs_len s = 0"

section \<open>Ownership\<close>

text \<open>Every key is in the one shard that owns it.\<close>

definition shards_inv :: "shard list \<Rightarrow> bool" where
  "shards_inv ss \<longleftrightarrow> ss \<noteq> [] \<and>
     (\<forall>i<length ss. hm_wf (ss ! i) \<and> (\<forall>k. hm_get (ss ! i) k \<noteq> None \<longrightarrow> shard_index k (length ss) = i))"

lemma shard_index_lt [simp]: "ss \<noteq> [] \<Longrightarrow> shard_index k (length ss) < length ss"
  by (simp add: shard_index_def)

lemma shards_inv_fresh: "0 < n \<Longrightarrow> shards_inv (fresh_shards n)"
  by (simp add: shards_inv_def fresh_shards_def)

lemma shards_get_fresh: "0 < n \<Longrightarrow> shards_get (fresh_shards n) k = None"
  by (simp add: shards_get_def fresh_shards_def shard_index_def)

lemma shards_inv_insert:
  assumes "shards_inv ss" shows "shards_inv (shards_insert k v ss)"
  using assms by (auto simp: shards_inv_def shards_insert_def Let_def nth_list_update hm_simps split: if_splits)

lemma shards_inv_remove:
  assumes "shards_inv ss" shows "shards_inv (shards_remove k ss)"
  using assms by (auto simp: shards_inv_def shards_remove_def Let_def nth_list_update hm_simps split: if_splits)

lemma shards_get_insert:
  assumes "shards_inv ss"
  shows "shards_get (shards_insert k v ss) j = (if j = k then Some v else shards_get ss j)"
  using assms by (auto simp: shards_inv_def shards_get_def shards_insert_def Let_def nth_list_update hm_simps)

lemma shards_get_remove:
  assumes "shards_inv ss"
  shows "shards_get (shards_remove k ss) j = (if j = k then None else shards_get ss j)"
  using assms by (auto simp: shards_inv_def shards_get_def shards_remove_def Let_def nth_list_update hm_simps)

lemma in_concat_nth: "x \<in> set (concat xss) \<longleftrightarrow> (\<exists>i<length xss. x \<in> set (xss ! i))"
  using list_ex_length [of "\<lambda>ys. x \<in> set ys" xss] by (simp add: list_ex_iff)

lemma distinct_concat_disjoint:
  "(\<forall>i<length xss. distinct (xss ! i)) \<Longrightarrow>
   (\<forall>i<length xss. \<forall>j<length xss. i \<noteq> j \<longrightarrow> set (xss ! i) \<inter> set (xss ! j) = {}) \<Longrightarrow> distinct (concat xss)"
proof (induction xss)
  case (Cons xs xss)
  have "distinct (concat xss)"
  proof (rule Cons.IH)
    show "\<forall>i<length xss. distinct (xss ! i)" using Cons.prems(1) by auto
    show "\<forall>i<length xss. \<forall>j<length xss. i \<noteq> j \<longrightarrow> set (xss ! i) \<inter> set (xss ! j) = {}"
    proof (intro allI impI)
      fix i j assume "i < length xss" "j < length xss" "i \<noteq> j"
      then show "set (xss ! i) \<inter> set (xss ! j) = {}" using Cons.prems(2) [rule_format, of "Suc i" "Suc j"] by simp
    qed
  qed
  moreover have "set xs \<inter> set (concat xss) = {}"
  proof (rule ccontr)
    assume "set xs \<inter> set (concat xss) \<noteq> {}"
    then obtain x j where "x \<in> set xs" "j < length xss" "x \<in> set (xss ! j)"
      unfolding disjoint_iff in_concat_nth by auto
    then show False using Cons.prems(2) [rule_format, of 0 "Suc j"] by auto
  qed
  ultimately show ?case using Cons.prems(1) by auto
qed simp

lemma shards_owner:
  assumes "shards_inv ss" "i < length ss"
  shows "(k, v) \<in> set (ss ! i) \<longleftrightarrow> i = shard_index k (length ss) \<and> shards_get ss k = Some v"
proof -
  have w: "hm_wf (ss ! i)" using assms by (simp add: shards_inv_def)
  have own: "hm_get (ss ! i) k = Some v \<Longrightarrow> shard_index k (length ss) = i" using assms by (auto simp: shards_inv_def)
  have "(k, v) \<in> set (ss ! i) \<longleftrightarrow> hm_get (ss ! i) k = Some v" using w by (simp add: hm_wf_def)
  then show ?thesis using own by (auto simp: shards_get_def)
qed

lemma shards_wf_concat:
  assumes inv: "shards_inv ss" shows "hm_wf (concat ss)"
proof -
  have disj: "set (map fst (ss ! i)) \<inter> set (map fst (ss ! j)) = {}" if "i < length ss" "j < length ss" "i \<noteq> j" for i j
    using that shards_owner [OF inv] by auto
  have "distinct (concat (map (map fst) ss))"
    by (rule distinct_concat_disjoint) (use inv disj in \<open>auto simp: shards_inv_def hm_wf_def simp del: set_map\<close>)
  then show ?thesis by (simp add: hm_wf_def map_concat)
qed

lemma shards_get_concat:
  assumes inv: "shards_inv ss" shows "hm_get (concat ss) k = shards_get ss k"
proof -
  have ne: "ss \<noteq> []" using inv by (simp add: shards_inv_def)
  have "hm_get (concat ss) k = Some v \<longleftrightarrow> shards_get ss k = Some v" for v
  proof -
    have "hm_get (concat ss) k = Some v \<longleftrightarrow> (k, v) \<in> set (concat ss)"
      using shards_wf_concat [OF inv] by (simp add: hm_wf_def)
    also have "\<dots> \<longleftrightarrow> (\<exists>i<length ss. (k, v) \<in> set (ss ! i))" by (rule in_concat_nth)
    also have "\<dots> \<longleftrightarrow> shards_get ss k = Some v" using shards_owner [OF inv, of _ k v] shard_index_lt [OF ne, of k] by blast
    finally show ?thesis .
  qed
  then show ?thesis by (metis option.exhaust)
qed

lemma shards_len_card: "shards_inv ss \<Longrightarrow> shards_len ss = card {k. shards_get ss k \<noteq> None}"
proof -
  assume inv: "shards_inv ss"
  have "shards_len ss = length (map fst (concat ss))" by (simp add: shards_len_def length_concat)
  also have "\<dots> = card (set (map fst (concat ss)))"
    using shards_wf_concat [OF inv] by (simp only: hm_wf_def distinct_card)
  also have "set (map fst (concat ss)) = {k. hm_get (concat ss) k \<noteq> None}"
    by (simp add: map_of_eq_None_iff)
  finally show ?thesis using shards_get_concat [OF inv] by simp
qed

lemma shards_insert_all:
  "shards_inv ss \<Longrightarrow> hm_wf xs \<Longrightarrow>
    shards_inv (fold (\<lambda>(k, v). shards_insert k v) xs ss) \<and>
    shards_get (fold (\<lambda>(k, v). shards_insert k v) xs ss) j =
      (case hm_get xs j of None \<Rightarrow> shards_get ss j | Some v \<Rightarrow> Some v)"
proof (induction xs arbitrary: ss)
  case (Cons x xs)
  obtain k v where x: "x = (k, v)" by (cases x)
  have fresh: "hm_get xs k = None" "hm_wf xs" using Cons.prems(2) x by (simp_all add: hm_wf_def map_of_eq_None_iff)
  show ?case using Cons.IH [OF shards_inv_insert [OF Cons.prems(1)] fresh(2), of k v] fresh(1)
    by (auto simp: x shards_get_insert [OF Cons.prems(1)] split: option.split)
qed simp

section \<open>The stores keep the contract\<close>

definition reg_ok :: "registry \<Rightarrow> bool" where
  "reg_ok r \<longleftrightarrow> hm_wf (rg_runners r)"

interpretation registry_kv: kv_store reg_lookup reg_register reg_deregister "\<lambda>(_ :: unit) r. r" reg_ok
  by unfold_locales (simp_all add: reg_lookup_def reg_register_def reg_deregister_def reg_ok_def hm_simps)

definition ss_inv :: "sharded_store \<Rightarrow> bool" where
  "ss_inv s \<longleftrightarrow> shards_inv (ss_shards s)"

text \<open>A rebalancing call that would panic is one the caller does not make.\<close>

definition ss_hidden :: "nat \<Rightarrow> sharded_store \<Rightarrow> sharded_store" where
  "ss_hidden n s = (case ss_rebalance n s of None \<Rightarrow> s | Some s' \<Rightarrow> s')"

lemma ss_rebalance_inv:
  assumes inv: "ss_inv s" and r: "ss_rebalance n s = Some s'"
  shows "ss_inv s' \<and> ss_get s' k = ss_get s k \<and> ss_n_shards s' = n"
proof -
  have n: "0 < n" and s': "ss_shards s' = fold (\<lambda>(k, v). shards_insert k v) (concat (ss_shards s)) (fresh_shards n)"
    using r by (auto simp: ss_rebalance_def split: if_splits)
  have len: "length (fold (\<lambda>(k, v). shards_insert k v) xs ss) = length ss" for xs ss
    by (induction xs arbitrary: ss) (auto simp: shards_insert_def Let_def)
  have fresh: "length (fresh_shards n) = n" by (simp add: fresh_shards_def)
  from inv have i: "shards_inv (ss_shards s)" by (simp add: ss_inv_def)
  from shards_insert_all [OF shards_inv_fresh [OF n] shards_wf_concat [OF i], of k] shards_get_concat [OF i, of k]
    shards_get_fresh [OF n, of k]
  show ?thesis by (simp add: ss_inv_def ss_get_def ss_n_shards_def s' len fresh split: option.splits)
qed

interpretation sharded_kv: kv_store ss_get ss_put "\<lambda>k s. fst (ss_remove k s)" ss_hidden ss_inv
proof unfold_locales
  fix s k v j h
  assume inv: "ss_inv s"
  then have i: "shards_inv (ss_shards s)" by (simp add: ss_inv_def)
  show "ss_inv (ss_put k v s)" "ss_inv (fst (ss_remove k s))"
    using i by (simp_all add: ss_inv_def ss_put_def ss_remove_def shards_inv_insert shards_inv_remove)
  show "ss_get (ss_put k v s) j = (if j = k then Some v else ss_get s j)"
    "ss_get (fst (ss_remove k s)) j = (if j = k then None else ss_get s j)"
    using i by (simp_all add: ss_get_def ss_put_def ss_remove_def shards_get_insert shards_get_remove)
  show "ss_inv (ss_hidden h s)" "ss_get (ss_hidden h s) j = ss_get s j"
    using inv ss_rebalance_inv [OF inv] by (auto simp: ss_hidden_def split: option.split)
qed

definition hs_inv :: "handoff_store \<Rightarrow> bool" where
  "hs_inv s \<longleftrightarrow> shards_inv (hs_new_shards s) \<and>
     (case hs_old_shards s of None \<Rightarrow> True
      | Some old \<Rightarrow> shards_inv old \<and> (\<forall>k. shards_get (hs_new_shards s) k \<noteq> None \<longrightarrow> shards_get old k = None))"

datatype handoff_call = Begin nat | Migrate u64 | Complete

fun hs_hidden :: "handoff_call \<Rightarrow> handoff_store \<Rightarrow> handoff_store" where
  "hs_hidden (Begin n) s = (case hs_begin_rebalance n s of None \<Rightarrow> s | Some s' \<Rightarrow> s')"
| "hs_hidden (Migrate k) s = fst (hs_migrate_step k s)"
| "hs_hidden Complete s = hs_complete_rebalance s"

lemmas hs_defs = hs_put_def hs_get_def hs_remove_def hs_begin_rebalance_def hs_migrate_step_def
  hs_complete_rebalance_def hs_inv_def

lemmas shards_laws = shards_inv_insert shards_inv_remove shards_get_insert shards_get_remove
  shards_inv_fresh shards_get_fresh

lemma hs_begin_inv:
  "hs_inv s \<Longrightarrow> hs_begin_rebalance n s = Some s' \<Longrightarrow> hs_inv s' \<and> hs_get s' j = hs_get s j"
  by (auto simp: hs_defs shards_laws split: if_splits option.splits)

lemma hs_migrate_inv: "hs_inv s \<Longrightarrow> hs_inv (fst (hs_migrate_step k s)) \<and> hs_get (fst (hs_migrate_step k s)) j = hs_get s j"
  by (auto simp: hs_defs shards_laws split: if_splits option.splits)

lemma hs_complete_inv:
  assumes "hs_inv s"
  shows "hs_inv (hs_complete_rebalance s) \<and> hs_get (hs_complete_rebalance s) j = hs_get s j"
proof (cases "hs_old_shards s")
  case None
  then show ?thesis using assms by (simp add: hs_complete_rebalance_def)
next
  case (Some old)
  have i: "shards_inv (hs_new_shards s)" "shards_inv old"
    and d: "shards_get (hs_new_shards s) j \<noteq> None \<Longrightarrow> shards_get old j = None"
    using assms Some by (auto simp: hs_inv_def)
  from shards_insert_all [OF i(1) shards_wf_concat [OF i(2)], of j] shards_get_concat [OF i(2), of j]
  show ?thesis using Some d by (auto simp: hs_defs split: option.splits)
qed

interpretation handoff_kv: kv_store hs_get hs_put "\<lambda>k s. fst (hs_remove k s)" hs_hidden hs_inv
proof unfold_locales
  fix s k v j h
  assume inv: "hs_inv s"
  then show "hs_inv (hs_put k v s)" "hs_inv (fst (hs_remove k s))"
    "hs_get (hs_put k v s) j = (if j = k then Some v else hs_get s j)"
    "hs_get (fst (hs_remove k s)) j = (if j = k then None else hs_get s j)"
    by (auto simp: hs_defs Let_def shards_laws split: option.splits)
  show "hs_inv (hs_hidden h s)" "hs_get (hs_hidden h s) j = hs_get s j"
    using inv hs_begin_inv hs_migrate_inv hs_complete_inv
    by (cases h; auto split: option.split)+
qed

lemma hs_len_card:
  assumes "hs_inv s" shows "hs_len s = card {k. hs_get s k \<noteq> None}"
proof (cases "hs_old_shards s")
  case None
  then show ?thesis using assms shards_len_card [of "hs_new_shards s"]
    by (auto simp: hs_len_def hs_get_def hs_inv_def split: option.splits)
next
  case (Some old)
  let ?N = "{k. shards_get (hs_new_shards s) k \<noteq> None}" and ?O = "{k. shards_get old k \<noteq> None}"
  have i: "shards_inv (hs_new_shards s)" "shards_inv old" "?N \<inter> ?O = {}" using assms Some by (auto simp: hs_inv_def)
  have "{k. hs_get s k \<noteq> None} = ?N \<union> ?O" using Some by (auto simp: hs_get_def split: option.splits)
  moreover have "finite ?N" "finite ?O" by (rule finite_subset [OF subset_UNIV]; simp)+
  ultimately show ?thesis using Some i by (simp add: hs_len_def shards_len_card card_Un_disjoint)
qed

section \<open>Properties\<close>

text \<open>the sharded store is a map, whatever its shard count: after any sequence of puts,
  removes and rebalances to any shard counts, a lookup returns what a plain map would, every
  held key is in the one shard that \<open>shard_of\<close> names for it and in no other, the shard
  list is not empty, and the length is the number of keys held.\<close>

theorem sharded_store_refines_map:
  assumes "ss_new n = Some s0"
  shows "let s = fold sharded_kv.call cs s0 in
    ss_get s = fold kv_spec cs (\<lambda>_. None) \<and> 0 < ss_n_shards s \<and>
    (\<forall>i k. i < ss_n_shards s \<longrightarrow> (hm_contains (ss_shards s ! i) k \<longleftrightarrow>
       shard_of k (ss_n_shards s) = Some i \<and> ss_contains_key s k)) \<and>
    ss_len s = card {k. ss_contains_key s k}"
proof -
  have n: "0 < n" and s0: "s0 = \<lparr>ss_shards = fresh_shards n\<rparr>" using assms by (auto simp: ss_new_def split: if_splits)
  have i0: "ss_inv s0" and g0: "ss_get s0 = (\<lambda>_. None)"
    using n by (auto simp: s0 ss_inv_def ss_get_def shards_inv_fresh shards_get_fresh)
  let ?s = "fold sharded_kv.call cs s0"
  from sharded_kv.run_refines [OF i0, of cs] g0
  have inv: "ss_inv ?s" and get: "ss_get ?s = fold kv_spec cs (\<lambda>_. None)" by auto
  then have si: "shards_inv (ss_shards ?s)" by (simp add: ss_inv_def)
  then have ne: "0 < ss_n_shards ?s" by (simp add: shards_inv_def ss_n_shards_def)
  have "hm_contains (ss_shards ?s ! i) k \<longleftrightarrow> shard_of k (ss_n_shards ?s) = Some i \<and> ss_contains_key ?s k"
    if "i < ss_n_shards ?s" for i k
  proof -
    have "hm_contains (ss_shards ?s ! i) k \<longleftrightarrow> (\<exists>v. (k, v) \<in> set (ss_shards ?s ! i))"
      by (force simp: hm_contains_iff_dom)
    then show ?thesis using shards_owner [OF si, of i k] that ne
      by (auto simp: shard_of_def ss_contains_key_def ss_get_def ss_n_shards_def)
  qed
  moreover have "ss_len ?s = card {k. ss_contains_key ?s k}"
    using shards_len_card [OF si] by (simp add: ss_len_def ss_contains_key_def ss_get_def)
  ultimately show ?thesis using get ne by (simp add: Let_def)
qed

theorem sharded_store_refines_map_witness:
  "let s = fold sharded_kv.call [Put 1 10, Hidden 5, Put 2 20, Remove 1] \<lparr>ss_shards = fresh_shards 3\<rparr>
   in ss_get s 2 = Some 20 \<and> ss_get s 1 = None"
proof -
  have "ss_new 3 = Some \<lparr>ss_shards = fresh_shards 3\<rparr>" by (simp add: ss_new_def)
  from sharded_store_refines_map [OF this, of "[Put 1 10, Hidden 5, Put 2 20, Remove 1]"]
  show ?thesis unfolding Let_def by simp
qed

text \<open>C24: incremental handoff is invisible: however puts and removes interleave with beginning
  a rebalance, migrating single keys and completing it, a lookup returns what a plain map
  would, so no key is ever lost or resurrected, each key is held once, and a removal
  reports the value that a lookup would have returned.\<close>

theorem handoff_refines_map:
  assumes "hs_new n = Some s0"
  shows "let s = fold handoff_kv.call cs s0 in
    hs_get s = fold kv_spec cs (\<lambda>_. None) \<and> hs_len s = card {k. hs_get s k \<noteq> None} \<and>
    snd (hs_remove k s) = hs_get s k"
proof -
  have n: "0 < n" and s0: "s0 = \<lparr>hs_new_shards = fresh_shards n, hs_old_shards = None\<rparr>"
    using assms by (auto simp: hs_new_def split: if_splits)
  have "hs_inv s0" "hs_get s0 = (\<lambda>_. None)" using n by (auto simp: s0 hs_defs shards_laws)
  from handoff_kv.run_refines [OF this(1), of cs] this(2)
  have inv: "hs_inv (fold handoff_kv.call cs s0)" and get: "hs_get (fold handoff_kv.call cs s0) = fold kv_spec cs (\<lambda>_. None)"
    by auto
  have "snd (hs_remove k s) = hs_get s k" for s by (simp add: hs_remove_def hs_get_def Let_def)
  then show ?thesis using get hs_len_card [OF inv] by (simp add: Let_def)
qed

theorem handoff_refines_map_witness:
  "let s = fold handoff_kv.call [Put 1 10, Hidden (Begin 5), Put 2 20, Hidden (Migrate 1), Put 3 30, Remove 2,
       Hidden Complete] \<lparr>hs_new_shards = fresh_shards 3, hs_old_shards = None\<rparr>
   in hs_get s 1 = Some 10 \<and> hs_get s 2 = None"
proof -
  have "hs_new 3 = Some \<lparr>hs_new_shards = fresh_shards 3, hs_old_shards = None\<rparr>" by (simp add: hs_new_def)
  from handoff_refines_map [OF this, of "[Put 1 10, Hidden (Begin 5), Put 2 20, Hidden (Migrate 1), Put 3 30,
      Remove 2, Hidden Complete]"]
  show ?thesis unfolding Let_def by simp
qed

lemma registry_refines_map:
  "reg_lookup (fold registry_kv.call cs reg_new) = fold kv_spec cs (\<lambda>_. None) \<and>
   reg_len (fold registry_kv.call cs reg_new) = card (set (reg_ids (fold registry_kv.call cs reg_new)))"
proof -
  have o: "reg_ok reg_new" and e: "reg_lookup reg_new = (\<lambda>_. None)" by (auto simp: reg_ok_def reg_new_def reg_lookup_def)
  from registry_kv.run_refines [OF o, of cs] e have r: "reg_ok (fold registry_kv.call cs reg_new)"
    "reg_lookup (fold registry_kv.call cs reg_new) = fold kv_spec cs (\<lambda>_. None)" by auto
  then show ?thesis using distinct_card [of "map fst (rg_runners (fold registry_kv.call cs reg_new))"]
    by (simp add: reg_ok_def hm_wf_def reg_len_def reg_ids_def)
qed

end
