(* ===== verification/Utf8.thy ===== *)
theory Utf8
  imports Text_Format
begin

text \<open>
  UTF-8 as Rust's \<open>str::from_utf8\<close> and \<open>String::from_utf8_lossy\<close> see it: validity,
  and the conversion that puts the replacement character (bytes EF BF BD) for each
  maximal prefix of an ill-formed sequence.
\<close>

definition cont_byte :: "u8 \<Rightarrow> bool" where
  "cont_byte b \<longleftrightarrow> 0x80 \<le> b \<and> b \<le> 0xBF"

fun utf8_valid :: "bytes \<Rightarrow> bool" where
  "utf8_valid [] = True"
| "utf8_valid (a # s) =
     (if a < 0x80 then utf8_valid s
      else if 0xC2 \<le> a \<and> a \<le> 0xDF then (case s of b # s' \<Rightarrow> cont_byte b \<and> utf8_valid s' | [] \<Rightarrow> False)
      else if 0xE0 \<le> a \<and> a \<le> 0xEF then
        (case s of b # c # s' \<Rightarrow> (a = 0xE0 \<longrightarrow> 0xA0 \<le> b) \<and> (a = 0xED \<longrightarrow> b \<le> 0x9F) \<and>
            cont_byte b \<and> cont_byte c \<and> utf8_valid s' | _ \<Rightarrow> False)
      else if 0xF0 \<le> a \<and> a \<le> 0xF4 then
        (case s of b # c # d # s' \<Rightarrow> (a = 0xF0 \<longrightarrow> 0x90 \<le> b) \<and> (a = 0xF4 \<longrightarrow> b \<le> 0x8F) \<and>
            cont_byte b \<and> cont_byte c \<and> cont_byte d \<and> utf8_valid s' | _ \<Rightarrow> False)
      else False)"

text \<open>The length a lead byte announces (0 for none), and whether the second byte is in the
  range that this lead byte allows.\<close>

definition lead_length :: "u8 \<Rightarrow> nat" where
  "lead_length a = (if a < 0x80 then 1 else if 0xC2 \<le> a \<and> a \<le> 0xDF then 2
     else if 0xE0 \<le> a \<and> a \<le> 0xEF then 3 else if 0xF0 \<le> a \<and> a \<le> 0xF4 then 4 else 0)"

definition second_ok :: "u8 \<Rightarrow> u8 \<Rightarrow> bool" where
  "second_ok a b \<longleftrightarrow> cont_byte b \<and> (a = 0xE0 \<longrightarrow> 0xA0 \<le> b) \<and> (a = 0xED \<longrightarrow> b \<le> 0x9F) \<and>
     (a = 0xF0 \<longrightarrow> 0x90 \<le> b) \<and> (a = 0xF4 \<longrightarrow> b \<le> 0x8F)"

text \<open>How many of the bytes after the lead byte continue it, up to those it announces.\<close>

definition tail_length :: "u8 \<Rightarrow> bytes \<Rightarrow> nat" where
  "tail_length a s = (let n = lead_length a - 1 in
     case s of [] \<Rightarrow> 0 | b # s' \<Rightarrow>
       if n = 0 \<or> \<not> second_ok a b then 0 else 1 + length (takeWhile cont_byte (take (n - 1) s')))"

definition replacement :: bytes where
  "replacement = [0xEF, 0xBF, 0xBD]"

function utf8_lossy :: "bytes \<Rightarrow> bytes" where
  "utf8_lossy [] = []"
| "utf8_lossy (a # s) =
     (let t = tail_length a s in
      (if lead_length a = Suc t then a # take t s else replacement) @ utf8_lossy (drop t s))"
  by pat_completeness auto
termination by (relation "measure length") auto

lemma tail_length_simps:
  "tail_length a [] = 0"
  "tail_length a (b # s) = (if lead_length a \<le> 1 \<or> \<not> second_ok a b then 0
     else 1 + length (takeWhile cont_byte (take (lead_length a - 2) s)))"
  by (auto simp: tail_length_def Let_def numeral_2_eq_2)

lemma lead_cases:
  fixes a :: u8
  obtains "a < 0x80" "lead_length a = 1"
  | "0xC2 \<le> a" "a \<le> 0xDF" "\<not> a < 0x80" "lead_length a = 2"
  | "0xE0 \<le> a" "a \<le> 0xEF" "\<not> a < 0x80" "\<not> (0xC2 \<le> a \<and> a \<le> 0xDF)" "lead_length a = 3"
  | "0xF0 \<le> a" "a \<le> 0xF4" "\<not> a < 0x80" "\<not> (0xC2 \<le> a \<and> a \<le> 0xDF)" "\<not> (0xE0 \<le> a \<and> a \<le> 0xEF)" "lead_length a = 4"
  | "\<not> a < 0x80" "\<not> (0xC2 \<le> a \<and> a \<le> 0xDF)" "\<not> (0xE0 \<le> a \<and> a \<le> 0xEF)" "\<not> (0xF0 \<le> a \<and> a \<le> 0xF4)"
proof -
  consider "a < 0x80" | "\<not> a < 0x80" "0xC2 \<le> a \<and> a \<le> 0xDF"
    | "\<not> a < 0x80" "\<not> (0xC2 \<le> a \<and> a \<le> 0xDF)" "0xE0 \<le> a \<and> a \<le> 0xEF"
    | "\<not> a < 0x80" "\<not> (0xC2 \<le> a \<and> a \<le> 0xDF)" "\<not> (0xE0 \<le> a \<and> a \<le> 0xEF)" "0xF0 \<le> a \<and> a \<le> 0xF4"
    | "\<not> a < 0x80" "\<not> (0xC2 \<le> a \<and> a \<le> 0xDF)" "\<not> (0xE0 \<le> a \<and> a \<le> 0xEF)" "\<not> (0xF0 \<le> a \<and> a \<le> 0xF4)"
    by blast
  then show thesis by cases (simp_all add: lead_length_def that)
qed

text \<open>On well-formed text the lossy conversion changes nothing.\<close>

lemma utf8_lossy_valid: "utf8_valid s \<Longrightarrow> utf8_lossy s = s"
proof (induction s rule: utf8_valid.induct)
  case step: (2 a s)
  show ?case
  proof (cases a rule: lead_cases)
    case 1
    then show ?thesis using step by (cases s) (simp_all add: tail_length_simps)
  next
    case 2
    then show ?thesis using step by (cases s) (auto simp: tail_length_simps second_ok_def)
  next
    case 3
    then have "a \<noteq> 0xF0" "a \<noteq> 0xF4" by auto
    with 3 obtain b c s' where s: "s = b # c # s'" and ok: "second_ok a b" "cont_byte c" "utf8_valid s'"
      using step.prems by (cases s; cases "tl s") (auto simp: second_ok_def)
    then have "tail_length a s = 2" using 3(5) by (simp add: tail_length_simps)
    then show ?thesis using step.IH(3) [OF 3(3) 3(4)] 3 s ok by (simp add: Let_def)
  next
    case 4
    then have "a \<noteq> 0xE0" "a \<noteq> 0xED" by auto
    with 4 obtain b c d s' where s: "s = b # c # d # s'" and ok: "second_ok a b" "cont_byte c" "cont_byte d" "utf8_valid s'"
      using step.prems by (cases s; cases "tl s"; cases "tl (tl s)") (auto simp: second_ok_def)
    then have "tail_length a s = 3" using 4(6) by (simp add: tail_length_simps numeral_2_eq_2)
    then show ?thesis using step.IH(4) [OF 4(3) 4(4) 4(5)] 4 s ok by (simp add: Let_def numeral_3_eq_3)
  qed (use step in auto)
qed simp

end
