(* ===== verification/Journal.thy ===== *)
theory Journal
  imports Tenant Merkle_Log Utf8
begin

text \<open>
  The write-ahead journal (\<open>cosaci-state/src/journal.rs\<close>). Entries are JSON lines; the
  encoder and the parser come from \<open>serde_json\<close> and are the parameter \<open>json\<close>, with
  \<open>json_ok\<close> what that crate and the JSON grammar promise for the journal's entries: a
  round trip, one line per entry that begins and ends with a brace, and no proper prefix of
  an object is an object. What the operating system does to an append is the argument
  \<open>fault\<close>, as for the Merkle log's file.
\<close>

section \<open>Data\<close>

datatype journal_outcome = JPass | JFail | JEscalate | JRetry

datatype journal_entry =
  JobSubmitted (je_job: u64)
| CommitteeSelected (je_job: u64) "u64 list"
| AttestationReceived (je_job: u64) u64
| Aggregated (je_job: u64) journal_outcome bytes
| Anchored (je_job: u64) u64

datatype job_state =
  StSubmitted | StInFlight | StAggregatedNotAnchored journal_outcome bytes | StAnchored u64

record journal_state =
  js_jobs :: "(u64, job_state) hmap"

definition js_new :: journal_state where
  "js_new = \<lparr>js_jobs = []\<rparr>"

fun is_aggregated_not_anchored :: "job_state \<Rightarrow> bool" where
  "is_aggregated_not_anchored (StAggregatedNotAnchored _ _) = True"
| "is_aggregated_not_anchored _ = False"

fun is_anchored :: "job_state \<Rightarrow> bool" where
  "is_anchored (StAnchored _) = True"
| "is_anchored _ = False"

definition pending_re_anchor :: "journal_state \<Rightarrow> u64 list" where
  "pending_re_anchor s = map fst (filter (\<lambda>(_, st). is_aggregated_not_anchored st) (js_jobs s))"

definition pending_re_run :: "journal_state \<Rightarrow> u64 list" where
  "pending_re_run s = map fst (filter (\<lambda>(_, st). st = StSubmitted \<or> st = StInFlight) (js_jobs s))"

definition anchored_jobs :: "journal_state \<Rightarrow> u64 set" where
  "anchored_jobs s = set (map fst (filter (\<lambda>(_, st). is_anchored st) (js_jobs s)))"

section \<open>Reconstruction\<close>

fun apply_entry :: "journal_entry \<Rightarrow> journal_state \<Rightarrow> journal_state" where
  "apply_entry (JobSubmitted j) s = s\<lparr>js_jobs := hm_insert j StSubmitted (js_jobs s)\<rparr>"
| "apply_entry (CommitteeSelected j _) s = s\<lparr>js_jobs := hm_insert j StInFlight (js_jobs s)\<rparr>"
| "apply_entry (AttestationReceived j _) s =
     (if hm_contains (js_jobs s) j then s else s\<lparr>js_jobs := hm_insert j StInFlight (js_jobs s)\<rparr>)"
| "apply_entry (Aggregated j out artifact) s =
     s\<lparr>js_jobs := hm_insert j (StAggregatedNotAnchored out artifact) (js_jobs s)\<rparr>"
| "apply_entry (Anchored j position) s = s\<lparr>js_jobs := hm_insert j (StAnchored position) (js_jobs s)\<rparr>"

definition reconstruct_state :: "journal_entry list \<Rightarrow> journal_state" where
  "reconstruct_state entries = fold apply_entry entries js_new"

section \<open>The file\<close>

record json =
  js_to_vec :: "journal_entry \<Rightarrow> bytes"
  js_from_str :: "bytes \<Rightarrow> journal_entry option"

record journal =
  jn_file :: bytes

definition journal_open :: "bytes option \<Rightarrow> journal" where
  "journal_open content = \<lparr>jn_file = (case content of None \<Rightarrow> [] | Some c \<Rightarrow> c)\<rparr>"

definition journal_append :: "json \<Rightarrow> fault \<Rightarrow> journal_entry \<Rightarrow> journal \<Rightarrow> journal \<times> (file_error + unit)" where
  "journal_append js flt entry jn =
     (let bs = js_to_vec js entry @ [10] in
      case flt of
        ShortWrite n \<Rightarrow> (jn\<lparr>jn_file := jn_file jn @ take n bs\<rparr>, Inl WriteError)
      | SyncFails \<Rightarrow> (jn\<lparr>jn_file := jn_file jn @ bs\<rparr>, Inl SyncError)
      | NoFault \<Rightarrow> (jn\<lparr>jn_file := jn_file jn @ bs\<rparr>, Inr ()))"

text \<open>A line that is not UTF-8 ends the replay with an error.\<close>

definition replay_lines :: "json \<Rightarrow> bytes list \<Rightarrow> journal_entry list" where
  "replay_lines js ls = List.map_filter (\<lambda>l. if trim l = [] then None else js_from_str js (trim l)) ls"

definition journal_replay :: "json \<Rightarrow> bytes option \<Rightarrow> file_error + journal_entry list" where
  "journal_replay js content =
     (case content of None \<Rightarrow> Inr []
      | Some file \<Rightarrow>
          if list_all utf8_valid (lines [] file) then Inr (replay_lines js (lines [] file)) else Inl FileCorrupt)"

section \<open>What the JSON library promises\<close>

fun entry_ascii :: "journal_entry \<Rightarrow> bool" where
  "entry_ascii (Aggregated _ _ artifact) = list_all (\<lambda>b. b < 0x80) artifact"
| "entry_ascii _ = True"

definition json_ok :: "json \<Rightarrow> bool" where
  "json_ok js \<longleftrightarrow> (\<forall>e. entry_ascii e \<longrightarrow>
     js_from_str js (js_to_vec js e) = Some e \<and>
     js_to_vec js e \<noteq> [] \<and> hd (js_to_vec js e) = 0x7B \<and> last (js_to_vec js e) = 0x7D \<and>
     list_all (\<lambda>b. 0x20 \<le> b \<and> b < 0x80) (js_to_vec js e) \<and>
     (\<forall>n<length (js_to_vec js e). js_from_str js (take n (js_to_vec js e)) = None))"

lemma json_okD:
  assumes "json_ok js" "entry_ascii e"
  shows "js_from_str js (js_to_vec js e) = Some e" "js_to_vec js e \<noteq> []"
    "hd (js_to_vec js e) = 0x7B" "last (js_to_vec js e) = 0x7D"
    "list_all (\<lambda>b. 0x20 \<le> b \<and> b < 0x80) (js_to_vec js e)"
    "n < length (js_to_vec js e) \<Longrightarrow> js_from_str js (take n (js_to_vec js e)) = None"
  using assms by (simp_all add: json_ok_def)

lemma brace_not_space [simp]: "\<not> is_space 0x7B" "\<not> is_space 0x7D"
  by (simp_all add: is_space_def)

lemma utf8_valid_ascii: "list_all (\<lambda>b. b < 0x80) s \<Longrightarrow> utf8_valid s"
  by (induction s) simp_all

lemma strip_cr_clean: "13 \<notin> set xs \<Longrightarrow> strip_cr xs = xs"
  by (cases xs) (auto simp: strip_cr_def)

lemma json_line:
  assumes "json_ok js" "entry_ascii e"
  shows "trim (js_to_vec js e) = js_to_vec js e" "10 \<notin> set (js_to_vec js e)" "13 \<notin> set (js_to_vec js e)"
    "list_all (\<lambda>b. b < 0x80) (js_to_vec js e)"
proof -
  note d = json_okD [OF assms]
  show "trim (js_to_vec js e) = js_to_vec js e" by (rule trim_id [OF d(2)]) (simp_all add: d)
  have "\<not> (0x20 :: u8) \<le> 10" "\<not> (0x20 :: u8) \<le> 13" by simp_all
  then show "10 \<notin> set (js_to_vec js e)" "13 \<notin> set (js_to_vec js e)" "list_all (\<lambda>b. b < 0x80) (js_to_vec js e)"
    using d(5) by (auto simp: list_all_iff)
qed

text \<open>What is left of a torn write is a prefix of the line, and so is what \<open>trim\<close> leaves
  of it.\<close>

lemma trim_torn:
  assumes "json_ok js" "entry_ascii e" "n < length (js_to_vec js e)" "0 < n"
  shows "\<exists>m\<le>n. trim (take n (js_to_vec js e)) = take m (js_to_vec js e)"
proof -
  let ?t = "js_to_vec js e"
  have "hd (take n ?t) = 0x7B" "take n ?t \<noteq> []" using json_okD(2,3) [OF assms(1,2)] assms(4) by auto
  then have "dropWhile is_space (take n ?t) = take n ?t" by (cases "take n ?t") simp_all
  then obtain ys where ys: "take n ?t = trim (take n ?t) @ ys" using trim_split [of "take n ?t"] by auto
  let ?m = "length (trim (take n ?t))"
  have m: "?m \<le> n" using arg_cong [OF ys, of length] by simp
  have "take ?m (take n ?t) = trim (take n ?t)" by (subst ys) simp
  then show ?thesis using m by (metis min.absorb1 take_take)
qed

section \<open>Replay of a journal file\<close>

abbreviation journal_text :: "json \<Rightarrow> journal_entry list \<Rightarrow> bytes" where
  "journal_text js es \<equiv> concat (map (\<lambda>e. js_to_vec js e @ [10]) es)"

lemma replay_lines_append: "replay_lines js (xs @ ys) = replay_lines js xs @ replay_lines js ys"
  by (simp add: replay_lines_def List.map_filter_def)

lemma lines_journal:
  assumes "json_ok js" "list_all entry_ascii es"
  shows "lines [] (journal_text js es @ rest) = map (js_to_vec js) es @ lines [] rest"
  using assms(2)
proof (induction es)
  case (Cons e es)
  note j = json_line [OF assms(1), of e]
  have "strip_cr (rev (js_to_vec js e)) = rev (js_to_vec js e)"
    using j(3) Cons.prems by (simp add: strip_cr_clean)
  then have "lines [] (js_to_vec js e @ [10]) = [js_to_vec js e]"
    using lines_one [of "js_to_vec js e" "[]"] j(2) Cons.prems by simp
  then show ?case
    using lines_append_newline [of "[]" "js_to_vec js e" "journal_text js es @ rest"] Cons by simp
qed simp

lemma replay_lines_journal:
  assumes "json_ok js" "list_all entry_ascii es"
  shows "replay_lines js (map (js_to_vec js) es) = es"
  using assms(2)
proof (induction es)
  case (Cons e es)
  then have "replay_lines js [js_to_vec js e] = [e]"
    using json_okD(1,2) [OF assms(1), of e] json_line(1) [OF assms(1), of e]
    by (simp add: replay_lines_def List.map_filter_def)
  then show ?case using Cons replay_lines_append [of js "[js_to_vec js e]" "map (js_to_vec js) es"] by simp
qed (simp add: replay_lines_def List.map_filter_def)

lemma lines_single: "10 \<notin> set xs \<Longrightarrow> lines cur xs = (if cur = [] \<and> xs = [] then [] else [rev cur @ xs])"
  by (induction xs arbitrary: cur) auto

lemma journal_replay_rest:
  assumes "json_ok js" "list_all entry_ascii es" "10 \<notin> set rest" "list_all (\<lambda>b. b < 0x80) rest"
  shows "journal_replay js (Some (journal_text js es @ rest)) = Inr (es @ replay_lines js (if rest = [] then [] else [rest]))"
proof -
  have "list_all utf8_valid (map (js_to_vec js) es)"
    using assms(2) json_line(4) [OF assms(1)] by (auto simp: list_all_iff intro!: utf8_valid_ascii)
  then show ?thesis using assms utf8_valid_ascii [OF assms(4)]
    by (simp add: journal_replay_def lines_journal lines_single replay_lines_append replay_lines_journal)
qed

lemma journal_append_file:
  "jn_file (fst (journal_append js NoFault e jn)) = jn_file jn @ js_to_vec js e @ [10]"
  "jn_file (fst (journal_append js (ShortWrite n) e jn)) = jn_file jn @ take n (js_to_vec js e @ [10])"
  "snd (journal_append js NoFault e jn) = Inr ()"
  by (simp_all add: journal_append_def Let_def)

lemma appends_file:
  "jn_file (fold (\<lambda>e jn. fst (journal_append js NoFault e jn)) es jn) = jn_file jn @ journal_text js es"
  by (induction es arbitrary: jn) (simp_all add: journal_append_file)

text \<open>A line in a file whose last line is torn, and what the next append makes of it.\<close>

lemma replay_torn_line:
  assumes "json_ok js" "entry_ascii e"
  shows "replay_lines js (if take n (js_to_vec js e) = [] then [] else [take n (js_to_vec js e)]) =
    (if length (js_to_vec js e) \<le> n then [e] else [])"
proof (cases "length (js_to_vec js e) \<le> n")
  case True
  then show ?thesis using json_okD(1,2) [OF assms] json_line(1) [OF assms]
    by (simp add: replay_lines_def List.map_filter_def)
next
  case False
  show ?thesis
  proof (cases "n = 0")
    case False
    then obtain m where "m \<le> n" "trim (take n (js_to_vec js e)) = take m (js_to_vec js e)"
      using trim_torn [OF assms, of n] \<open>\<not> length (js_to_vec js e) \<le> n\<close> by (auto simp: not_le)
    then show ?thesis using \<open>\<not> length (js_to_vec js e) \<le> n\<close> json_okD(6) [OF assms, of m]
      by (simp add: replay_lines_def List.map_filter_def)
  qed (use False in \<open>simp add: replay_lines_def List.map_filter_def\<close>)
qed

section \<open>Reconstruction, job by job\<close>

text \<open>The state a job's own entries say it is in: that of the last entry that sets it.\<close>

fun entry_state :: "journal_entry \<Rightarrow> job_state option" where
  "entry_state (JobSubmitted _) = Some StSubmitted"
| "entry_state (CommitteeSelected _ _) = Some StInFlight"
| "entry_state (AttestationReceived _ _) = None"
| "entry_state (Aggregated _ out artifact) = Some (StAggregatedNotAnchored out artifact)"
| "entry_state (Anchored _ position) = Some (StAnchored position)"

definition job_history_state :: "journal_entry list \<Rightarrow> job_state option" where
  "job_history_state es =
     fold (\<lambda>e st. case entry_state e of Some x \<Rightarrow> Some x | None \<Rightarrow> (case st of None \<Rightarrow> Some StInFlight | Some x \<Rightarrow> Some x))
       es None"

definition js_wf :: "journal_state \<Rightarrow> bool" where
  "js_wf s \<longleftrightarrow> hm_wf (js_jobs s)"

lemma js_wf_apply: "js_wf s \<Longrightarrow> js_wf (apply_entry e s)"
  by (cases e) (simp_all add: js_wf_def)

interpretation journal_machine: machine apply_entry js_wf
  by unfold_locales (rule js_wf_apply)

lemma apply_entry_get:
  "hm_get (js_jobs (apply_entry e s)) j =
     (if je_job e = j then (case entry_state e of Some x \<Rightarrow> Some x
        | None \<Rightarrow> (case hm_get (js_jobs s) j of None \<Rightarrow> Some StInFlight | Some x \<Rightarrow> Some x))
      else hm_get (js_jobs s) j)"
  by (cases e) (auto simp: hm_simps hm_contains_def split: option.split)

lemma reconstruct_get:
  "hm_get (js_jobs (reconstruct_state es)) j = job_history_state (filter (\<lambda>e. je_job e = j) es)"
proof -
  have "hm_get (js_jobs (fold apply_entry es s)) j =
      fold (\<lambda>e st. case entry_state e of Some x \<Rightarrow> Some x | None \<Rightarrow> (case st of None \<Rightarrow> Some StInFlight | Some x \<Rightarrow> Some x))
       (filter (\<lambda>e. je_job e = j) es) (hm_get (js_jobs s) j)" for s
    by (induction es arbitrary: s) (simp_all add: apply_entry_get)
  then show ?thesis by (simp add: reconstruct_state_def job_history_state_def js_new_def)
qed

lemma reconstruct_wf: "hm_wf (js_jobs (reconstruct_state es))"
  using journal_machine.run_inv [of js_new es] by (simp add: js_wf_def js_new_def reconstruct_state_def)

lemma keys_filter:
  "hm_wf m \<Longrightarrow> j \<in> set (map fst (filter (\<lambda>(_, v). P v) m)) \<longleftrightarrow> (\<exists>v. hm_get m j = Some v \<and> P v)"
  by (force simp: hm_wf_def image_iff)

section \<open>An instance of the parameter\<close>

text \<open>Tag, job and body in hexadecimal between braces.\<close>

fun toy_payload :: "journal_entry \<Rightarrow> bytes" where
  "toy_payload (JobSubmitted j) = 0 # le_bytes 8 j"
| "toy_payload (CommitteeSelected j c) = 1 # le_bytes 8 j @ concat (map (le_bytes 8) c)"
| "toy_payload (AttestationReceived j r) = 2 # le_bytes 8 j @ le_bytes 8 r"
| "toy_payload (Aggregated j out a) =
     3 # le_bytes 8 j @ (case out of JPass \<Rightarrow> 0 | JFail \<Rightarrow> 1 | JEscalate \<Rightarrow> 2 | JRetry \<Rightarrow> 3) # a"
| "toy_payload (Anchored j p) = 4 # le_bytes 8 j @ le_bytes 8 p"

definition toy_unpayload :: "bytes \<Rightarrow> journal_entry option" where
  "toy_unpayload bs =
     (let j = from_le_bytes (take 8 (tl bs)); rest = drop 8 (tl bs) in
      if bs = [] then None
      else if hd bs = 0 then Some (JobSubmitted j)
      else if hd bs = 1 then Some (CommitteeSelected j (map from_le_bytes (chunks_exact 8 rest)))
      else if hd bs = 2 then Some (AttestationReceived j (from_le_bytes rest))
      else if hd bs = 3 then Some (Aggregated j
        (if hd rest = 0 then JPass else if hd rest = 1 then JFail else if hd rest = 2 then JEscalate else JRetry) (tl rest))
      else Some (Anchored j (from_le_bytes rest)))"

definition toy_json :: json where
  "toy_json = \<lparr>js_to_vec = (\<lambda>e. 0x7B # hex_encode (toy_payload e) @ [0x7D]),
     js_from_str = (\<lambda>t. if 2 \<le> length t \<and> hd t = 0x7B \<and> last t = 0x7D
        then Option.bind (hex_pairs tenant_hex_nibble (butlast (tl t))) toy_unpayload else None)\<rparr>"

lemma chunks_exact_words: "chunks_exact 8 (concat (map (le_bytes 8) (c :: u64 list))) = map (le_bytes 8) c"
  by (induction c) (simp_all add: chunks_exact.simps [of 8 "[]"] chunks_exact.simps [of 8 "_ @ _"])

lemma toy_unpayload_payload: "toy_unpayload (toy_payload e) = Some e"
proof (cases e)
  case (Aggregated j out a)
  then show ?thesis by (cases out) (simp_all add: toy_unpayload_def)
qed (simp_all add: toy_unpayload_def chunks_exact_words comp_def)

lemma hex_char_range: "n < 16 \<Longrightarrow> 0x30 \<le> hex_char n \<and> hex_char n \<le> 0x66"
proof -
  assume "n < 16"
  moreover have "\<forall>n\<in>set (map of_nat [0..<16]). 0x30 \<le> hex_char n \<and> hex_char n \<le> 0x66" by code_simp
  ultimately show ?thesis using u8_less_16 by blast
qed

lemma hex_encode_range: "list_all (\<lambda>b. 0x30 \<le> b \<and> b \<le> 0x66) (hex_encode bs)"
  by (induction bs) (simp_all add: hex_encode_def hex_char_range nibbles_small)

lemma toy_json_ok: "json_ok toy_json"
proof -
  have range: "(0x20 :: u8) \<le> b \<and> b < 0x80 \<and> b \<noteq> 0x7D" if "b \<in> set (hex_encode bs)" for b bs
    using that hex_encode_range [of bs] by (auto simp: list_all_iff word_nat dest!: bspec)
  have prefix: "js_from_str toy_json (take n (0x7B # hex_encode bs @ [0x7D])) = None"
    if n: "n < length (0x7B # hex_encode bs @ [0x7D])" for n bs
  proof (cases n)
    case (Suc k)
    then have t: "take n (0x7B # hex_encode bs @ [0x7D]) = 0x7B # take k (hex_encode bs)" using n by simp
    have "last (0x7B # take k (hex_encode bs)) \<noteq> 0x7D"
      using range [of "last (take k (hex_encode bs))" bs] in_set_takeD [OF last_in_set, of k "hex_encode bs"] by auto
    then show ?thesis unfolding t by (simp add: toy_json_def)
  qed (simp add: toy_json_def)
  have "(0x20 :: u8) \<le> 0x7B" "(0x7B :: u8) < 0x80" "(0x20 :: u8) \<le> 0x7D" "(0x7D :: u8) < 0x80" by simp_all
  then have vis: "list_all (\<lambda>b. 0x20 \<le> b \<and> b < 0x80) (0x7B # hex_encode bs @ [0x7D])" for bs
    using range by (auto simp: list_all_iff)
  have rt: "js_from_str toy_json (js_to_vec toy_json e) = Some e" for e
    by (simp add: toy_json_def tenant_hex.decode_encode toy_unpayload_payload butlast_append)
  have enc: "js_to_vec toy_json e = 0x7B # hex_encode (toy_payload e) @ [0x7D]" for e by (simp add: toy_json_def)
  show ?thesis unfolding json_ok_def using rt prefix vis by (simp add: enc)
qed

section \<open>Properties\<close>



text \<open>reconstruction is exact for every job: the state of a job is that of its own last
  entry that sets one, whatever other jobs' entries lie between, and each job with an entry is in exactly
  one of the three recovery classes: to be run again, to be anchored again, or done.\<close>

theorem journal_reconstruction_exact:
  "let s = reconstruct_state es in
     hm_get (js_jobs s) j = job_history_state (filter (\<lambda>e. je_job e = j) es) \<and>
     (j \<in> set (pending_re_run s) \<longleftrightarrow> hm_get (js_jobs s) j \<in> {Some StSubmitted, Some StInFlight}) \<and>
     (j \<in> set (pending_re_anchor s) \<longleftrightarrow> (\<exists>out a. hm_get (js_jobs s) j = Some (StAggregatedNotAnchored out a))) \<and>
     (j \<in> anchored_jobs s \<longleftrightarrow> (\<exists>p. hm_get (js_jobs s) j = Some (StAnchored p))) \<and>
     ((\<exists>e. e \<in> set es \<and> je_job e = j) \<longleftrightarrow>
       j \<in> set (pending_re_run s) \<union> set (pending_re_anchor s) \<union> anchored_jobs s)"
proof -
  let ?s = "reconstruct_state es"
  note k = keys_filter [OF reconstruct_wf [of es], of j]
  have c1: "j \<in> set (pending_re_run ?s) \<longleftrightarrow> hm_get (js_jobs ?s) j \<in> {Some StSubmitted, Some StInFlight}"
    unfolding pending_re_run_def k by auto
  have c2: "j \<in> set (pending_re_anchor ?s) \<longleftrightarrow> (\<exists>out a. hm_get (js_jobs ?s) j = Some (StAggregatedNotAnchored out a))"
    unfolding pending_re_anchor_def k by (auto elim: is_aggregated_not_anchored.elims)
  have c3: "j \<in> anchored_jobs ?s \<longleftrightarrow> (\<exists>p. hm_get (js_jobs ?s) j = Some (StAnchored p))"
    unfolding anchored_jobs_def k by (auto elim: is_anchored.elims)
  have "job_history_state (filter P es) = None \<longleftrightarrow> filter P es = []" for P
    by (cases "filter P es" rule: rev_cases) (auto simp: job_history_state_def split: option.splits)
  moreover have "filter (\<lambda>e. je_job e = j) es = [] \<longleftrightarrow> \<not> (\<exists>e. e \<in> set es \<and> je_job e = j)"
    by (auto simp: filter_empty_conv)
  ultimately have "hm_get (js_jobs ?s) j = None \<longleftrightarrow> \<not> (\<exists>e. e \<in> set es \<and> je_job e = j)"
    by (simp only: reconstruct_get)
  moreover have "hm_get (js_jobs ?s) j \<noteq> None \<longleftrightarrow>
      j \<in> set (pending_re_run ?s) \<union> set (pending_re_anchor ?s) \<union> anchored_jobs ?s"
    unfolding Un_iff c1 c2 c3 by (cases "hm_get (js_jobs ?s) j"; cases "the (hm_get (js_jobs ?s) j)") auto
  ultimately have c4: "(\<exists>e. e \<in> set es \<and> je_job e = j) \<longleftrightarrow>
      j \<in> set (pending_re_run ?s) \<union> set (pending_re_anchor ?s) \<union> anchored_jobs ?s" by argo
  show ?thesis unfolding Let_def by (intro conjI reconstruct_get c1 c2 c3 c4)
qed

text \<open>an acknowledged entry can be lost after a restart: the journal is opened for
  appending without ending a torn last line, so the first entry appended after the restart
  shares a line with the torn one, and replay skips that line although the append reported
  success.\<close>

theorem journal_torn_line_swallows_next:
  assumes js: "json_ok js" and es: "list_all entry_ascii es" and e: "entry_ascii e" "entry_ascii e'"
    and n: "0 < n" "n \<le> length (js_to_vec js e)"
    and strict: "js_from_str js (take n (js_to_vec js e) @ js_to_vec js e') = None"
  shows "let jn = fold (\<lambda>e jn. fst (journal_append js NoFault e jn)) es (journal_open None);
             crashed = fst (journal_append js (ShortWrite n) e jn);
             (jn', r) = journal_append js NoFault e' (journal_open (Some (jn_file crashed)))
    in r = Inr () \<and> journal_replay js (Some (jn_file jn')) = Inr es"
proof -
  let ?t = "js_to_vec js e" and ?t' = "js_to_vec js e'"
  let ?l = "take n ?t @ ?t'"
  have clean: "10 \<notin> set ?l" "list_all (\<lambda>b. b < 0x80) ?l"
    using json_line(2,4) [OF js e(1)] json_line(2,4) [OF js e(2)] by (auto simp: list_all_iff dest: in_set_takeD)
  have "trim ?l = ?l"
    by (rule trim_id) (use n json_okD(2,3,4) [OF js e(1)] json_okD(2,4) [OF js e(2)] in \<open>auto simp: hd_append\<close>)
  then have skip: "replay_lines js [?l] = []" using strict by (simp add: replay_lines_def List.map_filter_def)
  have "lines [] (journal_text js es @ ?l @ [10]) = map (js_to_vec js) es @ [?l]"
  proof -
    have cr: "strip_cr (rev ?l) = rev ?l"
      by (rule strip_cr_clean) (use json_line(3) [OF js e(1)] json_line(3) [OF js e(2)] in \<open>auto dest: in_set_takeD\<close>)
    have "lines [] (?l @ [10]) = [?l]" using lines_one [OF clean(1), of "[]"] unfolding append_Nil2 cr rev_rev_ident .
    then show ?thesis using lines_journal [OF js es, of "?l @ [10]"] by simp
  qed
  moreover have "list_all utf8_valid (map (js_to_vec js) es @ [?l])"
    using es json_line(4) [OF js] utf8_valid_ascii [OF clean(2)] by (auto simp: list_all_iff intro!: utf8_valid_ascii)
  ultimately have "journal_replay js (Some (journal_text js es @ ?l @ [10])) = Inr es"
    using skip by (simp add: journal_replay_def replay_lines_append replay_lines_journal [OF js es])
  then show ?thesis using n
    by (simp add: Let_def case_prod_beta journal_append_file appends_file journal_open_def)
qed

theorem journal_torn_line_swallows_next_witness:
  "let jn = fst (journal_append toy_json (ShortWrite 2) (JobSubmitted 1) (journal_open None));
       (jn', r) = journal_append toy_json NoFault (JobSubmitted 2) (journal_open (Some (jn_file jn)))
   in r = Inr () \<and> journal_replay toy_json (Some (jn_file jn')) = Inr []"
proof -
  have "js_from_str toy_json (take 2 (js_to_vec toy_json (JobSubmitted 1)) @ js_to_vec toy_json (JobSubmitted 2)) = None"
    by code_simp
  from journal_torn_line_swallows_next [OF toy_json_ok _ _ _ _ _ this, of "[]"]
  show ?thesis by (simp add: toy_json_def)
qed

end
