(* ===== verification/Floating.thy ===== *)
theory Floating
  imports Complex_Main Prelude
begin

text \<open>
  IEEE binary floating point as far as the program uses it: non-negative finite values are
  rationals, and every operation rounds the exact result to the nearest value with \<open>p\<close>
  significant bits, ties to even (\<open>p = 53\<close> for \<open>f64\<close>, \<open>24\<close> for \<open>f32\<close>). The values that
  occur (counts, 64-bit stakes and their products and quotients) lie far inside the
  exponent range of \<open>f64\<close>, so overflow and gradual underflow of results do not arise.
\<close>

section \<open>Rounding\<close>

definition round_even :: "rat \<Rightarrow> int" where
  "round_even x = (let f = \<lfloor>x\<rfloor>; d = x - of_int f in
     if d < 1 / 2 then f else if 1 / 2 < d then f + 1 else if even f then f else f + 1)"

fun ilog2 :: "nat \<Rightarrow> nat" where
  "ilog2 n = (if n \<le> 1 then 0 else Suc (ilog2 (n div 2)))"

declare ilog2.simps [simp del]

definition flog2 :: "rat \<Rightarrow> int" where
  "flog2 x = (case quotient_of x of (a, b) \<Rightarrow>
     let e = int (ilog2 (nat a)) - int (ilog2 (nat b)) in if 2 powi e \<le> x then e else e - 1)"

definition ulp :: "nat \<Rightarrow> rat \<Rightarrow> rat" where
  "ulp p x = 2 powi (flog2 x - int p + 1)"

definition fl :: "nat \<Rightarrow> rat \<Rightarrow> rat" where
  "fl p x = (if x \<le> 0 then 0 else of_int (round_even (x / ulp p x)) * ulp p x)"

abbreviation f64 :: "rat \<Rightarrow> rat" where
  "f64 \<equiv> fl 53"

text \<open>The values of a format: an integer of at most \<open>p\<close> bits times a power of two.\<close>

definition representable :: "nat \<Rightarrow> rat \<Rightarrow> bool" where
  "representable p x \<longleftrightarrow> (\<exists>m e. x = of_nat m * 2 powi e \<and> m < 2 ^ p)"

section \<open>Rounding to integers\<close>

lemma round_even_int [simp]: "round_even (of_int n) = n"
  by (simp add: round_even_def Let_def)

lemma round_even_bounds: "of_int (round_even x) \<le> x + 1 / 2" "x - 1 / 2 \<le> of_int (round_even x)"
  unfolding round_even_def Let_def by (auto, linarith+)

lemma round_even_mono: assumes "x \<le> y" shows "round_even x \<le> round_even y"
proof (cases "\<lfloor>x\<rfloor> = \<lfloor>y\<rfloor>")
  case True
  then show ?thesis using assms unfolding round_even_def Let_def by auto
next
  case False
  then have "\<lfloor>x\<rfloor> + 1 \<le> \<lfloor>y\<rfloor>" using floor_mono [OF assms] by linarith
  moreover have "round_even x \<le> \<lfloor>x\<rfloor> + 1" "\<lfloor>y\<rfloor> \<le> round_even y" unfolding round_even_def Let_def by auto
  ultimately show ?thesis by linarith
qed

lemma round_even_le_int: "x \<le> of_int n \<Longrightarrow> round_even x \<le> n"
  using round_even_mono [of x "of_int n"] by simp

lemma round_even_ge_int: "of_int n \<le> x \<Longrightarrow> n \<le> round_even x"
  using round_even_mono [of "of_int n" x] by simp

section \<open>Binary exponents\<close>

lemma ilog2_bounds: "0 < n \<Longrightarrow> 2 ^ ilog2 n \<le> n \<and> n < 2 ^ Suc (ilog2 n)"
proof (induction n rule: ilog2.induct)
  case (1 n)
  then show ?case by (subst (1 2) ilog2.simps) auto
qed

lemma ilog2_rat: "0 < n \<Longrightarrow> (2 :: rat) powi int (ilog2 n) \<le> of_nat n \<and> of_nat n < (2 :: rat) powi (int (ilog2 n) + 1)"
proof -
  assume n: "0 < n"
  have "(2 :: rat) ^ ilog2 n = of_nat (2 ^ ilog2 n)" "(2 :: rat) ^ Suc (ilog2 n) = of_nat (2 ^ Suc (ilog2 n))" by simp_all
  moreover have "(2 :: rat) powi (int (ilog2 n) + 1) = 2 ^ Suc (ilog2 n)"
    using power_int_of_nat [of "2 :: rat" "Suc (ilog2 n)"] by (simp add: add.commute)
  ultimately show ?thesis using ilog2_bounds [OF n] by (simp only: power_int_of_nat of_nat_le_iff of_nat_less_iff)
qed

lemma powi_mono2: "a \<le> b \<Longrightarrow> (2 :: rat) powi a \<le> 2 powi b"
  by (rule power_int_increasing) simp_all

lemma powi_div: "(2 :: rat) powi a / 2 powi b = 2 powi (a - b)"
  by (simp add: power_int_diff)

lemma powi_pos [simp]: "0 < (2 :: rat) powi e"
  by simp

lemma flog2_bounds: assumes "0 < x" shows "2 powi flog2 x \<le> x \<and> x < 2 powi (flog2 x + 1)"
proof -
  obtain a b where q: "quotient_of x = (a, b)" by fastforce
  have b: "0 < b" using quotient_of_denom_pos [OF q] .
  have x: "x = of_int a / of_int b" using quotient_of_div [OF q] .
  then have a: "0 < a" using assms b by (simp add: zero_less_divide_iff)
  let ?i = "int (ilog2 (nat a))" and ?j = "int (ilog2 (nat b))"
  have A: "2 powi ?i \<le> (of_int a :: rat)" "(of_int a :: rat) < 2 powi (?i + 1)"
    using ilog2_rat [of "nat a"] a by simp_all
  have B: "2 powi ?j \<le> (of_int b :: rat)" "(of_int b :: rat) < 2 powi (?j + 1)"
    using ilog2_rat [of "nat b"] b by simp_all
  have up: "x < 2 powi (?i - ?j + 1)"
  proof -
    have "x \<le> of_int a / 2 powi ?j" unfolding x using A(1) B(1) b by (intro divide_left_mono) (use a in auto)
    also have "\<dots> < 2 powi (?i + 1) / 2 powi ?j" using A(2) by (simp add: divide_strict_right_mono)
    also have "\<dots> = 2 powi (?i - ?j + 1)" unfolding powi_div by (simp only: diff_add_eq)
    finally show ?thesis .
  qed
  have lo: "2 powi (?i - ?j - 1) \<le> x"
  proof -
    have "2 powi (?i - ?j - 1) = 2 powi ?i / (2 powi (?j + 1) :: rat)" unfolding powi_div by (simp only: diff_diff_eq)
    also have "\<dots> \<le> of_int a / 2 powi (?j + 1)" using A(1) by (intro divide_right_mono) auto
    also have "\<dots> \<le> x" unfolding x using B b a by (intro divide_left_mono) auto
    finally show ?thesis .
  qed
  show ?thesis using up lo by (auto simp: flog2_def q Let_def algebra_simps)
qed

lemma flog2_unique: assumes "2 powi e \<le> x" "x < 2 powi (e + 1)" shows "flog2 x = e"
proof -
  have "0 < x" using assms(1) powi_pos [of e] by linarith
  note f = flog2_bounds [OF this]
  have "(2 :: rat) powi e < 2 powi (flog2 x + 1)" "(2 :: rat) powi flog2 x < 2 powi (e + 1)" using f assms by linarith+
  then have "\<not> flog2 x + 1 \<le> e" "\<not> e + 1 \<le> flog2 x" using powi_mono2 by (meson leD)+
  then show ?thesis by linarith
qed

lemma flog2_mono: assumes "0 < x" "x \<le> y" shows "flog2 x \<le> flog2 y"
proof (rule ccontr)
  assume "\<not> flog2 x \<le> flog2 y"
  then have "(2 :: rat) powi (flog2 y + 1) \<le> 2 powi flog2 x" by (intro powi_mono2) simp
  then show False using flog2_bounds [of x] flog2_bounds [of y] assms by linarith
qed

section \<open>Properties of the rounding\<close>

lemma ulp_pos [simp]: "0 < ulp p x"
  by (simp add: ulp_def)

lemma ulp_scale: "0 < p \<Longrightarrow> (2 :: rat) powi flog2 x = of_int (2 ^ (p - 1)) * ulp p x"
    "(2 :: rat) powi (flog2 x + 1) = of_int (2 ^ p) * ulp p x"
  by (simp_all add: ulp_def flip: power_int_of_nat power_int_add)

lemma fl_nonneg: "0 \<le> fl p x"
proof (cases "x \<le> 0")
  case False
  then have "0 \<le> round_even (x / ulp p x)" by (intro round_even_ge_int) (simp add: less_imp_le)
  then show ?thesis using False by (simp add: fl_def less_imp_le)
qed (simp add: fl_def)

lemma fl_binade:
  assumes "0 < x" "0 < p" shows "2 powi flog2 x \<le> fl p x \<and> fl p x \<le> 2 powi (flog2 x + 1)"
proof -
  note b = flog2_bounds [OF assms(1)]
  have "of_int (2 ^ (p - 1)) \<le> x / ulp p x" using b ulp_scale(1) [OF assms(2), of x] by (simp add: pos_le_divide_eq)
  moreover have "x / ulp p x \<le> of_int (2 ^ p)" using b ulp_scale(2) [where p = p and x = x] by (simp add: pos_divide_le_eq)
  ultimately have "2 ^ (p - 1) \<le> round_even (x / ulp p x)" "round_even (x / ulp p x) \<le> 2 ^ p"
    by (auto intro: round_even_le_int round_even_ge_int)
  then have "of_int (2 ^ (p - 1)) * ulp p x \<le> of_int (round_even (x / ulp p x)) * ulp p x"
    "of_int (round_even (x / ulp p x)) * ulp p x \<le> of_int (2 ^ p) * ulp p x"
    by (auto intro!: mult_right_mono simp: less_imp_le simp del: of_int_power)
  then show ?thesis using assms by (simp add: fl_def ulp_scale [where p = p and x = x])
qed

lemma fl_mono: assumes "x \<le> y" "0 < p" shows "fl p x \<le> fl p y"
proof (cases "0 < x")
  case True
  have y: "0 < y" using True assms by linarith
  show ?thesis
  proof (cases "flog2 x = flog2 y")
    case same: True
    then have u: "ulp p x = ulp p y" by (simp add: ulp_def)
    have "round_even (x / ulp p y) \<le> round_even (y / ulp p y)"
      using assms(1) by (intro round_even_mono divide_right_mono) (simp_all add: less_imp_le)
    then show ?thesis using True y by (simp add: fl_def u)
  next
    case False
    then have "(2 :: rat) powi (flog2 x + 1) \<le> 2 powi flog2 y"
      using flog2_mono [OF True assms(1)] by (intro powi_mono2) simp
    then show ?thesis using fl_binade [OF True assms(2)] fl_binade [OF y assms(2)] by linarith
  qed
next
  case False
  then show ?thesis using fl_nonneg [of p y] by (simp add: fl_def)
qed

lemma fl_exact: assumes "representable p x" "0 \<le> x" "0 < p" shows "fl p x = x"
proof (cases "x = 0")
  case False
  then have x: "0 < x" using assms(2) by simp
  obtain m e where r: "x = of_nat m * 2 powi e" "m < 2 ^ p" using assms(1) unfolding representable_def by blast
  have "x < of_nat (2 ^ p) * 2 powi e" unfolding r(1) using r(2) by (intro mult_strict_right_mono) (simp_all only: of_nat_less_iff powi_pos)
  also have "\<dots> = 2 powi (int p + e)" by (simp add: power_int_add)
  finally have "\<not> int p + e \<le> flog2 x" using flog2_bounds [OF x] powi_mono2 [of "int p + e" "flog2 x"] by auto
  then have "0 \<le> e - (flog2 x - int p + 1)" by linarith
  then obtain k where k: "e = flog2 x - int p + 1 + int k" by (metis add_diff_cancel_left' diff_add_cancel nonneg_int_cases)
  have "x = of_int (int m * 2 ^ k) * ulp p x" unfolding ulp_def
    by (subst (1) r(1), subst k) (simp add: power_int_add)
  then have "x / ulp p x = of_int (int m * 2 ^ k)" by (metis ulp_pos less_irrefl nonzero_mult_div_cancel_right)
  then show ?thesis using x \<open>x = of_int (int m * 2 ^ k) * ulp p x\<close> round_even_int [of "int m * 2 ^ k"] by (simp add: fl_def)
qed (simp add: fl_def)

lemma representable_nat: "n < 2 ^ p \<Longrightarrow> representable p (of_nat n)"
  unfolding representable_def by (intro exI [of _ n] exI [of _ 0]) simp

lemma fl_nat [simp]: "n < 2 ^ p \<Longrightarrow> 0 < p \<Longrightarrow> fl p (of_nat n) = of_nat n"
  by (simp add: fl_exact representable_nat)

lemma fl_0 [simp]: "fl p 0 = 0"
  by (simp add: fl_def)

lemma fl_1 [simp]: "1 < p \<Longrightarrow> fl p 1 = 1"
  using fl_nat [of 1 p] one_less_power [of "2 :: nat" p] by simp

lemma fl_error: assumes "0 \<le> x" shows "\<bar>fl p x - x\<bar> \<le> x / 2 ^ p"
proof (cases "x = 0")
  case False
  then have x: "0 < x" using assms by simp
  let ?u = "ulp p x" and ?q = "x / ulp p x"
  have "\<bar>of_int (round_even ?q) - ?q\<bar> \<le> 1 / 2" using round_even_bounds [of ?q] by (intro abs_leI) linarith+
  then have "\<bar>of_int (round_even ?q) - ?q\<bar> * ?u \<le> 1 / 2 * ?u" by (rule mult_right_mono) (simp add: less_imp_le)
  moreover have "\<bar>of_int (round_even ?q) - ?q\<bar> * ?u = \<bar>fl p x - x\<bar>"
  proof -
    have "\<bar>of_int (round_even ?q) - ?q\<bar> * ?u = \<bar>(of_int (round_even ?q) - ?q) * ?u\<bar>" using ulp_pos [of p x] by (simp only: abs_mult abs_of_pos)
    also have "(of_int (round_even ?q) - ?q) * ?u = fl p x - x"
      using x less_imp_neq [OF ulp_pos [of p x], symmetric] by (simp add: fl_def left_diff_distrib)
    finally show ?thesis .
  qed
  moreover have "1 / 2 * ?u = 2 powi flog2 x / 2 ^ p"
    by (simp add: ulp_def power_int_add power_int_diff)
  moreover have "2 powi flog2 x / 2 ^ p \<le> x / 2 ^ p" using flog2_bounds [OF x] by (intro divide_right_mono) simp_all
  ultimately show ?thesis by linarith
qed simp

end
