(* ===== verification/Reputation.thy ===== *)
theory Reputation
  imports Floating Quorum Attestation
begin

text \<open>
  Scores and stakes: reputation (\<open>cosaci-core/src/reputation.rs\<close>), flake confidence
  (\<open>cosaci-core/src/flake.rs\<close>) and the stake ledger with minority slashing
  (\<open>cosaci-state/src/stake_ledger.rs\<close>). Floating-point values are those of \<open>Floating\<close>;
  a slashing fraction may also be a NaN or an infinity.
\<close>

section \<open>Reputation and flakiness\<close>

datatype agreement_outcome = Agree | Disagree

definition INITIAL_REPUTATION :: rat where
  "INITIAL_REPUTATION = 1 / 2"

definition agreement_rate :: "agreement_outcome list \<Rightarrow> rat" where
  "agreement_rate history =
     (if history = [] then INITIAL_REPUTATION
      else f64 (f64 (of_nat (length (filter (\<lambda>o'. o' = Agree) history))) / f64 (of_nat (length history))))"

definition reputation :: "agreement_outcome list \<Rightarrow> rat" where
  "reputation history = agreement_rate history"

definition flake_confidence :: "u32 \<Rightarrow> u32 \<Rightarrow> rat" where
  "flake_confidence disagreement_count total_runs =
     (if total_runs = 0 then 0 else f64 (f64 (of_nat (unat disagreement_count)) / f64 (of_nat (unat total_runs))))"

section \<open>Stake ledger\<close>

record stake_ledger =
  sl_stakes :: "(runner_id, weight) hmap"

record slash_event =
  se_runner_id :: runner_id
  se_stake_before :: weight
  se_stake_after :: weight
  se_slashed :: weight

definition sl_new :: stake_ledger where
  "sl_new = \<lparr>sl_stakes = []\<rparr>"

definition sl_from_stake_map :: "stake_map \<Rightarrow> stake_ledger" where
  "sl_from_stake_map stakes = \<lparr>sl_stakes = stakes\<rparr>"

definition sl_register :: "runner_id \<Rightarrow> weight \<Rightarrow> stake_ledger \<Rightarrow> stake_ledger" where
  "sl_register r stake l = l\<lparr>sl_stakes := hm_insert r stake (sl_stakes l)\<rparr>"

definition sl_stake_of :: "stake_ledger \<Rightarrow> runner_id \<Rightarrow> weight" where
  "sl_stake_of l r = hm_get_or 0 (sl_stakes l) r"

definition sl_len :: "stake_ledger \<Rightarrow> nat" where
  "sl_len l = length (sl_stakes l)"

definition sl_is_empty :: "stake_ledger \<Rightarrow> bool" where
  "sl_is_empty l \<longleftrightarrow> sl_stakes l = []"

definition sl_as_stake_map :: "stake_ledger \<Rightarrow> stake_map" where
  "sl_as_stake_map l = sl_stakes l"

definition sl_slash :: "runner_id \<Rightarrow> weight \<Rightarrow> stake_ledger \<Rightarrow> stake_ledger \<times> slash_event" where
  "sl_slash r amount l =
     (let before = sl_stake_of l r; after = sat_sub before amount in
      (l\<lparr>sl_stakes := hm_insert r after (sl_stakes l)\<rparr>,
       \<lparr>se_runner_id = r, se_stake_before = before, se_stake_after = after, se_slashed = before - after\<rparr>))"

text \<open>An \<open>f32\<close> argument, its clamping to the unit interval (a NaN stays one), and the
  conversion of a product back to an integer, which saturates and sends a NaN to zero.\<close>

datatype fval = NaN | NegInf | PosInf | Fin rat

fun clamp01 :: "fval \<Rightarrow> fval" where
  "clamp01 NaN = NaN"
| "clamp01 NegInf = Fin 0"
| "clamp01 PosInf = Fin 1"
| "clamp01 (Fin x) = Fin (if x < 0 then 0 else if 1 < x then 1 else x)"

fun slash_amount :: "weight \<Rightarrow> fval \<Rightarrow> weight" where
  "slash_amount current (Fin f) =
     (let a = \<lfloor>f64 (f64 (of_nat (unat current)) * f)\<rfloor> in
      if a < 0 then 0 else if int (unat (- 1 :: u64)) < a then - 1 else of_int a)"
| "slash_amount current _ = 0"

definition slash_one :: "bytes \<Rightarrow> fval \<Rightarrow> attestation \<Rightarrow> stake_ledger \<times> slash_event list \<Rightarrow> stake_ledger \<times> slash_event list" where
  "slash_one consensus f att = (\<lambda>(l, events).
     if at_artifact_hash att = consensus then (l, events)
     else if \<not> hm_contains (sl_stakes l) (at_runner_id att) then (l, events)
     else let amount = slash_amount (sl_stake_of l (at_runner_id att)) f in
       if amount = 0 then (l, events)
       else case sl_slash (at_runner_id att) amount l of (l', e) \<Rightarrow> (l', events @ [e]))"

definition slash_minority ::
    "bytes \<Rightarrow> attestation list \<Rightarrow> fval \<Rightarrow> stake_ledger \<Rightarrow> stake_ledger \<times> slash_event list" where
  "slash_minority consensus attestations fraction l =
     fold (slash_one consensus (clamp01 fraction)) attestations (l, [])"

section \<open>Ratios\<close>

lemma f64_ratio_mono:
  assumes "a * d \<le> c * b" "0 < b" "0 < d"
  shows "f64 (of_nat a / of_nat b) \<le> f64 (of_nat c / of_nat d)"
proof -
  have "of_nat (a * d) \<le> (of_nat (c * b) :: rat)" using assms(1) of_nat_le_iff by blast
  then have "of_nat a / of_nat b \<le> (of_nat c / of_nat d :: rat)"
    using assms(2,3) by (simp add: divide_simps mult.commute)
  then show ?thesis by (rule fl_mono) simp
qed

lemma f64_ratio_unit: "a \<le> b \<Longrightarrow> 0 < b \<Longrightarrow> 0 \<le> f64 (of_nat a / of_nat b) \<and> f64 (of_nat a / of_nat b) \<le> 1"
  using f64_ratio_mono [of a 1 1 b] fl_nonneg by simp

lemma agreement_rate_ratio:
  assumes "length h < 2 ^ 53" "h \<noteq> []"
  shows "agreement_rate h = f64 (of_nat (length (filter (\<lambda>o'. o' = Agree) h)) / of_nat (length h))"
proof -
  have "length (filter (\<lambda>o'. o' = Agree) h) < 2 ^ 53" using assms(1) length_filter_le le_less_trans by blast
  then show ?thesis using assms by (simp add: agreement_rate_def fl_nat [of _ 53])
qed

lemma f64_unat: "unat (x :: u32) < 2 ^ 53 \<and> f64 (of_nat (unat x)) = of_nat (unat x)"
proof -
  have "unat x < 2 ^ 32" using unat_lt_pow [of x] by simp
  also have "(2 :: nat) ^ 32 < 2 ^ 53" by simp
  finally have "unat x < 2 ^ 53" .
  then show ?thesis by (intro conjI fl_nat) simp_all
qed

lemma flake_ratio: "t \<noteq> 0 \<Longrightarrow> flake_confidence d t = f64 (of_nat (unat d) / of_nat (unat t))"
  unfolding flake_confidence_def f64_unat [THEN conjunct2] by (rule if_not_P)

section \<open>Slashing\<close>

lemma sl_slash_stake: "sl_stake_of (fst (sl_slash r a l)) q = (if q = r then sat_sub (sl_stake_of l r) a else sl_stake_of l q)"
  by (simp add: sl_slash_def Let_def sl_stake_of_def hm_get_or_def hm_simps)

lemma sat_sub_0 [simp]: "sat_sub a 0 = a"
  by (simp add: sat_sub_def)

text \<open>What one attestation does to the stakes, and that it keeps who is registered.\<close>

lemma slash_one_stake:
  "sl_stake_of (fst (slash_one c f att (l, es))) q =
     (if q = at_runner_id att \<and> at_artifact_hash att \<noteq> c \<and> hm_contains (sl_stakes l) q
      then sat_sub (sl_stake_of l q) (slash_amount (sl_stake_of l q) f) else sl_stake_of l q)"
  by (auto simp: slash_one_def Let_def sl_slash_stake case_prod_beta)

lemma slash_one_contains: "hm_contains (sl_stakes (fst (slash_one c f att (l, es)))) q = hm_contains (sl_stakes l) q"
  by (auto simp: slash_one_def Let_def sl_slash_def hm_contains_def hm_simps)

lemma slash_fold_untouched:
  "\<not> list_ex (\<lambda>att. at_runner_id att = r \<and> at_artifact_hash att \<noteq> c) atts \<Longrightarrow>
    sl_stake_of (fst (fold (slash_one c f) atts p)) r = sl_stake_of (fst p) r"
proof (induction atts arbitrary: p)
  case (Cons att atts)
  then show ?case using slash_one_stake [of c f att "fst p" "snd p" r] by auto
qed simp

lemma slash_fold_stake:
  "distinct (map at_runner_id atts) \<Longrightarrow> sl_stake_of (fst (fold (slash_one c f) atts p)) r =
     (if list_ex (\<lambda>att. at_runner_id att = r \<and> at_artifact_hash att \<noteq> c) atts \<and> hm_contains (sl_stakes (fst p)) r
      then sat_sub (sl_stake_of (fst p) r) (slash_amount (sl_stake_of (fst p) r) f) else sl_stake_of (fst p) r)"
proof (induction atts arbitrary: p)
  case (Cons att atts)
  note one = slash_one_stake [of c f att "fst p" "snd p" r] slash_one_contains [of c f att "fst p" "snd p" r]
  show ?case
  proof (cases "at_runner_id att = r")
    case True
    then have "\<not> list_ex (\<lambda>att. at_runner_id att = r \<and> at_artifact_hash att \<noteq> c) atts"
      using Cons.prems by (simp add: list_ex_iff image_iff) metis
    from slash_fold_untouched [OF this, of f "slash_one c f att p"] show ?thesis
      using one True \<open>\<not> list_ex _ atts\<close> by auto
  next
    case False
    then show ?thesis using one Cons.IH [of "slash_one c f att p"] Cons.prems by auto
  qed
qed simp

lemma f64_product_exact:
  assumes k: "k < 2 ^ 29" and f: "representable 24 f" "0 \<le> f" "f \<le> 1"
  shows "f64 (f64 (of_nat k) * f) = of_nat k * f \<and> 0 \<le> \<lfloor>of_nat k * f\<rfloor> \<and> \<lfloor>of_nat k * f\<rfloor> \<le> int k"
proof -
  obtain m e where m: "f = of_nat m * 2 powi e" "m < 2 ^ 24" using f(1) unfolding representable_def by blast
  have "k * m \<le> k * 2 ^ 24" using m(2) by (intro mult_left_mono) simp_all
  also have "\<dots> < 2 ^ 29 * 2 ^ 24" using k by simp
  also have "\<dots> = (2 :: nat) ^ 53" by simp
  finally have "representable 53 (of_nat k * f)"
    unfolding representable_def by (intro exI [of _ "k * m"] exI [of _ e]) (simp add: m(1))
  then have "f64 (of_nat k * f) = of_nat k * f" using f(2) by (intro fl_exact) simp_all
  moreover have "k < 2 ^ 53" by (rule less_trans [OF k]) simp
  then have "f64 (of_nat k) = of_nat k" by (rule fl_nat) simp
  moreover have "of_nat k * f \<le> of_nat k * 1" using f(3) by (intro mult_left_mono) simp_all
  then have "\<lfloor>of_nat k * f\<rfloor> \<le> int k" using floor_mono [of "of_nat k * f" "of_nat k"] by simp
  ultimately show ?thesis using f(2) by simp
qed

lemma slash_amount_exact:
  assumes c: "unat c < 2 ^ 29" and f: "representable 24 f" "0 \<le> f" "f \<le> 1"
  shows "unat (slash_amount c (Fin f)) = nat \<lfloor>of_nat (unat c) * f\<rfloor> \<and> nat \<lfloor>of_nat (unat c) * f\<rfloor> \<le> unat c \<and>
    0 \<le> \<lfloor>of_nat (unat c) * f\<rfloor>"
proof -
  note x = f64_product_exact [OF c f]
  obtain a where a: "\<lfloor>of_nat (unat c) * f\<rfloor> = int a" "a \<le> unat c" using x by (metis of_nat_le_iff nonneg_int_cases)
  have lt: "a < 2 ^ 64" using a(2) unat_lt_pow [of c] by simp
  have "\<not> int (unat (- 1 :: u64)) < int a" using lt by (simp add: unat_minus_one_word_eq)
  then have "slash_amount c (Fin f) = of_int (int a)"
    unfolding slash_amount.simps x [THEN conjunct1] a(1) Let_def by simp
  then have "unat (slash_amount c (Fin f)) = a" using lt by (simp add: unat_of_nat)
  then show ?thesis using a by simp
qed

section \<open>Properties\<close>

text \<open>C25: slashing is faithful: with one attestation per runner, stakes below \<open>2^29\<close> and a
  single-precision fraction between zero and one, a registered runner whose artifact
  differs from the consensus loses exactly the floor of stake times fraction, computed in
  floating point or not, and every other stake is untouched.\<close>

theorem slash_minority_faithful:
  assumes one: "distinct (map at_runner_id atts)" and stake: "unat (sl_stake_of l r) < 2 ^ 29"
    and f: "representable 24 f" "0 \<le> f" "f \<le> 1"
  shows "int (unat (sl_stake_of (fst (slash_minority c atts (Fin f) l)) r)) =
    int (unat (sl_stake_of l r)) -
      (if list_ex (\<lambda>att. at_runner_id att = r \<and> at_artifact_hash att \<noteq> c) atts \<and> hm_contains (sl_stakes l) r
       then \<lfloor>of_nat (unat (sl_stake_of l r)) * f\<rfloor> else 0)"
proof -
  have c1: "clamp01 (Fin f) = Fin f" using f(2,3) by simp
  note stakes = slash_fold_stake [OF one, of c "Fin f" "(l, [])" r] and amount = slash_amount_exact [OF stake f]
  have "sl_stake_of (fst (slash_minority c atts (Fin f) l)) r =
      (if list_ex (\<lambda>att. at_runner_id att = r \<and> at_artifact_hash att \<noteq> c) atts \<and> hm_contains (sl_stakes l) r
       then sat_sub (sl_stake_of l r) (slash_amount (sl_stake_of l r) (Fin f)) else sl_stake_of l r)"
    using stakes by (simp only: slash_minority_def c1 fst_conv)
  moreover have "int (unat (sat_sub (sl_stake_of l r) (slash_amount (sl_stake_of l r) (Fin f)))) =
      int (unat (sl_stake_of l r)) - \<lfloor>of_nat (unat (sl_stake_of l r)) * f\<rfloor>"
    using amount unfolding unat_sat_sub by linarith
  ultimately show ?thesis
    by (cases "list_ex (\<lambda>att. at_runner_id att = r \<and> at_artifact_hash att \<noteq> c) atts \<and> hm_contains (sl_stakes l) r")
      (simp_all only: if_True if_False diff_zero simp_thms)
qed

theorem slash_minority_faithful_witness:
  "let att = \<lparr>at_version = 1, at_job_id = [], at_commit = [], at_runner_id = 7, at_result = APass,
         at_environment_hash = [], at_artifact_hash = [1], at_timestamp_unix_ns = 0, at_signature = []\<rparr>
   in int (unat (sl_stake_of (fst (slash_minority [2] [att] (Fin (1 / 4)) \<lparr>sl_stakes = [(7, 103)]\<rparr>)) 7)) = 78"
proof -
  have "(1 / 4 :: rat) = of_nat 1 * 2 powi (- 2)" by (simp add: power_int_def power2_eq_square)
  then have r: "representable 24 (1 / 4)" unfolding representable_def by (intro exI [of _ 1] exI [of _ "- 2"]) simp
  have "\<lfloor>103 / 4 :: rat\<rfloor> = 25" by (rule floor_unique) simp_all
  then show ?thesis unfolding Let_def
    by (subst slash_minority_faithful [OF _ _ r]) (simp_all add: sl_stake_of_def hm_get_or_def hm_contains_def)
qed

text \<open>for any fraction, NaN and infinities included, and any attestations, repeated ones
  included, no stake ever grows.\<close>

theorem slash_never_raises:
  "sl_stake_of (fst (slash_minority c atts f l)) r \<le> sl_stake_of l r"
proof -
  have "sl_stake_of (fst (fold (slash_one c g) atts p)) r \<le> sl_stake_of (fst p) r" for g p
  proof (induction atts arbitrary: p)
    case (Cons att atts)
    have "sl_stake_of (fst (slash_one c g att p)) r \<le> sl_stake_of (fst p) r"
      using slash_one_stake [of c g att "fst p" "snd p" r] by (simp add: word_nat)
    then show ?case using Cons.IH [of "slash_one c g att p"] by simp
  qed simp
  then show ?thesis unfolding slash_minority_def by (metis fst_conv)
qed

lemma f64_loses_unit: "f64 9007199254740993 = 9007199254740992"
proof -
  have p: "(2 :: rat) powi 53 = 9007199254740992" "(2 :: rat) powi 54 = 18014398509481984"
    "(2 :: rat) powi 1 = 2" by (simp_all add: power_int_def)
  have "flog2 9007199254740993 = 53" by (rule flog2_unique) (simp_all add: p)
  then have u: "ulp 53 9007199254740993 = 2" by (simp add: ulp_def p)
  have "\<lfloor>9007199254740993 / 2 :: rat\<rfloor> = 4503599627370496" by (rule floor_unique) simp_all
  then have "round_even (9007199254740993 / 2) = 4503599627370496" by (simp add: round_even_def Let_def)
  then show ?thesis by (simp add: fl_def u)
qed

text \<open>a full slash need not empty a stake: at \<open>2^53 + 1\<close> the conversion to floating
  point loses the last unit, and a fraction of one leaves a stake of one.\<close>

theorem slash_full_leaves_stake:
  "let att = \<lparr>at_version = 1, at_job_id = [], at_commit = [], at_runner_id = 7, at_result = APass,
         at_environment_hash = [], at_artifact_hash = [1], at_timestamp_unix_ns = 0, at_signature = []\<rparr>
   in sl_stake_of (fst (slash_minority [2] [att] (Fin 1) \<lparr>sl_stakes = [(7, 9007199254740993)]\<rparr>)) 7 = 1"
proof -
  have "representable 53 9007199254740992"
    unfolding representable_def by (intro exI [of _ 1] exI [of _ 53]) (simp add: power_int_def)
  then have "f64 9007199254740992 = 9007199254740992" by (intro fl_exact) simp_all
  then have "slash_amount 9007199254740993 (Fin 1) = 9007199254740992"
    by (simp add: f64_loses_unit unsigned_minus_1_eq_mask mask_eq_exp_minus_1)
  then show ?thesis
    by (simp add: Let_def slash_minority_def slash_one_def sl_slash_def sl_stake_of_def hm_get_or_def hm_contains_def sat_sub_def
        del: slash_amount.simps)
qed

text \<open>reputation is a score in the unit interval that moves with behaviour: one more
  agreement never lowers it and one more disagreement never raises it, rounding included,
  for every history shorter than \<open>2^53 - 1\<close> votes.\<close>

theorem reputation_monotone:
  assumes "length h + 1 < 2 ^ 53"
  shows "reputation (h @ [Disagree]) \<le> reputation h \<and> reputation h \<le> reputation (h @ [Agree]) \<and>
    0 \<le> reputation h \<and> reputation h \<le> 1"
proof (cases "h = []")
  case True
  then show ?thesis by (simp add: reputation_def agreement_rate_def INITIAL_REPUTATION_def)
next
  case False
  let ?a = "length (filter (\<lambda>o'. o' = Agree) h)" and ?n = "length h"
  have n: "0 < ?n" "?a \<le> ?n" using False by simp_all
  have len: "length h < 2 ^ 53" "length (h @ [x]) < 2 ^ 53" for x using assms by simp_all
  have "reputation h = f64 (of_nat ?a / of_nat ?n)"
    "reputation (h @ [Agree]) = f64 (of_nat (Suc ?a) / of_nat (Suc ?n))"
    "reputation (h @ [Disagree]) = f64 (of_nat ?a / of_nat (Suc ?n))"
    unfolding reputation_def
    using agreement_rate_ratio [OF len(1) False] agreement_rate_ratio [OF len(2), of Agree] agreement_rate_ratio [OF len(2), of Disagree]
    by simp_all
  moreover have "f64 (of_nat ?a / of_nat (Suc ?n)) \<le> f64 (of_nat ?a / of_nat ?n)"
    by (rule f64_ratio_mono) (use n in simp_all)
  moreover have "f64 (of_nat ?a / of_nat ?n) \<le> f64 (of_nat (Suc ?a) / of_nat (Suc ?n))"
    by (rule f64_ratio_mono) (use n in simp_all)
  ultimately show ?thesis using f64_ratio_unit [OF n(2,1)] by simp
qed

theorem reputation_monotone_witness:
  "reputation [Agree, Disagree] \<le> reputation [Agree, Disagree, Agree]"
  using reputation_monotone [of "[Agree, Disagree]"] by simp

lemma flake_confidence_monotone:
  assumes "t \<noteq> 0" "d \<le> d'"
  shows "flake_confidence d t \<le> flake_confidence d' t" "flake_confidence 0 t = 0" "flake_confidence t t = 1"
    "d' \<le> t \<Longrightarrow> flake_confidence d' t \<le> 1"
proof -
  have t: "0 < unat t" using assms(1) by (simp add: unat_gt_0)
  have d: "unat d \<le> unat d'" using assms(2) by (simp add: word_nat)
  show "flake_confidence d t \<le> flake_confidence d' t" unfolding flake_ratio [OF assms(1)]
    by (rule f64_ratio_mono [OF _ t t]) (use d in simp)
  show "flake_confidence 0 t = 0" by (simp add: flake_ratio [OF assms(1)])
  have "of_nat (unat t) / of_nat (unat t) = (1 :: rat)" using t by (simp only: divide_self_if of_nat_eq_0_iff) auto
  then show "flake_confidence t t = 1" unfolding flake_ratio [OF assms(1)] by simp
  show "d' \<le> t \<Longrightarrow> flake_confidence d' t \<le> 1" unfolding flake_ratio [OF assms(1)]
    using f64_ratio_unit [OF _ t, of "unat d'"] by (simp only: word_le_nat_alt)
qed

end
