(* ===== verification/Enrollment.thy ===== *)
theory Enrollment
  imports Tenant Floating
begin

text \<open>
  The enrollment registry and its file format (\<open>cosaci-state/src/enrollment.rs\<close>). The
  loader is an instance of \<open>record_file\<close>, the hexadecimal parser of \<open>hex_reader\<close> (it
  also takes upper-case digits). The reputation column is a single-precision number:
  \<open>parse_f32\<close> is the grammar of Rust's \<open>f32::from_str\<close> followed by rounding to 24 bits.
  Values so small that they round to zero are zero; the reduced precision just above that
  limit is not modelled, it cannot be seen in thousandths.
\<close>

unbundle bit_operations_syntax

section \<open>Numbers\<close>

definition parse_i64 :: "bytes \<Rightarrow> int option" where
  "parse_i64 s =
     (let (neg, ds) = (case s of [] \<Rightarrow> (False, []) | b # bs \<Rightarrow> if b = 43 then (False, bs) else if b = 45 then (True, bs) else (False, s)) in
      if ds = [] then None
      else case dec_value 0 ds of None \<Rightarrow> None
        | Some n \<Rightarrow> if neg then (if n \<le> 2 ^ 63 then Some (- int n) else None)
            else (if n < 2 ^ 63 then Some (int n) else None))"

text \<open>\<open>f32::from_str\<close>: an optional sign, then \<open>inf\<close>, \<open>infinity\<close> or \<open>nan\<close> in any case, or
  digits with at most one point and at least one digit, and an optional exponent.\<close>

datatype f32 = F32NaN | F32Inf bool | F32 rat

definition is_digit :: "u8 \<Rightarrow> bool" where
  "is_digit b \<longleftrightarrow> 48 \<le> b \<and> b \<le> 57"

definition lower_byte :: "u8 \<Rightarrow> u8" where
  "lower_byte b = (if 65 \<le> b \<and> b \<le> 90 then b + 32 else b)"

definition split_sign :: "bytes \<Rightarrow> bool \<times> bytes" where
  "split_sign s = (case s of [] \<Rightarrow> (False, []) | b # bs \<Rightarrow> if b = 43 then (False, bs) else if b = 45 then (True, bs) else (False, s))"

definition parse_exponent :: "bytes \<Rightarrow> int option" where
  "parse_exponent s =
     (case s of [] \<Rightarrow> Some 0
      | b # bs \<Rightarrow> if b \<noteq> 101 \<and> b \<noteq> 69 then None
          else let (neg, ds) = split_sign bs in
            if ds = [] then None else map_option (\<lambda>n. if neg then - int n else int n) (dec_value 0 ds))"

definition parse_decimal :: "bytes \<Rightarrow> rat option" where
  "parse_decimal s =
     (let whole = takeWhile is_digit s; rest = dropWhile is_digit s;
          frac = (case rest of b # bs \<Rightarrow> if b = 46 then takeWhile is_digit bs else [] | [] \<Rightarrow> []);
          tail = (case rest of b # bs \<Rightarrow> if b = 46 then dropWhile is_digit bs else rest | [] \<Rightarrow> [])
      in if whole = [] \<and> frac = [] then None
         else case dec_value 0 (whole @ frac) of None \<Rightarrow> None
           | Some n \<Rightarrow> map_option (\<lambda>e. of_nat n * 10 powi (e - int (length frac))) (parse_exponent tail))"

definition f32_round :: "rat \<Rightarrow> rat option" where
  "f32_round x = (if x \<le> 2 powi (- 150) then Some 0 else if (2 - 2 powi (- 24)) * 2 powi 127 \<le> x then None else Some (fl 24 x))"

definition parse_f32 :: "bytes \<Rightarrow> f32 option" where
  "parse_f32 s =
     (let (neg, t) = split_sign s; l = map lower_byte t in
      if l = ascii ''inf'' \<or> l = ascii ''infinity'' then Some (F32Inf neg)
      else if l = ascii ''nan'' then Some F32NaN
      else map_option (\<lambda>x. case f32_round x of None \<Rightarrow> F32Inf neg | Some y \<Rightarrow> F32 (if neg then - y else y)) (parse_decimal t))"

text \<open>\<open>f32::round\<close> of a non-negative value: half away from zero.\<close>

definition round_half_up :: "rat \<Rightarrow> int" where
  "round_half_up x = \<lfloor>x + 1 / 2\<rfloor>"

section \<open>Records\<close>

record enrolled_record =
  en_runner_id :: u64
  en_signing_fp :: bytes
  en_vrf_fp :: bytes
  en_enrolled_at_unix_ns :: int
  en_initial_reputation_milli :: u16

definition en_initial_reputation :: "enrolled_record \<Rightarrow> rat" where
  "en_initial_reputation r = fl 24 (of_nat (unat (en_initial_reputation_milli r)) / 1000)"

type_synonym enrollment_set = "(u64, enrolled_record) hmap"

definition enroll_new :: enrollment_set where
  "enroll_new = []"

definition enroll_insert :: "enrolled_record \<Rightarrow> enrollment_set \<Rightarrow> enrollment_set \<times> enrolled_record option" where
  "enroll_insert r s = (hm_insert (en_runner_id r) r s, hm_get s (en_runner_id r))"

definition enroll_len :: "enrollment_set \<Rightarrow> nat" where
  "enroll_len s = length s"

definition enroll_get :: "enrollment_set \<Rightarrow> u64 \<Rightarrow> enrolled_record option" where
  "enroll_get s i = hm_get s i"

definition enroll_iter :: "enrollment_set \<Rightarrow> enrolled_record list" where
  "enroll_iter s = map snd s"

definition is_enrolled :: "enrollment_set \<Rightarrow> u64 \<Rightarrow> bytes \<Rightarrow> bytes \<Rightarrow> bool" where
  "is_enrolled s i signing_fp vrf_fp =
     (case hm_get s i of Some r \<Rightarrow> en_signing_fp r = signing_fp \<and> en_vrf_fp r = vrf_fp | None \<Rightarrow> False)"

datatype enroll_fault =
  MissingField string | BadField string | TrailingFields | ReputationRange | BadHex string

datatype enroll_error = EnrollNotFound | EnrollInvalid nat enroll_fault

definition hex_digit :: "u8 \<Rightarrow> u8 option" where
  "hex_digit b =
     (if 48 \<le> b \<and> b \<le> 57 then Some (b - 48)
      else if 97 \<le> b \<and> b \<le> 102 then Some (b - 97 + 10)
      else if 65 \<le> b \<and> b \<le> 70 then Some (b - 65 + 10)
      else None)"

definition enroll_parse_hex32 :: "bytes \<Rightarrow> bytes option" where
  "enroll_parse_hex32 s = (if length s \<noteq> 64 then None else hex_pairs hex_digit s)"

definition next_field :: "bytes list \<Rightarrow> string \<Rightarrow> enroll_fault + (bytes \<times> bytes list)" where
  "next_field fs name = (case fs of [] \<Rightarrow> Inl (MissingField name) | f # rest \<Rightarrow> Inr (f, rest))"

definition reputation_milli :: "rat \<Rightarrow> u16" where
  "reputation_milli rep = of_int (round_half_up (fl 24 (rep * 1000)))"

definition enroll_finish :: "u64 \<Rightarrow> bytes \<Rightarrow> bytes \<Rightarrow> int \<Rightarrow> f32 \<Rightarrow> bytes list \<Rightarrow> enroll_fault + enrolled_record" where
  "enroll_finish rid sfp vfp at_ns rep rest =
     (if rest \<noteq> [] then Inl TrailingFields
      else case rep of F32 x \<Rightarrow>
          if 0 \<le> x \<and> x \<le> 1 then
            (case enroll_parse_hex32 sfp of None \<Rightarrow> Inl (BadHex ''signing_fp'')
             | Some s \<Rightarrow> (case enroll_parse_hex32 vfp of None \<Rightarrow> Inl (BadHex ''vrf_fp'')
                 | Some v \<Rightarrow> Inr \<lparr>en_runner_id = rid, en_signing_fp = s, en_vrf_fp = v,
                     en_enrolled_at_unix_ns = at_ns, en_initial_reputation_milli = reputation_milli x\<rparr>))
          else Inl ReputationRange
      | _ \<Rightarrow> Inl ReputationRange)"

definition enroll_parse_line :: "bytes \<Rightarrow> enroll_fault + enrolled_record" where
  "enroll_parse_line line =
     (case next_field (split_fields is_space [] line) ''runner_id'' of Inl e \<Rightarrow> Inl e
      | Inr (a, fs) \<Rightarrow> (case parse_u64 a of None \<Rightarrow> Inl (BadField ''runner_id'')
      | Some rid \<Rightarrow> (case next_field fs ''signing_fp'' of Inl e \<Rightarrow> Inl e
      | Inr (b, fs) \<Rightarrow> (case next_field fs ''vrf_fp'' of Inl e \<Rightarrow> Inl e
      | Inr (c, fs) \<Rightarrow> (case next_field fs ''enrolled_at_unix_ns'' of Inl e \<Rightarrow> Inl e
      | Inr (d, fs) \<Rightarrow> (case parse_i64 d of None \<Rightarrow> Inl (BadField ''enrolled_at_unix_ns'')
      | Some at_ns \<Rightarrow> (case next_field fs ''initial_reputation'' of Inl e \<Rightarrow> Inl e
      | Inr (e, fs) \<Rightarrow> (case parse_f32 e of None \<Rightarrow> Inl (BadField ''initial_reputation'')
      | Some rep \<Rightarrow> enroll_finish rid b c at_ns rep fs))))))))"

definition enroll_parse_numbered :: "nat \<Rightarrow> bytes \<Rightarrow> enroll_error + enrolled_record" where
  "enroll_parse_numbered lineno line =
     (case enroll_parse_line line of Inl e \<Rightarrow> Inl (EnrollInvalid lineno e) | Inr r \<Rightarrow> Inr r)"

definition enroll_parse :: "bytes \<Rightarrow> enroll_error + enrollment_set" where
  "enroll_parse text =
     load_records enroll_parse_numbered (\<lambda>r s. Inr (fst (enroll_insert r s))) (data_lines text) enroll_new"

definition enroll_load :: "bytes option \<Rightarrow> enroll_error + enrollment_set" where
  "enroll_load content = (case content of None \<Rightarrow> Inl EnrollNotFound | Some text \<Rightarrow> enroll_parse text)"

definition enroll_fingerprint :: "crypto \<Rightarrow> bytes \<Rightarrow> bytes" where
  "enroll_fingerprint cr pubkey = cr_sha256 cr pubkey"

definition enroll_fingerprint_hex :: "bytes \<Rightarrow> bytes" where
  "enroll_fingerprint_hex fp = hex_encode fp"

text \<open>What the coordinator writes for an enrollment: the reputation column is Rust's
  shortest decimal for thousandths.\<close>

definition show_i64 :: "int \<Rightarrow> bytes" where
  "show_i64 n = (if n < 0 then 45 # dec_digits (nat (- n)) else dec_digits (nat n))"

definition show_milli :: "nat \<Rightarrow> bytes" where
  "show_milli m =
     (if m = 0 then [48] else if 1000 \<le> m then [49]
      else [48, 46] @
        (if m mod 100 = 0 then [48 + of_nat (m div 100)]
         else if m mod 10 = 0 then [48 + of_nat (m div 100), 48 + of_nat (m div 10 mod 10)]
         else [48 + of_nat (m div 100), 48 + of_nat (m div 10 mod 10), 48 + of_nat (m mod 10)]))"

section \<open>The record format\<close>

interpretation enroll_hex: hex_reader hex_digit
proof unfold_locales
  fix n :: u8
  assume "n < 16"
  moreover have "\<forall>n\<in>set (map of_nat [0..<16]). hex_digit (hex_char n) = Some n" by code_simp
  ultimately show "hex_digit (hex_char n) = Some n" using u8_less_16 by blast
qed

lemma enroll_parse_lineE:
  assumes "enroll_parse_line l = Inr r"
  obtains a b c d e x where "split_fields is_space [] l = [a, b, c, d, e]" "parse_u64 a = Some (en_runner_id r)"
    "enroll_parse_hex32 b = Some (en_signing_fp r)" "enroll_parse_hex32 c = Some (en_vrf_fp r)"
    "parse_i64 d = Some (en_enrolled_at_unix_ns r)" "parse_f32 e = Some (F32 x)" "0 \<le> x" "x \<le> 1"
    "en_initial_reputation_milli r = reputation_milli x"
  using assms
  by (auto simp: enroll_parse_line_def next_field_def enroll_finish_def split: list.splits option.splits f32.splits if_splits)

lemma enroll_parse_line_ok:
  assumes "split_fields is_space [] l = [a, b, c, d, e]" "parse_u64 a = Some (en_runner_id r)"
    "enroll_parse_hex32 b = Some (en_signing_fp r)" "enroll_parse_hex32 c = Some (en_vrf_fp r)"
    "parse_i64 d = Some (en_enrolled_at_unix_ns r)" "parse_f32 e = Some (F32 x)" "0 \<le> x" "x \<le> 1"
    "en_initial_reputation_milli r = reputation_milli x"
  shows "enroll_parse_line l = Inr r"
  using assms by (cases r) (simp add: enroll_parse_line_def next_field_def enroll_finish_def)

abbreviation enroll_store :: "enrolled_record \<Rightarrow> enrollment_set \<Rightarrow> enroll_error + enrollment_set" where
  "enroll_store r s \<equiv> Inr (fst (enroll_insert r s))"

interpretation enrollments: record_file enroll_parse_numbered en_runner_id enroll_store
proof unfold_locales
  fix n l r k
  assume p: "enroll_parse_numbered n l = Inr r" and l: "is_data l" "\<not> is_space (hd l)"
  then obtain a ws where a: "split_fields is_space [] l = a # ws" "parse_u64 a = Some (en_runner_id r)"
    by (auto simp: enroll_parse_numbered_def split: sum.splits elim: enroll_parse_lineE)
  have "dropWhile is_space l = l" using l by (cases l) (auto simp: is_data_def)
  then show "line_of_id k l \<longleftrightarrow> en_runner_id r = k" using l a
    by (simp add: line_of_id_def Let_def is_data_def first_word_def)
qed (auto simp: enroll_parse_numbered_def enroll_insert_def split: sum.splits)

section \<open>Reputation in thousandths\<close>

lemma round_half_up_close: "\<bar>x - of_int n\<bar> < 1 / 2 \<Longrightarrow> round_half_up x = n"
  unfolding round_half_up_def abs_less_iff by (rule floor_unique) linarith+

lemma reputation_milli_bound:
  assumes "0 \<le> x" "x \<le> 1" shows "unat (reputation_milli x) \<le> 1000"
proof -
  have "fl 24 (x * 1000) \<le> fl 24 1000" using assms(2) by (intro fl_mono) simp_all
  also have "fl 24 1000 = 1000" using fl_nat [of 1000 24] by simp
  finally have hi: "fl 24 (x * 1000) \<le> 1000" .
  have "round_half_up (fl 24 (x * 1000)) \<le> \<lfloor>1000 + 1 / 2 :: rat\<rfloor>" unfolding round_half_up_def using hi by (intro floor_mono) simp
  also have "\<lfloor>1000 + 1 / 2 :: rat\<rfloor> = 1000" by (rule floor_unique) simp_all
  finally have "round_half_up (fl 24 (x * 1000)) \<le> 1000" .
  moreover have "0 \<le> round_half_up (fl 24 (x * 1000))" unfolding round_half_up_def using fl_nonneg [of 24 "x * 1000"] by simp
  ultimately obtain k where "round_half_up (fl 24 (x * 1000)) = int k" "k \<le> 1000"
    by (metis nonneg_int_cases of_nat_le_iff of_nat_numeral)
  then show ?thesis by (simp add: reputation_milli_def unat_of_nat)
qed

text \<open>Thousandths survive both roundings.\<close>

lemma reputation_milli_exact:
  assumes "m \<le> 1000" shows "reputation_milli (fl 24 (of_nat m / 1000)) = of_nat m"
proof -
  let ?x = "of_nat m / 1000 :: rat"
  have x: "0 \<le> ?x" "?x \<le> 1" using assms by simp_all
  have "\<bar>fl 24 ?x - ?x\<bar> \<le> ?x / 2 ^ 24" by (rule fl_error [OF x(1)])
  also have "\<dots> \<le> 1 / 2 ^ 24" using x(2) by (intro divide_right_mono) simp_all
  finally have e1: "\<bar>fl 24 ?x - ?x\<bar> \<le> 1 / 2 ^ 24" .
  let ?y = "fl 24 ?x * 1000"
  have "\<bar>fl 24 ?x - ?x\<bar> * 1000 \<le> 1 / 2 ^ 24 * 1000" by (rule mult_right_mono [OF e1]) simp
  moreover have "\<bar>fl 24 ?x - ?x\<bar> * 1000 = \<bar>?y - of_nat m\<bar>" 
    using abs_mult [of "fl 24 ?x - ?x" 1000] by (simp add: left_diff_distrib)
  ultimately have e2: "\<bar>?y - of_nat m\<bar> \<le> 1 / 4" by simp
  have y: "0 \<le> ?y" using fl_nonneg by simp
  have e3: "?y - of_nat m \<le> 1 / 4" "of_nat m - ?y \<le> 1 / 4" using abs_le_D1 [OF e2] abs_le_D2 [OF e2] by linarith+
  have "(of_nat m :: rat) \<le> 1000" using assms by simp
  then have y_hi: "?y \<le> 1001" using e3(1) by linarith
  have "\<bar>fl 24 ?y - ?y\<bar> \<le> ?y / 2 ^ 24" by (rule fl_error [OF y])
  also have "\<dots> \<le> 1001 / 2 ^ 24" using y_hi by (intro divide_right_mono) simp_all
  also have "\<dots> < 1 / 4" by simp
  finally have "\<bar>fl 24 ?y - of_int (int m)\<bar> < 1 / 2" using e3 unfolding abs_less_iff of_int_of_nat_eq by linarith
  from round_half_up_close [OF this] show ?thesis by (simp add: reputation_milli_def)
qed

lemma digit_byte:
  assumes "d < 10"
  shows "is_digit (48 + of_nat d)" "\<not> is_space (48 + of_nat d)"
proof -
  have "\<forall>d\<in>set [0..<10]. is_digit (48 + of_nat d) \<and> \<not> is_space (48 + of_nat d)" by code_simp
  then show "is_digit (48 + of_nat d)" "\<not> is_space (48 + of_nat d)" using assms by simp_all
qed

lemma parse_decimal_frac:
  assumes "list_all (\<lambda>d. d < 10) ds" "ds \<noteq> []"
  shows "parse_decimal ([48, 46] @ map (\<lambda>d. 48 + of_nat d) ds) =
    Some (of_nat (fold (\<lambda>d n. 10 * n + d) ds 0) * 10 powi (- int (length ds)))"
proof -
  let ?t = "map (\<lambda>d. 48 + of_nat d :: u8) ds"
  have dig: "list_all is_digit ?t" using assms(1) by (auto simp: list_all_iff digit_byte)
  then have tw: "takeWhile is_digit ?t = ?t" "dropWhile is_digit ?t = []"
    by (auto simp: list_all_iff)
  have val: "dec_value acc ?t = Some (fold (\<lambda>d n. 10 * n + d) ds acc)" for acc
    using assms(1) by (induction ds arbitrary: acc) (simp_all add: digit_value_digit)
  have z: "is_digit 48" "\<not> is_digit 46" by (simp_all add: is_digit_def)
  have "dec_value 0 (48 # ?t) = dec_value 0 ?t" by (simp add: digit_value_def)
  then show ?thesis using assms(2) val [of 0]
    by (simp add: parse_decimal_def Let_def z tw parse_exponent_def)
qed

lemma parse_f32_decimal:
  assumes "parse_decimal s = Some x" "s \<noteq> []" "is_digit (hd s)" "x \<le> 1" "x = 0 \<or> 1 / 1000 \<le> x"
  shows "parse_f32 s = Some (F32 (fl 24 x))"
proof -
  obtain b t where s: "s = b # t" using assms(2) by (cases s) auto
  have b: "48 \<le> b" "b \<le> 57" using assms(3) s by (simp_all add: is_digit_def)
  then have ns: "b \<noteq> 43" "b \<noteq> 45" "lower_byte b \<noteq> 105" "lower_byte b \<noteq> 110"
    by (auto simp: lower_byte_def word_nat)
  have "f32_round x = Some (fl 24 x)"
  proof -
    have "(2 :: rat) powi (- 150) < 1 / 1000" by (simp add: power_int_def power_one_over)
    moreover have "(1 :: rat) < (2 - 2 powi (- 24)) * 2 powi 127" by (simp add: power_int_def power_one_over)
    ultimately show ?thesis using assms(4,5) by (auto simp: f32_round_def)
  qed
  then show ?thesis using assms(1) ns
    by (simp add: parse_f32_def split_sign_def s Let_def ascii_def of_char_def)
qed

text \<open>The digits of a reputation between zero and one.\<close>

definition milli_digits :: "nat \<Rightarrow> nat list" where
  "milli_digits m =
     (if m mod 100 = 0 then [m div 100]
      else if m mod 10 = 0 then [m div 100, m div 10 mod 10] else [m div 100, m div 10 mod 10, m mod 10])"

lemma show_milli_digits: "0 < m \<Longrightarrow> m < 1000 \<Longrightarrow> show_milli m = [48, 46] @ map (\<lambda>d. 48 + of_nat d) (milli_digits m)"
  by (simp add: show_milli_def milli_digits_def)

lemma milli_digits_value:
  assumes "m < 1000"
  shows "list_all (\<lambda>d. d < 10) (milli_digits m)" "milli_digits m \<noteq> []"
    "of_nat (fold (\<lambda>d n. 10 * n + d) (milli_digits m) 0) * 10 powi (- int (length (milli_digits m))) = (of_nat m / 1000 :: rat)"
proof -
  have "m div 100 < 10" using assms by simp
  then show "list_all (\<lambda>d. d < 10) (milli_digits m)" by (simp add: milli_digits_def)
  show "milli_digits m \<noteq> []" by (simp add: milli_digits_def)
  have split: "m = 100 * (m div 100) + 10 * (m div 10 mod 10) + m mod 10"
  proof -
    have "m = m div 10 * 10 + m mod 10" by (rule div_mult_mod_eq [symmetric])
    moreover have "m div 10 = m div 100 * 10 + m div 10 mod 10"
      using div_mult_mod_eq [of "m div 10" 10] div_mult2_eq [of m 10 10] by simp
    ultimately show ?thesis by linarith
  qed
  have two: "m mod 100 = 0 \<Longrightarrow> m = 100 * (m div 100)" "m mod 10 = 0 \<Longrightarrow> m = 10 * (10 * (m div 100) + m div 10 mod 10)"
    using split by auto
  have p: "(10 :: rat) powi (- 1) = 1 / 10" "(10 :: rat) powi (- 2) = 1 / 100" "(10 :: rat) powi (- 3) = 1 / 1000"
    by (simp_all add: power_int_def power_one_over)
  show "of_nat (fold (\<lambda>d n. 10 * n + d) (milli_digits m) 0) * 10 powi (- int (length (milli_digits m))) = (of_nat m / 1000 :: rat)"
  proof (cases "m mod 100 = 0")
    case True
    then have "(of_nat m :: rat) = 100 * of_nat (m div 100)" using two(1) by (metis of_nat_mult of_nat_numeral)
    then show ?thesis using True by (simp add: milli_digits_def p)
  next
    case ne: False
    show ?thesis
    proof (cases "m mod 10 = 0")
      case True
      then have "(of_nat m :: rat) = 10 * of_nat (10 * (m div 100) + m div 10 mod 10)" using two(2) by (metis of_nat_mult of_nat_numeral)
      then show ?thesis using True ne by (simp add: milli_digits_def p)
    next
      case False
      have "10 * (10 * (m div 100) + m div 10 mod 10) + m mod 10 = m" using split by simp
      then have "fold (\<lambda>d n. 10 * n + d) [m div 100, m div 10 mod 10, m mod 10] 0 = m" by simp
      then show ?thesis using False ne unfolding milli_digits_def if_not_P [OF ne] if_not_P [OF False] by (simp add: p)
    qed
  qed
qed

lemma parse_show_milli:
  assumes "m \<le> 1000" shows "parse_f32 (show_milli m) = Some (F32 (fl 24 (of_nat m / 1000)))"
proof (cases "m = 0 \<or> m = 1000")
  case True
  have "parse_decimal [48] = Some 0" "parse_decimal [49] = Some 1"
    by (simp_all add: parse_decimal_def Let_def is_digit_def digit_value_def parse_exponent_def)
  then show ?thesis using True parse_f32_decimal [of "[48]" 0] parse_f32_decimal [of "[49]" 1]
    by (auto simp: show_milli_def is_digit_def)
next
  case False
  then have m: "0 < m" "m < 1000" using assms by auto
  then have r: "1 / 1000 \<le> (of_nat m / 1000 :: rat)" "(of_nat m / 1000 :: rat) \<le> 1" by simp_all
  have "parse_decimal (show_milli m) = Some (of_nat m / 1000)"
    unfolding show_milli_digits [OF m] parse_decimal_frac [OF milli_digits_value(1,2) [OF m(2)]] milli_digits_value(3) [OF m(2)] ..
  then show ?thesis using r by (intro parse_f32_decimal) (simp_all add: show_milli_digits [OF m] is_digit_def)
qed

lemma parse_show_i64: "- (2 ^ 63) \<le> n \<Longrightarrow> n < 2 ^ 63 \<Longrightarrow> parse_i64 (show_i64 n) = Some n"
proof -
  assume n: "- (2 ^ 63) \<le> n" "n < 2 ^ 63"
  have ne: "dec_digits k \<noteq> []" for k by (subst dec_digits.simps) simp
  have hd: "hd (dec_digits k) \<noteq> 43" "hd (dec_digits k) \<noteq> 45" for k
    using dec_digits_range [OF hd_in_set [OF ne], of k] by (auto simp: word_nat)
  show ?thesis
  proof (cases "n < 0")
    case True
    then show ?thesis using n ne dec_value_digits [of "nat (- n)"] by (simp add: show_i64_def parse_i64_def nat_le_iff)
  next
    case False
    then show ?thesis using n ne [of "nat n"] hd [of "nat n"] dec_value_digits [of "nat n"]
      by (cases "dec_digits (nat n)") (simp_all add: show_i64_def parse_i64_def nat_less_iff)
  qed
qed

section \<open>The line of a record\<close>

definition enrollment_line :: "u64 \<Rightarrow> bytes \<Rightarrow> bytes \<Rightarrow> int \<Rightarrow> nat \<Rightarrow> bytes" where
  "enrollment_line rid sfp vfp at_ns m =
     show_u64 rid @ [32] @ enroll_fingerprint_hex sfp @ [32] @ enroll_fingerprint_hex vfp @ [32] @
     show_i64 at_ns @ [32] @ show_milli m"

lemma word_show_i64: "word_bytes (show_i64 n)"
proof -
  have "word_bytes (dec_digits k)" for k
  proof -
    have "\<not> is_space b" if "b \<in> set (dec_digits k)" for b
      using dec_digits_range [OF that] by (auto simp: is_space_def word_nat)
    moreover have "dec_digits k \<noteq> []" by (subst dec_digits.simps) simp
    ultimately show ?thesis by (simp add: word_bytes_def list_all_iff)
  qed
  then show ?thesis by (simp add: show_i64_def word_bytes_def is_space_def)
qed

lemma word_show_milli: "m \<le> 1000 \<Longrightarrow> word_bytes (show_milli m)"
proof (cases "m = 0 \<or> m = 1000")
  case False
  assume "m \<le> 1000"
  with False have m: "0 < m" "m < 1000" by auto
  have "\<not> is_space 48" "\<not> is_space 46" by (simp_all add: is_space_def)
  then show ?thesis using milli_digits_value(1) [OF m(2)]
    by (auto simp: show_milli_digits [OF m] word_bytes_def list_all_iff digit_byte)
qed (auto simp: show_milli_def word_bytes_def is_space_def)

lemma enroll_hex32_encode: "length fp = 32 \<Longrightarrow> enroll_parse_hex32 (enroll_fingerprint_hex fp) = Some fp"
  by (simp add: enroll_parse_hex32_def enroll_fingerprint_hex_def enroll_hex.decode_encode)

lemma enroll_fp_word: "length fp = 32 \<Longrightarrow> word_bytes (enroll_fingerprint_hex fp)"
  by (auto simp: enroll_fingerprint_hex_def intro: word_hex_encode)

lemma split_space_word:
  "word_bytes w \<Longrightarrow> split_fields is_space [] (w @ 32 # s) = w # split_fields is_space [] s"
  "word_bytes w \<Longrightarrow> split_fields is_space [] w = [w]"
  using fields_word_sep [of is_space w 32 s] fields_word_end [of is_space w] by (simp_all add: word_bytes_def)

lemma enroll_parse_enrollment_line:
  assumes "length sfp = 32" "length vfp = 32" "- (2 ^ 63) \<le> at_ns" "at_ns < 2 ^ 63" "m \<le> 1000"
  shows "enroll_parse_line (enrollment_line rid sfp vfp at_ns m) =
    Inr \<lparr>en_runner_id = rid, en_signing_fp = sfp, en_vrf_fp = vfp, en_enrolled_at_unix_ns = at_ns,
         en_initial_reputation_milli = of_nat m\<rparr>"
proof -
  have "0 \<le> fl 24 (of_nat m / 1000)" by (rule fl_nonneg)
  moreover have "fl 24 (of_nat m / 1000) \<le> fl 24 1" using assms(5) by (intro fl_mono) simp_all
  ultimately show ?thesis
    by (intro enroll_parse_line_ok [of _ "show_u64 rid" "enroll_fingerprint_hex sfp" "enroll_fingerprint_hex vfp"
        "show_i64 at_ns" "show_milli m" _ "fl 24 (of_nat m / 1000)"])
      (simp_all add: assms enrollment_line_def split_space_word enroll_fp_word word_show_i64 word_show_milli
        enroll_hex32_encode parse_show_i64 [OF assms(3,4)] parse_show_milli reputation_milli_exact)
qed

lemma enrollment_line_trim:
  assumes "length sfp = 32" "length vfp = 32" "m \<le> 1000"
  shows "trim (enrollment_line rid sfp vfp at_ns m) = enrollment_line rid sfp vfp at_ns m"
    "10 \<notin> set (enrollment_line rid sfp vfp at_ns m)" "is_data (enrollment_line rid sfp vfp at_ns m)"
proof -
  let ?mid = "[32] @ enroll_fingerprint_hex sfp @ [32] @ enroll_fingerprint_hex vfp @ [32] @ show_i64 at_ns @ [32]"
  have l: "enrollment_line rid sfp vfp at_ns m = show_u64 rid @ ?mid @ show_milli m" by (simp add: enrollment_line_def)
  have mid: "set ?mid \<inter> {10, 13} = {}"
    using word_bytes_mid [OF enroll_fp_word [OF assms(1)]] word_bytes_mid [OF enroll_fp_word [OF assms(2)]]
      word_bytes_mid [OF word_show_i64] by auto
  note w = line_of_words [OF word_show_u64 word_show_milli [OF assms(3)] mid]
  show "trim (enrollment_line rid sfp vfp at_ns m) = enrollment_line rid sfp vfp at_ns m"
    "10 \<notin> set (enrollment_line rid sfp vfp at_ns m)" unfolding l by (rule w)+
  have "hd (show_u64 rid) \<noteq> 35"
    using dec_digits_range [of "hd (show_u64 rid)" "unat rid"] word_show_u64 [of rid] by (auto simp: show_u64_def word_bytes_def)
  then show "is_data (enrollment_line rid sfp vfp at_ns m)" using word_show_u64 [of rid]
    by (simp add: is_data_def l hd_append word_bytes_def)
qed

section \<open>What a load holds\<close>

lemma enroll_load_records:
  assumes "load_records enroll_parse_numbered enroll_store ls m = Inr s"
  shows "list_all (\<lambda>(n, l). \<not> isl (enroll_parse_line l)) ls \<and>
    s = fold (\<lambda>r m. hm_insert (en_runner_id r) r m) (map (\<lambda>(n, l). projr (enroll_parse_line l)) ls) m"
  using assms
  by (induction ls arbitrary: m) (auto simp: enroll_parse_numbered_def enroll_insert_def split: sum.splits)

lemma hm_get_fold_insert:
  "hm_get (fold (\<lambda>r m. hm_insert (key r) r m) rs m) k =
    (let qs = filter (\<lambda>r. key r = k) rs in if qs = [] then hm_get m k else Some (last qs))"
  by (induction rs arbitrary: m) (auto simp: hm_simps Let_def)

lemma enroll_load_cases:
  assumes "enroll_load content = Inr s"
  obtains body where "content = Some body" "list_all (\<lambda>(n, l). \<not> isl (enroll_parse_line l)) (data_lines body)"
    "s = fold (\<lambda>r m. hm_insert (en_runner_id r) r m) (map (\<lambda>(n, l). projr (enroll_parse_line l)) (data_lines body)) []"
  using assms enroll_load_records
  by (auto simp: enroll_load_def enroll_parse_def enroll_new_def split: option.splits)

lemma enroll_load_append:
  assumes "length sfp = 32" "length vfp = 32" "- (2 ^ 63) \<le> at_ns" "at_ns < 2 ^ 63" "m \<le> 1000"
    and "enroll_parse body = Inr s" "enroll_get s rid = None"
  shows "enroll_parse (append_line (enrollment_line rid sfp vfp at_ns m) body) =
    Inr (hm_insert rid \<lparr>en_runner_id = rid, en_signing_fp = sfp, en_vrf_fp = vfp, en_enrolled_at_unix_ns = at_ns,
      en_initial_reputation_milli = of_nat m\<rparr> s)"
proof -
  note t = enrollment_line_trim [OF assms(1,2,5), of rid at_ns]
  have p: "enroll_parse_numbered 0 (trim (enrollment_line rid sfp vfp at_ns m)) =
      Inr \<lparr>en_runner_id = rid, en_signing_fp = sfp, en_vrf_fp = vfp, en_enrolled_at_unix_ns = at_ns,
      en_initial_reputation_milli = of_nat m\<rparr>"
    using enroll_parse_enrollment_line [OF assms(1-5), of rid] by (simp add: enroll_parse_numbered_def t)
  show ?thesis using enrollments.load_append [OF _ t(2) _ p] assms(6,7) t
    by (simp add: enroll_parse_def enroll_new_def enroll_get_def)
qed

lemma enroll_load_single:
  assumes "length sfp = 32" "length vfp = 32" "- (2 ^ 63) \<le> at_ns" "at_ns < 2 ^ 63" "m \<le> 1000"
  shows "enroll_load (Some (append_line (enrollment_line rid sfp vfp at_ns m) [])) =
    Inr [(rid, \<lparr>en_runner_id = rid, en_signing_fp = sfp, en_vrf_fp = vfp, en_enrolled_at_unix_ns = at_ns,
      en_initial_reputation_milli = of_nat m\<rparr>)]"
proof -
  have "enroll_parse [] = Inr []" by (simp add: enroll_parse_def data_lines_def enroll_new_def)
  from enroll_load_append [OF assms this, of rid] show ?thesis by (simp add: enroll_load_def enroll_get_def)
qed

definition enrolled_wf :: "u64 \<Rightarrow> enrolled_record \<Rightarrow> bool" where
  "enrolled_wf k r \<longleftrightarrow> en_runner_id r = k \<and> length (en_signing_fp r) = 32 \<and> length (en_vrf_fp r) = 32 \<and>
     - (2 ^ 63) \<le> en_enrolled_at_unix_ns r \<and> en_enrolled_at_unix_ns r < 2 ^ 63 \<and>
     unat (en_initial_reputation_milli r) \<le> 1000"

lemma hex_pairs_length: "hex_pairs nib s = Some bs \<Longrightarrow> length bs = length s div 2"
  by (induction nib s arbitrary: bs rule: hex_pairs.induct) (auto split: option.splits)

lemma parse_i64_range: "parse_i64 s = Some n \<Longrightarrow> - (2 ^ 63) \<le> n \<and> n < 2 ^ 63"
  unfolding parse_i64_def Let_def by (auto split: list.splits if_splits option.splits prod.splits)

lemma enroll_parse_line_wf: "enroll_parse_line l = Inr r \<Longrightarrow> enrolled_wf (en_runner_id r) r"
  by (elim enroll_parse_lineE)
    (auto simp: enrolled_wf_def enroll_parse_hex32_def reputation_milli_bound dest: hex_pairs_length parse_i64_range split: if_splits)

section \<open>Properties\<close>

text \<open>C26: every enrollment set that a file can produce is well typed: each record stands
  under its own runner id, its fingerprints have 32 bytes, its time is a 64-bit integer, and
  its reputation is between 0 and 1000 thousandths.\<close>

theorem enroll_load_well_typed:
  assumes "enroll_load content = Inr s" "enroll_get s k = Some r"
  shows "enrolled_wf k r"
proof -
  obtain body where ok: "list_all (\<lambda>(n, l). \<not> isl (enroll_parse_line l)) (data_lines body)"
    and s: "s = fold (\<lambda>r m. hm_insert (en_runner_id r) r m) (map (\<lambda>(n, l). projr (enroll_parse_line l)) (data_lines body)) []"
    using assms(1) by (rule enroll_load_cases)
  let ?rs = "map (\<lambda>(n, l). projr (enroll_parse_line l)) (data_lines body)"
  have "r = last (filter (\<lambda>r. en_runner_id r = k) ?rs)" "filter (\<lambda>r. en_runner_id r = k) ?rs \<noteq> []"
    using assms(2) unfolding enroll_get_def s hm_get_fold_insert Let_def by (simp_all only: split: if_splits) auto
  then have "r \<in> set (filter (\<lambda>r. en_runner_id r = k) ?rs)" using last_in_set by blast
  then obtain n l where "(n, l) \<in> set (data_lines body)" "r = projr (enroll_parse_line l)" "en_runner_id r = k" by auto
  then have "enroll_parse_line l = Inr r" "en_runner_id r = k" using ok by (auto simp: list_all_iff)
  then show ?thesis using enroll_parse_line_wf by auto
qed

theorem enroll_load_well_typed_witness:
  "enrolled_wf 7 \<lparr>en_runner_id = 7, en_signing_fp = replicate 32 1, en_vrf_fp = replicate 32 2,
     en_enrolled_at_unix_ns = 5, en_initial_reputation_milli = of_nat 500\<rparr>"
  using enroll_load_well_typed [OF enroll_load_single [of "replicate 32 1" "replicate 32 2" 5 500 7], of 7]
  by (simp add: enroll_get_def)

text \<open>the enrollment gate admits exactly what the file says: after a load, a runner with
  given fingerprints is enrolled if and only if the last line for that runner id carries
  exactly those two fingerprints; a line for another key pair under the same id, or an
  earlier line, never lets it in.\<close>

theorem enroll_gate_exact:
  assumes "enroll_load (Some body) = Inr s"
  shows "is_enrolled s k sfp vfp \<longleftrightarrow>
    (let recs = filter (\<lambda>r. en_runner_id r = k) (map (\<lambda>(n, l). projr (enroll_parse_line l)) (data_lines body))
     in recs \<noteq> [] \<and> en_signing_fp (last recs) = sfp \<and> en_vrf_fp (last recs) = vfp)"
proof -
  have "s = fold (\<lambda>r m. hm_insert (en_runner_id r) r m) (map (\<lambda>(n, l). projr (enroll_parse_line l)) (data_lines body)) []"
    using assms by (elim enroll_load_cases) simp
  then have "hm_get s k = (let recs = filter (\<lambda>r. en_runner_id r = k) (map (\<lambda>(n, l). projr (enroll_parse_line l)) (data_lines body))
      in if recs = [] then None else Some (last recs))" by (simp only: hm_get_fold_insert map_of.simps)
  then show ?thesis by (simp add: is_enrolled_def Let_def split: if_splits)
qed

theorem enroll_gate_exact_witness:
  "let body = append_line (enrollment_line 7 (replicate 32 1) (replicate 32 2) 5 500) [];
       recs = filter (\<lambda>r. en_runner_id r = 7) (map (\<lambda>(n, l). projr (enroll_parse_line l)) (data_lines body))
   in recs \<noteq> [] \<and> en_signing_fp (last recs) = replicate 32 1 \<and> en_vrf_fp (last recs) = replicate 32 2"
  using enroll_gate_exact [OF enroll_load_single [of "replicate 32 1" "replicate 32 2" 5 500 7], of 7 "replicate 32 1" "replicate 32 2"]
  by (simp add: is_enrolled_def)

end
