(* ===== verification/Network.thy ===== *)
theory Network
  imports Text_Format
begin

text \<open>
  Network egress policies (\<open>cosaci-jobs/src/network.rs\<close>). Addresses are words; the
  parser of the address part of a CIDR string follows the grammar of Rust's
  \<open>IpAddr::from_str\<close>: dotted decimal without leading zeros, or colon-separated
  hexadecimal groups with at most one \<open>::\<close> and an optional dotted tail.
\<close>

unbundle bit_operations_syntax

section \<open>Data\<close>

datatype egress_default = DefaultDeny | DefaultAudit

datatype scheme = Http | Https | Tcp

datatype egress_target =
  HostTarget bytes u16 scheme
| CidrTarget bytes u16 u16

record network_policy =
  np_allow :: "egress_target list"
  np_default :: egress_default

datatype decision = Allow | Deny | Audit

datatype ip_addr = V4 u32 | V6 u128

record egress_attempt =
  ea_hostname :: "bytes option"
  ea_addr :: ip_addr
  ea_port :: u16
  ea_scheme :: scheme

section \<open>Parsing addresses\<close>

text \<open>A parser returns a value and the rest of the input, or nothing.\<close>

definition radix_digit :: "int \<Rightarrow> u8 \<Rightarrow> int option" where
  "radix_digit radix b =
     (let v = (if 48 \<le> b \<and> b \<le> 57 then Some (uint (b - 48))
               else if 97 \<le> b \<and> b \<le> 122 then Some (uint (b - 97) + 10)
               else if 65 \<le> b \<and> b \<le> 90 then Some (uint (b - 65) + 10) else None)
      in case v of None \<Rightarrow> None | Some d \<Rightarrow> if d < radix then Some d else None)"

fun read_digits :: "int \<Rightarrow> nat \<Rightarrow> int \<Rightarrow> bytes \<Rightarrow> nat \<times> int \<times> bytes" where
  "read_digits radix n acc [] = (n, acc, [])"
| "read_digits radix n acc (b # bs) =
     (case radix_digit radix b of None \<Rightarrow> (n, acc, b # bs) | Some d \<Rightarrow> read_digits radix (Suc n) (acc * radix + d) bs)"

definition read_number :: "int \<Rightarrow> nat \<Rightarrow> bool \<Rightarrow> int \<Rightarrow> bytes \<Rightarrow> (int \<times> bytes) option" where
  "read_number radix max_digits zero_prefix limit s =
     (case read_digits radix 0 0 s of (n, v, rest) \<Rightarrow>
        if n = 0 \<or> max_digits < n \<or> limit < v then None
        else if \<not> zero_prefix \<and> hd s = 48 \<and> 1 < n then None
        else Some (v, rest))"

definition read_char :: "u8 \<Rightarrow> bytes \<Rightarrow> bytes option" where
  "read_char c s = (case s of [] \<Rightarrow> None | b # bs \<Rightarrow> if b = c then Some bs else None)"

definition read_separated :: "u8 \<Rightarrow> nat \<Rightarrow> (bytes \<Rightarrow> ('a \<times> bytes) option) \<Rightarrow> bytes \<Rightarrow> ('a \<times> bytes) option" where
  "read_separated sep i inner s =
     (if i = 0 then inner s else case read_char sep s of None \<Rightarrow> None | Some s' \<Rightarrow> inner s')"

fun read_octets :: "nat \<Rightarrow> nat \<Rightarrow> int \<Rightarrow> bytes \<Rightarrow> (int \<times> bytes) option" where
  "read_octets 0 i acc s = Some (acc, s)"
| "read_octets (Suc k) i acc s =
     (case read_separated 46 i (read_number 10 3 False 255) s of None \<Rightarrow> None
      | Some (v, rest) \<Rightarrow> read_octets k (Suc i) (acc * 256 + v) rest)"

definition read_ipv4 :: "bytes \<Rightarrow> (int \<times> bytes) option" where
  "read_ipv4 s = read_octets 4 0 0 s"

text \<open>Up to \<open>limit\<close> groups; the last two may be a dotted address.\<close>

fun read_groups :: "nat \<Rightarrow> nat \<Rightarrow> bytes \<Rightarrow> int list \<times> bool \<times> bytes" where
  "read_groups 0 i s = ([], False, s)"
| "read_groups (Suc k) i s =
     (case (if 0 < k then read_separated 58 i read_ipv4 s else None) of
        Some (v, rest) \<Rightarrow> ([v div 65536, v mod 65536], True, rest)
      | None \<Rightarrow> (case read_separated 58 i (read_number 16 4 True 65535) s of
          None \<Rightarrow> ([], False, s)
        | Some (g, rest) \<Rightarrow> (case read_groups k (Suc i) rest of (gs, v4, rest') \<Rightarrow> (g # gs, v4, rest'))))"

definition groups_value :: "int list \<Rightarrow> int" where
  "groups_value gs = fold (\<lambda>g acc. acc * 65536 + g) gs 0"

definition read_ipv6 :: "bytes \<Rightarrow> (int \<times> bytes) option" where
  "read_ipv6 s =
     (case read_groups 8 0 s of (head, v4, rest) \<Rightarrow>
        if length head = 8 then Some (groups_value head, rest)
        else if v4 then None
        else (case read_char 58 rest of None \<Rightarrow> None
          | Some r1 \<Rightarrow> (case read_char 58 r1 of None \<Rightarrow> None
              | Some r2 \<Rightarrow> (case read_groups (7 - length head) 0 r2 of (tail, _, rest') \<Rightarrow>
                  Some (groups_value (head @ replicate (8 - length head - length tail) 0 @ tail), rest')))))"

definition parse_ip :: "bytes \<Rightarrow> ip_addr option" where
  "parse_ip s =
     (case read_ipv4 s of
        Some (v, rest) \<Rightarrow> if rest = [] then Some (V4 (word_of_int v)) else None
      | None \<Rightarrow> (case read_ipv6 s of
          Some (v, rest) \<Rightarrow> if rest = [] then Some (V6 (word_of_int v)) else None
        | None \<Rightarrow> None))"

definition parse_u8 :: "bytes \<Rightarrow> u8 option" where
  "parse_u8 s =
     (let ds = (case s of [] \<Rightarrow> [] | b # bs \<Rightarrow> if b = 43 then bs else s) in
      if ds = [] then None
      else (case dec_value 0 ds of None \<Rightarrow> None | Some n \<Rightarrow> if n \<le> 255 then Some (of_nat n) else None))"

fun split_once :: "u8 \<Rightarrow> bytes \<Rightarrow> (bytes \<times> bytes) option" where
  "split_once c [] = None"
| "split_once c (b # bs) = (if b = c then Some ([], bs) else map_option (\<lambda>(x, y). (b # x, y)) (split_once c bs))"

section \<open>Evaluation\<close>

definition scheme_matches :: "scheme \<Rightarrow> scheme \<Rightarrow> bool" where
  "scheme_matches allowed attempted \<longleftrightarrow> allowed = Tcp \<or> allowed = attempted"

definition in_network :: "'a::len word \<Rightarrow> nat \<Rightarrow> 'a word \<Rightarrow> bool" where
  "in_network base prefix target \<longleftrightarrow>
     (if LENGTH('a) < prefix then False
      else if prefix = 0 then True
      else let m = push_bit (LENGTH('a) - prefix) (- 1) in base AND m = target AND m)"

definition cidr_contains :: "bytes \<Rightarrow> ip_addr \<Rightarrow> bool" where
  "cidr_contains cidr addr =
     (case split_once 47 cidr of None \<Rightarrow> False
      | Some (base_str, prefix_str) \<Rightarrow> (case parse_u8 prefix_str of None \<Rightarrow> False
          | Some prefix \<Rightarrow> (case (parse_ip base_str, addr) of
              (Some (V4 base), V4 target) \<Rightarrow> in_network base (unat prefix) target
            | (Some (V6 base), V6 target) \<Rightarrow> in_network base (unat prefix) target
            | _ \<Rightarrow> False)))"

fun matches_target :: "egress_target \<Rightarrow> egress_attempt \<Rightarrow> bool" where
  "matches_target (HostTarget hostname port sch) a \<longleftrightarrow>
     ea_hostname a = Some hostname \<and> (port = 0 \<or> port = ea_port a) \<and> scheme_matches sch (ea_scheme a)"
| "matches_target (CidrTarget cidr lo hi) a \<longleftrightarrow>
     (lo = 0 \<and> hi = 0 \<or> lo \<le> ea_port a \<and> ea_port a \<le> hi) \<and> cidr_contains cidr (ea_addr a)"

fun evaluate_targets :: "egress_target list \<Rightarrow> egress_default \<Rightarrow> egress_attempt \<Rightarrow> decision" where
  "evaluate_targets [] d a = (case d of DefaultDeny \<Rightarrow> Deny | DefaultAudit \<Rightarrow> Audit)"
| "evaluate_targets (t # ts) d a = (if matches_target t a then Allow else evaluate_targets ts d a)"

definition evaluate :: "network_policy \<Rightarrow> egress_attempt \<Rightarrow> decision" where
  "evaluate policy attempt = evaluate_targets (np_allow policy) (np_default policy) attempt"

definition deny_all :: network_policy where
  "deny_all = \<lparr>np_allow = [], np_default = DefaultDeny\<rparr>"

definition allow_all :: network_policy where
  "allow_all = \<lparr>np_allow = [CidrTarget (ascii ''0.0.0.0/0'') 0 0, CidrTarget (ascii ''::/0'') 0 0],
     np_default = DefaultDeny\<rparr>"

section \<open>Lemmas\<close>

lemma in_network_bits:
  "in_network base prefix target \<longleftrightarrow>
     prefix \<le> LENGTH('a) \<and> (\<forall>i. LENGTH('a) - prefix \<le> i \<and> i < LENGTH('a) \<longrightarrow> bit base i = bit target i)"
  for base target :: "'a::len word"
proof -
  have "base AND push_bit n (- 1) = target AND push_bit n (- 1) \<longleftrightarrow>
      (\<forall>i. n \<le> i \<and> i < LENGTH('a) \<longrightarrow> bit base i = bit target i)" for n
    by (auto simp: bit_eq_iff bit_simps)
  then show ?thesis by (auto simp: in_network_def Let_def)
qed

lemma evaluate_targets_iff: "evaluate_targets ts d a = Allow \<longleftrightarrow> list_ex (\<lambda>t. matches_target t a) ts"
  by (induction ts) (auto split: egress_default.split)

lemma evaluate_targets_default:
  "\<not> list_ex (\<lambda>t. matches_target t a) ts \<Longrightarrow> evaluate_targets ts d a = evaluate_targets [] d a"
  by (induction ts) auto

lemma parse_any: "parse_ip (ascii ''0.0.0.0'') = Some (V4 0)" "parse_ip (ascii ''::'') = Some (V6 0)"
  by code_simp+

lemma split_once_first: "c \<notin> set xs \<Longrightarrow> split_once c (xs @ c # ys) = Some (xs, ys)"
  by (induction xs) auto

lemma dec_digits_plus: "dec_digits n \<noteq> []" "hd (dec_digits n) \<noteq> 43"
proof -
  have ne: "dec_digits n \<noteq> []" for n by (subst dec_digits.simps) simp
  have val: "dec_value 0 (dec_digits n) = Some n" by (rule dec_value_digits)
  show "dec_digits n \<noteq> []" by (rule ne)
  then obtain d ds where d: "dec_digits n = d # ds" by (cases "dec_digits n") auto
  have "digit_value 43 = None" by code_simp
  with val d show "hd (dec_digits n) \<noteq> 43" by auto
qed

lemma parse_u8_digits: "n \<le> 255 \<Longrightarrow> parse_u8 (dec_digits n) = Some (of_nat n)"
  using dec_digits_plus [of n] dec_value_digits [of n]
  by (cases "dec_digits n") (auto simp: parse_u8_def)

lemma cidr_contains_parts:
  assumes "47 \<notin> set b" and "n \<le> 255" and "parse_ip b = Some base"
  shows "cidr_contains (b @ 47 # dec_digits n) addr =
     (case (base, addr) of (V4 v, V4 t) \<Rightarrow> in_network v n t | (V6 v, V6 t) \<Rightarrow> in_network v n t | _ \<Rightarrow> False)"
proof -
  have "unat (of_nat n :: u8) = n" using assms(2) by (simp add: unat_of_nat)
  with assms show ?thesis
    by (simp add: cidr_contains_def split_once_first parse_u8_digits split: ip_addr.split)
qed

section \<open>Properties\<close>

text \<open>A rule \<open>base/n\<close> (\<open>n\<close> at most 255, as an eight-bit number) covers an address exactly when
  both are of the same family, \<open>n\<close> does not exceed the width of the family, and the top \<open>n\<close> bits of
  the address are those of the base; host bits set in the base do not matter.\<close>
theorem cidr_prefix_exact:
  assumes "47 \<notin> set b" and "n \<le> 255" and "parse_ip b = Some base"
  shows "cidr_contains (b @ 47 # dec_digits n) addr \<longleftrightarrow>
     (case (base, addr) of
        (V4 v, V4 t) \<Rightarrow> n \<le> 32 \<and> (\<forall>i. 32 - n \<le> i \<and> i < 32 \<longrightarrow> bit v i = bit t i)
      | (V6 v, V6 t) \<Rightarrow> n \<le> 128 \<and> (\<forall>i. 128 - n \<le> i \<and> i < 128 \<longrightarrow> bit v i = bit t i)
      | _ \<Rightarrow> False)"
  unfolding cidr_contains_parts [OF assms] by (simp add: in_network_bits split: ip_addr.split)

theorem cidr_prefix_exact_witness:
  "cidr_contains (ascii ''10.1.2.3'' @ 47 # dec_digits 8) (V4 0x0AFFFFFF)
   \<and> \<not> cidr_contains (ascii ''10.1.2.3'' @ 47 # dec_digits 33) (V4 0x0A010203)
   \<and> \<not> cidr_contains (ascii ''10.1.2.3'' @ 47 # dec_digits 0) (V6 0)"
proof -
  have p: "47 \<notin> set (ascii ''10.1.2.3'')" "parse_ip (ascii ''10.1.2.3'') = Some (V4 0x0A010203)"
    by code_simp+
  have top: "bit (0x0A010203 :: u32) i = bit (0x0AFFFFFF :: u32) i" if "24 \<le> i" "i < 32" for i
  proof -
    have "drop_bit 24 (0x0A010203 :: u32) = drop_bit 24 0x0AFFFFFF" by simp
    then have "bit (drop_bit 24 (0x0A010203 :: u32)) (i - 24) = bit (drop_bit 24 (0x0AFFFFFF :: u32)) (i - 24)"
      by simp
    with that show ?thesis by (simp only: bit_drop_bit_eq comp_def le_add_diff_inverse)
  qed
  show ?thesis
    using cidr_prefix_exact [OF p(1) _ p(2), of 8 "V4 0x0AFFFFFF"] cidr_prefix_exact [OF p(1) _ p(2), of 33 "V4 0x0A010203"]
      cidr_prefix_exact [OF p(1) _ p(2), of 0 "V6 0"] top by auto
qed


end
