(* ===== verification/Source_Fetch.thy ===== *)
theory Source_Fetch
  imports Utf8 Capabilities Crypto
begin

text \<open>
  The source-fetch executor (\<open>cosaci-jobs/src/source_fetch.rs\<close>). A directory is the
  sequence of entries that \<open>read_dir\<close> yields, with the errors the calls may give:
  \<open>None\<close> for a listing, an entry, a file's metadata or its contents that cannot be read.
  The \<open>git\<close> program is a parameter: what a command prints, and the working tree it
  leaves, as functions of the commands run so far in the fresh directory.
\<close>

unbundle bit_operations_syntax

section \<open>The tree walk\<close>

datatype fs_node =
  FileNode "u32 option" "bytes option list option"
| DirNode "(bytes \<times> fs_node) option list option"
| OtherNode

type_synonym dir_entries = "(bytes \<times> fs_node) option list"
type_synonym tree_record = "bytes \<times> u32 \<times> bytes"

definition dir_size :: "dir_entries \<Rightarrow> nat" where
  "dir_size = size_list (size_option (size_prod (\<lambda>_. 0) size))"

definition canonical_mode :: "u32 \<Rightarrow> u32" where
  "canonical_mode mode = (if (mode AND 511) AND 73 \<noteq> 0 then 33261 else 33188)"

fun read_chunks :: "bytes option list \<Rightarrow> bytes option" where
  "read_chunks [] = Some []"
| "read_chunks (None # rs) = None"
| "read_chunks (Some c # rs) = (if c = [] then Some [] else map_option (\<lambda>d. c @ d) (read_chunks rs))"

definition hash_file :: "crypto \<Rightarrow> bytes option list option \<Rightarrow> bytes option" where
  "hash_file cr f = (case f of None \<Rightarrow> None | Some reads \<Rightarrow> map_option (cr_sha256 cr) (read_chunks reads))"

fun join_slash :: "bytes list \<Rightarrow> bytes" where
  "join_slash [] = []"
| "join_slash [x] = x"
| "join_slash (x # y # ys) = x @ 47 # join_slash (y # ys)"

definition path_to_unix :: "bytes list \<Rightarrow> bytes" where
  "path_to_unix p = join_slash (map utf8_lossy p)"

function walk :: "crypto \<Rightarrow> bytes list \<Rightarrow> bytes list \<Rightarrow> dir_entries \<Rightarrow> tree_record list \<Rightarrow> tree_record list option" where
  "walk cr excl pre [] out = Some out"
| "walk cr excl pre (None # es) out = None"
| "walk cr excl pre (Some (name, DirNode d) # es) out =
     (if utf8_lossy name \<in> set excl then walk cr excl pre es out
      else case d of None \<Rightarrow> None
        | Some ds \<Rightarrow> (case walk cr excl (pre @ [name]) ds out of None \<Rightarrow> None | Some out' \<Rightarrow> walk cr excl pre es out'))"
| "walk cr excl pre (Some (name, FileNode mode f) # es) out =
     (case mode of None \<Rightarrow> None
      | Some m \<Rightarrow> (case hash_file cr f of None \<Rightarrow> None
          | Some blob \<Rightarrow> walk cr excl pre es (out @ [(path_to_unix (pre @ [name]), canonical_mode m, blob)])))"
| "walk cr excl pre (Some (name, OtherNode) # es) out = walk cr excl pre es out"
  by pat_completeness auto
termination by (relation "measure (\<lambda>(cr, excl, pre, es, out). dir_size es)") (auto simp: dir_size_def)

definition record_bytes :: "tree_record \<Rightarrow> bytes" where
  "record_bytes r = (case r of (path, mode, blob) \<Rightarrow>
     le_bytes 8 (of_nat (length path) :: u64) @ path @ le_bytes 4 mode @ blob)"

definition tree_listing :: "tree_record list \<Rightarrow> bytes" where
  "tree_listing rs = concat (map record_bytes (sort_key fst rs))"

definition hash_working_tree :: "crypto \<Rightarrow> bytes list \<Rightarrow> dir_entries option \<Rightarrow> bytes option" where
  "hash_working_tree cr excl root =
     (case root of None \<Rightarrow> None
      | Some es \<Rightarrow> map_option (\<lambda>rs. cr_sha256 cr (tree_listing rs)) (walk cr excl [] es []))"

section \<open>Fetching\<close>

record source_fetch_output =
  sf_resolved_sha :: bytes
  sf_tree_hash :: bytes

datatype source_fetch_error =
  GitNotFound | CloneFailed bytes | CheckoutFailed bytes | ResolveFailed bytes | FetchIo

datatype git_invocation_error = GitMissing | GitIo | GitNonZero bytes

datatype proc_output = ProcNotFound | ProcIo | ProcDone bool bytes bytes

record git =
  git_tempdir :: bool
  git_output :: "bytes list list \<Rightarrow> bytes list \<Rightarrow> proc_output"
  git_tree :: "bytes list list \<Rightarrow> dir_entries option"

definition run_git :: "git \<Rightarrow> bytes list list \<Rightarrow> bytes list \<Rightarrow> git_invocation_error + bytes" where
  "run_git g done args =
     (case git_output g done args of
        ProcNotFound \<Rightarrow> Inl GitMissing
      | ProcIo \<Rightarrow> Inl GitIo
      | ProcDone ok out err \<Rightarrow> if ok then Inr (utf8_lossy out) else Inl (GitNonZero (utf8_lossy err)))"

fun classify :: "git_invocation_error \<Rightarrow> (bytes \<Rightarrow> source_fetch_error) \<Rightarrow> source_fetch_error" where
  "classify GitMissing nonzero = GitNotFound"
| "classify GitIo nonzero = FetchIo"
| "classify (GitNonZero s) nonzero = nonzero s"

definition execute_source_fetch :: "crypto \<Rightarrow> git \<Rightarrow> bytes \<Rightarrow> bytes \<Rightarrow> source_fetch_error + source_fetch_output" where
  "execute_source_fetch cr g url reference =
     (if \<not> git_tempdir g then Inl FetchIo else
      let clone = [ascii ''clone'', url, ascii ''.''];
          checkout = [ascii ''checkout'', reference];
          parse = [ascii ''rev-parse'', ascii ''HEAD''] in
      case run_git g [] clone of Inl e \<Rightarrow> Inl (classify e CloneFailed)
      | Inr _ \<Rightarrow> (case run_git g [clone] checkout of Inl e \<Rightarrow> Inl (classify e CheckoutFailed)
        | Inr _ \<Rightarrow> (case run_git g [clone, checkout] parse of Inl e \<Rightarrow> Inl (classify e ResolveFailed)
          | Inr head \<Rightarrow> (case hash_working_tree cr [ascii ''.git''] (git_tree g [clone, checkout, parse]) of
              None \<Rightarrow> Inl FetchIo
            | Some h \<Rightarrow> Inr \<lparr>sf_resolved_sha = trim head, sf_tree_hash = h\<rparr>))))"

definition fetch_output_hash :: "crypto \<Rightarrow> source_fetch_output \<Rightarrow> bytes" where
  "fetch_output_hash cr out = cr_sha256 cr
     (le_bytes 8 (of_nat (length (sf_resolved_sha out)) :: u64) @ sf_resolved_sha out @ sf_tree_hash out)"

section \<open>What a tree contains\<close>

function tree_files :: "bytes list \<Rightarrow> bytes list \<Rightarrow> dir_entries \<Rightarrow> (bytes list \<times> u32 \<times> bytes) list" where
  "tree_files excl pre [] = []"
| "tree_files excl pre (None # es) = tree_files excl pre es"
| "tree_files excl pre (Some (name, DirNode d) # es) =
     (if utf8_lossy name \<in> set excl then []
      else case d of None \<Rightarrow> [] | Some ds \<Rightarrow> tree_files excl (pre @ [name]) ds) @ tree_files excl pre es"
| "tree_files excl pre (Some (name, FileNode mode f) # es) =
     (case (mode, Option.bind f read_chunks) of (Some m, Some c) \<Rightarrow> [(pre @ [name], m, c)] | _ \<Rightarrow> []) @ tree_files excl pre es"
| "tree_files excl pre (Some (name, OtherNode) # es) = tree_files excl pre es"
  by pat_completeness auto
termination by (relation "measure (\<lambda>(excl, pre, es). dir_size es)") (auto simp: dir_size_def)

definition tree_content :: "bytes list \<Rightarrow> dir_entries \<Rightarrow> (bytes \<times> u32 \<times> bytes) set" where
  "tree_content excl es = (\<lambda>(p, m, c). (path_to_unix p, canonical_mode m, c)) ` set (tree_files excl [] es)"

text \<open>Names of siblings are distinct as text, not empty, and have no separator in them.\<close>

definition entry_names :: "dir_entries \<Rightarrow> bytes list" where
  "entry_names es = map (\<lambda>e. utf8_lossy (fst e)) (List.map_filter (\<lambda>e. e) es)"

definition names_ok :: "dir_entries \<Rightarrow> bool" where
  "names_ok es \<longleftrightarrow> distinct (entry_names es) \<and> list_all (\<lambda>n. n \<noteq> [] \<and> 47 \<notin> set n) (entry_names es)"

function dirs_ok :: "dir_entries \<Rightarrow> bool" where
  "dirs_ok [] = True"
| "dirs_ok (None # es) = dirs_ok es"
| "dirs_ok (Some (name, DirNode d) # es) \<longleftrightarrow>
     (case d of None \<Rightarrow> True | Some ds \<Rightarrow> names_ok ds \<and> dirs_ok ds) \<and> dirs_ok es"
| "dirs_ok (Some (name, FileNode m f) # es) = dirs_ok es"
| "dirs_ok (Some (name, OtherNode) # es) = dirs_ok es"
  by pat_completeness auto
termination by (relation "measure (\<lambda>es. dir_size es)") (auto simp: dir_size_def)

definition tree_ok :: "dir_entries \<Rightarrow> bool" where
  "tree_ok es \<longleftrightarrow> names_ok es \<and> dirs_ok es"

section \<open>Lemmas\<close>

definition to_record :: "crypto \<Rightarrow> bytes list \<times> u32 \<times> bytes \<Rightarrow> tree_record" where
  "to_record cr x = (case x of (p, m, c) \<Rightarrow> (path_to_unix p, canonical_mode m, cr_sha256 cr c))"

lemma walk_files:
  "walk cr excl pre es out = Some rs \<Longrightarrow> rs = out @ map (to_record cr) (tree_files excl pre es)"
proof (induction cr excl pre es out arbitrary: rs rule: walk.induct)
  case (3 cr excl pre name d es out)
  then show ?case by (fastforce split: if_splits option.splits)
next
  case (4 cr excl pre name mode f es out)
  then show ?case by (fastforce simp: hash_file_def to_record_def split: option.splits)
qed auto

lemma entry_names_simps [simp]:
  "entry_names [] = []" "entry_names (None # es) = entry_names es"
  "entry_names (Some (name, n) # es) = utf8_lossy name # entry_names es"
  by (simp_all add: entry_names_def List.map_filter_def)

definition comps_ok :: "bytes list \<Rightarrow> bool" where
  "comps_ok p \<longleftrightarrow> list_all (\<lambda>n. utf8_lossy n \<noteq> [] \<and> 47 \<notin> set (utf8_lossy n)) p"

text \<open>Each path of a tree continues the prefix by the name of one of the entries.\<close>

lemma tree_files_prefix:
  assumes "x \<in> set (tree_files excl pre es)"
  shows "\<exists>n q. fst x = pre @ n # q \<and> utf8_lossy n \<in> set (entry_names es)"
  using assms
proof (induction excl pre es rule: tree_files.induct)
  case (3 excl pre name d es)
  then show ?case by (fastforce split: if_splits option.splits)
next
  case (4 excl pre name mode f es)
  then show ?case by (fastforce split: option.splits)
qed fastforce+

lemma tree_files_ok:
  assumes "names_ok es" "dirs_ok es" "comps_ok pre" "x \<in> set (tree_files excl pre es)"
  shows "comps_ok (fst x)"
  using assms
proof (induction excl pre es rule: tree_files.induct)
  case (3 excl pre name d es)
  then show ?case by (auto simp: names_ok_def comps_ok_def split: if_splits option.splits)
next
  case (4 excl pre name mode f es)
  then show ?case by (auto simp: names_ok_def comps_ok_def split: option.splits)
qed (auto simp: names_ok_def)

abbreviation lossy_path :: "bytes list \<times> 'a \<Rightarrow> bytes list" where
  "lossy_path x \<equiv> map utf8_lossy (fst x)"

lemma lossy_distinct:
  assumes "names_ok es" "dirs_ok es"
  shows "distinct (map lossy_path (tree_files excl pre es))"
  using assms
proof (induction excl pre es rule: tree_files.induct)
  case (3 excl pre name d es)
  have rest: "distinct (map lossy_path (tree_files excl pre es))" and fresh: "utf8_lossy name \<notin> set (entry_names es)"
    using 3 by (auto simp: names_ok_def)
  have "lossy_path x \<noteq> lossy_path y" if x: "x \<in> set (tree_files excl (pre @ [name]) ds)" and y: "y \<in> set (tree_files excl pre es)" for x y ds
  proof -
    obtain q where "fst x = (pre @ [name]) @ q" using tree_files_prefix [OF x] by auto
    moreover obtain n q' where "fst y = pre @ n # q'" "utf8_lossy n \<in> set (entry_names es)"
      using tree_files_prefix [OF y] by auto
    ultimately show ?thesis using fresh by auto
  qed
  then have sep: "lossy_path ` set (tree_files excl (pre @ [name]) ds) \<inter> lossy_path ` set (tree_files excl pre es) = {}" for ds
    by blast
  show ?case using 3 rest sep by (auto split: option.splits)
next
  case (4 excl pre name mode f es)
  then have "distinct (map lossy_path (tree_files excl pre es))" "utf8_lossy name \<notin> set (entry_names es)"
    by (auto simp: names_ok_def)
  moreover have "map utf8_lossy (pre @ [name]) \<notin> lossy_path ` set (tree_files excl pre es)"
    using calculation(2) by (fastforce dest: tree_files_prefix)
  ultimately show ?case by (auto split: option.splits)
qed (auto simp: names_ok_def)

lemma join_slash_inj:
  "list_all (\<lambda>n. n \<noteq> [] \<and> 47 \<notin> set n) p \<Longrightarrow> list_all (\<lambda>n. n \<noteq> [] \<and> 47 \<notin> set n) q \<Longrightarrow>
   join_slash p = join_slash q \<Longrightarrow> p = q"
proof (induction p arbitrary: q rule: join_slash.induct)
  case 1
  then show ?case by (cases q rule: join_slash.cases) auto
next
  case (2 x)
  then show ?case by (cases q rule: join_slash.cases) auto
next
  case (3 x y ys)
  show ?case
  proof (cases q rule: join_slash.cases)
    case (3 u v vs)
    then have "x @ 47 # join_slash (y # ys) = u @ 47 # join_slash (v # vs)" using "3.prems" by simp
    then have "x = u \<and> join_slash (y # ys) = join_slash (v # vs)"
      using "3.prems" 3 by (auto simp: append_eq_append_conv2 append_eq_Cons_conv Cons_eq_append_conv)
    then show ?thesis using "3.IH" [of "v # vs"] "3.prems" 3 by simp
  qed (use "3.prems" in auto)
qed

lemma path_inj: "comps_ok p \<Longrightarrow> comps_ok q \<Longrightarrow> path_to_unix p = path_to_unix q \<Longrightarrow> map utf8_lossy p = map utf8_lossy q"
  unfolding path_to_unix_def comps_ok_def by (rule join_slash_inj) (simp_all add: list_all_length)

lemma paths_distinct:
  assumes "tree_ok es"
  shows "distinct (map (\<lambda>x. path_to_unix (fst x)) (tree_files excl [] es))"
proof -
  have ok: "comps_ok (fst x)" if "x \<in> set (tree_files excl [] es)" for x
    using tree_files_ok [OF _ _ _ that] assms by (simp add: tree_ok_def comps_ok_def)
  have "distinct (map lossy_path (tree_files excl [] es))" using lossy_distinct assms by (simp add: tree_ok_def)
  then show ?thesis unfolding distinct_map
    by (auto intro!: inj_onI dest: path_inj [OF ok ok] inj_onD)
qed

definition record_ok :: "tree_record \<Rightarrow> bool" where
  "record_ok r \<longleftrightarrow> length (fst r) < 2 ^ 64 \<and> length (snd (snd r)) = 32"

lemma record_bytes_inj:
  assumes "record_ok r" "record_ok r'" "record_bytes r @ xs = record_bytes r' @ ys"
  shows "r = r' \<and> xs = ys"
proof -
  obtain p m b p' m' b' where r: "r = (p, m, b)" "r' = (p', m', b')" by (cases r, cases r') auto
  have len: "length p < 2 ^ 64" "length p' < 2 ^ 64" "length b = length b'" using assms r by (auto simp: record_ok_def)
  have eq: "le_bytes 8 (of_nat (length p) :: u64) @ p @ le_bytes 4 m @ b @ xs
      = le_bytes 8 (of_nat (length p') :: u64) @ p' @ le_bytes 4 m' @ b' @ ys"
    using assms(3) r by (simp add: record_bytes_def)
  then have "le_bytes 8 (of_nat (length p) :: u64) = le_bytes 8 (of_nat (length p') :: u64)"
    and eq': "p @ le_bytes 4 m @ b @ xs = p' @ le_bytes 4 m' @ b' @ ys" by simp_all
  then have "(of_nat (length p) :: u64) = of_nat (length p')" by (auto dest: le_bytes_inj)
  then have "length p = length p'" using len
    by (simp add: word_of_nat_eq_iff take_bit_nat_eq_self)
  with eq' have "p = p'" "le_bytes 4 m = le_bytes 4 m'" "b @ xs = b' @ ys" by simp_all
  with len r show ?thesis by (auto dest: le_bytes_inj)
qed

lemma record_bytes_not_Nil: "record_bytes r \<noteq> []"
proof
  assume "record_bytes r = []"
  then have "length (record_bytes r) = 0" by simp
  then show False by (cases r) (simp add: record_bytes_def)
qed

lemma records_inj:
  "list_all record_ok rs \<Longrightarrow> list_all record_ok rs' \<Longrightarrow>
   concat (map record_bytes rs) = concat (map record_bytes rs') \<Longrightarrow> rs = rs'"
proof (induction rs arbitrary: rs')
  case Nil
  then show ?case by (cases rs') (auto simp: record_bytes_not_Nil)
next
  case (Cons r rs)
  then obtain r' rs'' where rs': "rs' = r' # rs''" by (cases rs') (auto simp: record_bytes_not_Nil)
  then have "r = r' \<and> concat (map record_bytes rs) = concat (map record_bytes rs'')"
    using Cons.prems by (intro record_bytes_inj) auto
  then show ?case using Cons rs' by simp
qed

text \<open>Over digests without a collision, equal listings mean equal files.\<close>

lemma content_of_records:
  assumes "inj_on (cr_sha256 cr) (\<Union>x\<in>set xs \<union> set ys. {snd (snd x)})"
    and "set (map (to_record cr) xs) = set (map (to_record cr) ys)"
  shows "(\<lambda>(p, m, c). (path_to_unix p, canonical_mode m, c)) ` set xs \<subseteq> (\<lambda>(p, m, c). (path_to_unix p, canonical_mode m, c)) ` set ys"
proof
  fix z assume "z \<in> (\<lambda>(p, m, c). (path_to_unix p, canonical_mode m, c)) ` set xs"
  then obtain p m c where x: "(p, m, c) \<in> set xs" "z = (path_to_unix p, canonical_mode m, c)" by auto
  then have "to_record cr (p, m, c) \<in> set (map (to_record cr) ys)" using assms(2) by fastforce
  then obtain q k d where y: "(q, k, d) \<in> set ys" "to_record cr (p, m, c) = to_record cr (q, k, d)" by auto
  then have "cr_sha256 cr c = cr_sha256 cr d" by (simp add: to_record_def)
  then have "c = d" using assms(1) x(1) y(1) by (auto dest!: inj_onD)
  with x y show "z \<in> (\<lambda>(p, m, c). (path_to_unix p, canonical_mode m, c)) ` set ys"
    by (force simp: to_record_def)
qed

section \<open>Properties\<close>

lemma listing_exact:
  assumes cr: "crypto_ok cr" and ok: "tree_ok s" "tree_ok t"
    and short: "list_all (\<lambda>x. length (path_to_unix (fst x)) < 2 ^ 64) (tree_files excl [] s @ tree_files excl [] t)"
    and inj: "inj_on (cr_sha256 cr) (\<Union>x\<in>set (tree_files excl [] s) \<union> set (tree_files excl [] t). {snd (snd x)})"
  shows "tree_listing (map (to_record cr) (tree_files excl [] s)) = tree_listing (map (to_record cr) (tree_files excl [] t))
     \<longleftrightarrow> tree_content excl s = tree_content excl t" (is "?L \<longleftrightarrow> ?R")
proof
  let ?rec = "\<lambda>es. map (to_record cr) (tree_files excl [] es)"
  have fst_rec: "map fst (?rec es) = map (\<lambda>x. path_to_unix (fst x)) (tree_files excl [] es)" for es
    by (auto simp: to_record_def split: prod.split)
  have "record_ok (to_record cr x)" if "x \<in> set (tree_files excl [] s) \<union> set (tree_files excl [] t)" for x
  proof -
    have "length (path_to_unix (fst x)) < 2 ^ 64" using short that by (simp only: list_all_iff set_append)
    then show ?thesis using cr by (cases x) (simp add: record_ok_def to_record_def)
  qed
  then have "list_all record_ok (?rec s)" "list_all record_ok (?rec t)" by (auto simp: list_all_iff)
  then have lists: "list_all record_ok (sort_key fst (?rec s))" "list_all record_ok (sort_key fst (?rec t))"
    by (simp_all add: list_all_iff)
  {
    assume ?L
    then have "sort_key fst (?rec s) = sort_key fst (?rec t)"
      unfolding tree_listing_def using records_inj lists by blast
    then have eq: "set (?rec s) = set (?rec t)" by (metis set_sort)
    show ?R unfolding tree_content_def
      using content_of_records [OF inj eq] content_of_records [OF _ eq [symmetric]] inj by (simp add: Un_commute)
  }
  assume R: ?R
  have "set (?rec es) = (\<lambda>(p, m, c). (p, m, cr_sha256 cr c)) ` tree_content excl es" for es
    by (force simp: tree_content_def to_record_def image_image split: prod.splits)
  then have "set (?rec s) = set (?rec t)" using R by simp
  moreover have dist: "distinct (map fst (?rec s))" "distinct (map fst (?rec t))"
    unfolding fst_rec using ok paths_distinct by auto
  ultimately have "mset (?rec s) = mset (?rec t)"
    by (metis distinct_map set_eq_iff_mset_eq_distinct)
  moreover have "inj_on fst (set (?rec s))" using dist(1) by (simp only: distinct_map)
  ultimately have "sort_key fst (?rec s) = sort_key fst (?rec t)" by (rule sort_key_mset_cong)
  then show ?L by (simp only: tree_listing_def)
qed

text \<open>C28: On trees whose sibling names are distinct as text, two runners compute the same tree hash
  exactly when the trees hold the same files: same relative paths, same executable bit, same bytes. The
  order in which the file system lists the entries does not matter. (SHA-256 is assumed to have no
  collision among the contents and the two listings; paths are shorter than \<open>2^64\<close> bytes.)\<close>
theorem tree_hash_exact:
  assumes "crypto_ok cr" "tree_ok s" "tree_ok t"
    and "hash_working_tree cr excl (Some s) = Some h" "hash_working_tree cr excl (Some t) = Some k"
    and "list_all (\<lambda>x. length (path_to_unix (fst x)) < 2 ^ 64) (tree_files excl [] s @ tree_files excl [] t)"
    and "inj_on (cr_sha256 cr) ((\<Union>x\<in>set (tree_files excl [] s) \<union> set (tree_files excl [] t). {snd (snd x)}) \<union>
           {tree_listing (map (to_record cr) (tree_files excl [] s)), tree_listing (map (to_record cr) (tree_files excl [] t))})"
  shows "h = k \<longleftrightarrow> tree_content excl s = tree_content excl t"
proof -
  let ?l = "\<lambda>es. tree_listing (map (to_record cr) (tree_files excl [] es))"
  have "h = cr_sha256 cr (?l s)" "k = cr_sha256 cr (?l t)"
    using assms(4,5) by (auto simp: hash_working_tree_def dest: walk_files)
  moreover have "cr_sha256 cr (?l s) = cr_sha256 cr (?l t) \<longleftrightarrow> ?l s = ?l t"
    using assms(7) by (auto dest: inj_onD)
  ultimately show ?thesis
    using listing_exact [OF assms(1-3,6)] inj_on_subset [OF assms(7)] by blast
qed

definition tree_example :: dir_entries where
  "tree_example = [Some ([97], FileNode (Some 0) (Some [Some [1]])),
     Some ([98], DirNode (Some [Some ([99], FileNode (Some 73) (Some [Some [2], Some [3]]))])), Some ([100], OtherNode)]"

text \<open>The same tree listed in another order, and with another mode on a file.\<close>

definition tree_example' :: dir_entries where
  "tree_example' = [Some ([98], DirNode (Some [Some ([99], FileNode (Some 1) (Some [Some [2, 3], Some []]))])),
     Some ([97], FileNode (Some 0) (Some [Some [1]]))]"

definition tree_example'' :: dir_entries where
  "tree_example'' = [Some ([97], FileNode (Some 73) (Some [Some [1]]))]"

lemma tree_example_facts:
  "tree_ok tree_example" "tree_ok tree_example'" "tree_ok tree_example''"
  "tree_files [] [] tree_example = [([[97]], 0, [1]), ([[98], [99]], 73, [2, 3])]"
  "tree_files [] [] tree_example' = [([[98], [99]], 1, [2, 3]), ([[97]], 0, [1])]"
  "tree_files [] [] tree_example'' = [([[97]], 73, [1])]"
  "path_to_unix [[97]] = [97]" "path_to_unix [[98], [99]] = [98, 47, 99]"
  by code_simp+

lemma tree_example_hash:
  "\<exists>h. hash_working_tree toy_crypto [] (Some tree_example) = Some h"
  "\<exists>h. hash_working_tree toy_crypto [] (Some tree_example') = Some h"
  "\<exists>h. hash_working_tree toy_crypto [] (Some tree_example'') = Some h"
  by (simp_all add: hash_working_tree_def tree_example_def tree_example'_def tree_example''_def hash_file_def)

lemma tree_example_inj:
  "inj_on (cr_sha256 toy_crypto) {[1], [2, 3], tree_listing (map (to_record toy_crypto) [([[97]], 0, [1]), ([[98], [99]], 73, [2, 3])]),
     tree_listing (map (to_record toy_crypto) [([[98], [99]], 1, [2, 3]), ([[97]], 0, [1])]),
     tree_listing (map (to_record toy_crypto) [([[97]], 73, [1])])}"
  by code_simp

theorem tree_hash_exact_witness:
  "\<exists>h k. hash_working_tree toy_crypto [] (Some tree_example) = Some h
     \<and> hash_working_tree toy_crypto [] (Some tree_example') = Some h
     \<and> hash_working_tree toy_crypto [] (Some tree_example'') = Some k \<and> h \<noteq> k"
proof -
  obtain h h' k where hs: "hash_working_tree toy_crypto [] (Some tree_example) = Some h"
    "hash_working_tree toy_crypto [] (Some tree_example') = Some h'" "hash_working_tree toy_crypto [] (Some tree_example'') = Some k"
    using tree_example_hash by blast
  note facts = tree_example_facts
  have "h = h' \<longleftrightarrow> tree_content [] tree_example = tree_content [] tree_example'"
    by (rule tree_hash_exact [OF toy_crypto_ok facts(1,2) hs(1,2)], simp add: facts(4-),
        rule inj_on_subset [OF tree_example_inj], unfold facts(4-6), simp)
  moreover have "h = k \<longleftrightarrow> tree_content [] tree_example = tree_content [] tree_example''"
    by (rule tree_hash_exact [OF toy_crypto_ok facts(1,3) hs(1,3)], simp add: facts(4-),
        rule inj_on_subset [OF tree_example_inj], unfold facts(4-6), simp)
  moreover have "tree_content [] tree_example = tree_content [] tree_example'" "tree_content [] tree_example \<noteq> tree_content [] tree_example''"
    by (auto simp: tree_content_def facts canonical_mode_def)
  ultimately show ?thesis using hs by blast
qed

text \<open>Names that are not UTF-8 are converted before they are compared: two files whose names
  become the same text keep the order of the directory listing, and the hash depends on it.\<close>

definition clash :: "bytes \<Rightarrow> bytes \<Rightarrow> dir_entries" where
  "clash a b = [Some (a, FileNode (Some 0) (Some [Some a])), Some (b, FileNode (Some 0) (Some [Some b]))]"

lemma tree_hash_lossy_names:
  "utf8_lossy [0xFF] = utf8_lossy [0xFE]
   \<and> tree_listing (map (to_record cr) (tree_files [] [] (clash [0xFF] [0xFE])))
     = record_bytes (replacement, 33188, cr_sha256 cr [0xFF]) @ record_bytes (replacement, 33188, cr_sha256 cr [0xFE])
   \<and> tree_listing (map (to_record cr) (tree_files [] [] (clash [0xFE] [0xFF])))
     = record_bytes (replacement, 33188, cr_sha256 cr [0xFE]) @ record_bytes (replacement, 33188, cr_sha256 cr [0xFF])"
proof -
  have "utf8_lossy [0xFF] = replacement" "utf8_lossy [0xFE] = replacement" by code_simp+
  then show ?thesis
    by (simp add: clash_def tree_listing_def to_record_def path_to_unix_def canonical_mode_def)
qed

end
