(* ===== verification/Native_Exec.thy ===== *)
theory Native_Exec
  imports Utf8
begin

text \<open>
  The parts of \<open>cosaci-jobs/src/lib.rs\<close> around a native child process: the capped pipe
  reader, the wait loop with its two limits, and the per-step control group. The
  operating system appears as what its calls return: a pipe is the sequence of results
  of \<open>read\<close>, a child the sequence of what each poll observes, and files are their bytes,
  \<open>None\<close> when they cannot be read.
\<close>

section \<open>Reading a pipe\<close>

text \<open>A pipe whose sequence of reads ends without an empty read or an error stays open: the
  loop does not return, and the value is \<open>None\<close>.\<close>

fun read_capped_loop :: "nat \<Rightarrow> bytes \<Rightarrow> nat \<Rightarrow> bytes option list \<Rightarrow> bytes option" where
  "read_capped_loop cap out n [] = None"
| "read_capped_loop cap out n (None # rs) = Some out"
| "read_capped_loop cap out n (Some buf # rs) =
     (if buf = [] then Some out
      else read_capped_loop cap (if n < cap then out @ take (min (cap - n) (length buf)) buf else out) (n + length buf) rs)"

definition read_capped :: "bytes option list \<Rightarrow> nat \<Rightarrow> bytes option" where
  "read_capped pipe cap = read_capped_loop cap [] 0 pipe"

definition MAX_CAPTURE_BYTES :: nat where
  "MAX_CAPTURE_BYTES = 16 * 1024 * 1024"

text \<open>What the writer wrote until the pipe was closed.\<close>

fun pipe_bytes :: "bytes option list \<Rightarrow> bytes option" where
  "pipe_bytes [] = None"
| "pipe_bytes (None # rs) = Some []"
| "pipe_bytes (Some buf # rs) = (if buf = [] then Some [] else map_option (\<lambda>d. buf @ d) (pipe_bytes rs))"

section \<open>Control groups\<close>

definition strip_prefix :: "bytes \<Rightarrow> bytes \<Rightarrow> bytes option" where
  "strip_prefix p s = (if take (length p) s = p then Some (drop (length p) s) else None)"

text \<open>\<open>read_to_string\<close>: bytes that are not UTF-8 are an error.\<close>

definition read_text :: "bytes option \<Rightarrow> bytes option" where
  "read_text f = (case f of None \<Rightarrow> None | Some bs \<Rightarrow> if utf8_valid bs then Some bs else None)"

definition path_join :: "bytes \<Rightarrow> bytes \<Rightarrow> bytes" where
  "path_join a b = (if b \<noteq> [] \<and> hd b = 47 then b
     else if a = [] \<or> last a = 47 then a @ b else a @ 47 # b)"

record cgroup_os =
  os_read :: "bytes \<Rightarrow> bytes option"
  os_mkdir :: "bytes \<Rightarrow> bool"
  os_write :: "bytes \<Rightarrow> bytes \<Rightarrow> bool"
  os_pid :: u32
  os_now_ns :: nat

definition was_oom_killed :: "bytes option \<Rightarrow> bool" where
  "was_oom_killed events =
     (case read_text events of None \<Rightarrow> False
      | Some txt \<Rightarrow> list_ex (\<lambda>rest. case parse_u64 (trim rest) of None \<Rightarrow> False | Some n \<Rightarrow> 0 < n)
          (List.map_filter (strip_prefix (ascii ''oom_kill '')) (lines [] txt)))"

definition cpu_usage_usec :: "bytes option \<Rightarrow> u64 option" where
  "cpu_usage_usec stat =
     (case read_text stat of None \<Rightarrow> None
      | Some txt \<Rightarrow> (case List.map_filter (strip_prefix (ascii ''usage_usec '')) (lines [] txt) of
          [] \<Rightarrow> None | rest # _ \<Rightarrow> parse_u64 (trim rest)))"

definition current_cgroup_path :: "cgroup_os \<Rightarrow> bytes option" where
  "current_cgroup_path os =
     (case read_text (os_read os (ascii ''/proc/self/cgroup'')) of None \<Rightarrow> None
      | Some txt \<Rightarrow> (case List.map_filter (strip_prefix (ascii ''0::'')) (lines [] txt) of
          [] \<Rightarrow> None
        | rest # _ \<Rightarrow> Some (path_join (ascii ''/sys/fs/cgroup'') (dropWhile (\<lambda>b. b = 47) rest))))"

definition subtree_has_controller :: "cgroup_os \<Rightarrow> bytes \<Rightarrow> bytes \<Rightarrow> bool" where
  "subtree_has_controller os path controller =
     (case read_text (os_read os (path_join path (ascii ''cgroup.subtree_control''))) of None \<Rightarrow> False
      | Some txt \<Rightarrow> controller \<in> set (split_fields is_space [] txt))"

definition cgroup_name :: "cgroup_os \<Rightarrow> u32 \<Rightarrow> bytes" where
  "cgroup_name os step_index = ascii ''cosaci-step-'' @ dec_digits (unat (os_pid os)) @ ascii ''-'' @
     dec_digits (unat step_index) @ ascii ''-'' @ dec_digits (os_now_ns os)"

text \<open>The memory limit in bytes fits in 64 bits for every 32-bit number of MiB, so the
  saturating product of the code is the plain one.\<close>

definition memory_max :: "u32 \<Rightarrow> u64" where
  "memory_max memory_mb = of_nat (min (unat memory_mb * (1024 * 1024)) (2 ^ 64 - 1))"

definition cgroup_try_create :: "cgroup_os \<Rightarrow> u32 \<Rightarrow> u32 \<Rightarrow> u32 \<Rightarrow> bytes option" where
  "cgroup_try_create os step_index memory_mb cpu_seconds =
     (if memory_mb = 0 \<and> cpu_seconds = 0 then None
      else case current_cgroup_path os of None \<Rightarrow> None
      | Some parent \<Rightarrow>
          if memory_mb > 0 \<and> \<not> subtree_has_controller os parent (ascii ''memory'') then None
          else if cpu_seconds > 0 \<and> \<not> subtree_has_controller os parent (ascii ''cpu'') then None
          else let path = path_join parent (cgroup_name os step_index) in
            if \<not> os_mkdir os path then None
            else if memory_mb > 0 \<and> \<not> os_write os (path_join path (ascii ''memory.max'')) (show_u64 (memory_max memory_mb)) then None
            else Some path)"

definition cgroup_attach :: "cgroup_os \<Rightarrow> bytes \<Rightarrow> u32 \<Rightarrow> bool" where
  "cgroup_attach os path pid = os_write os (path_join path (ascii ''cgroup.procs'')) (dec_digits (unat pid))"

section \<open>Waiting for the child\<close>

text \<open>An exit status has a code unless a signal ended the process; it is a success when the
  code is zero.\<close>

type_synonym exit_status = "int option"

definition exit_success :: "exit_status \<Rightarrow> bool" where
  "exit_success st \<longleftrightarrow> st = Some 0"

datatype exit_outcome = Exited exit_status | KilledByWall | KilledByCpu

datatype try_wait = StillRunning | Finished exit_status | WaitError

record poll =
  po_try_wait :: try_wait
  po_elapsed_ns :: nat
  po_cpu_stat :: "bytes option"

record child =
  ch_wait :: "exit_status option option"
  ch_polls :: "poll list"

definition poll_outcome :: "nat option \<Rightarrow> u64 option \<Rightarrow> bool \<Rightarrow> poll \<Rightarrow> exit_outcome option" where
  "poll_outcome wall cpu_usec cgroup p =
     (case po_try_wait p of
        Finished st \<Rightarrow> Some (Exited st)
      | WaitError \<Rightarrow> Some KilledByWall
      | StillRunning \<Rightarrow>
          if (case wall of None \<Rightarrow> False | Some w \<Rightarrow> w \<le> po_elapsed_ns p) then Some KilledByWall
          else (case (cpu_usec, cgroup) of
            (Some c, True) \<Rightarrow> (case cpu_usage_usec (po_cpu_stat p) of
               None \<Rightarrow> None | Some usage \<Rightarrow> if c \<le> usage then Some KilledByCpu else None)
          | _ \<Rightarrow> None))"

fun wait_loop :: "nat option \<Rightarrow> u64 option \<Rightarrow> bool \<Rightarrow> poll list \<Rightarrow> exit_outcome option" where
  "wait_loop wall cpu_usec cgroup [] = None"
| "wait_loop wall cpu_usec cgroup (p # ps) =
     (case poll_outcome wall cpu_usec cgroup p of Some oc \<Rightarrow> Some oc | None \<Rightarrow> wait_loop wall cpu_usec cgroup ps)"

text \<open>Durations are nanoseconds; \<open>as_micros() as u64\<close> keeps the low 64 bits. \<open>ch_wait\<close> is
  what the blocking wait gives: \<open>None\<close> when it never returns, \<open>Some None\<close> on an error.\<close>

definition wait_with_limits :: "child \<Rightarrow> nat option \<Rightarrow> nat option \<Rightarrow> bool \<Rightarrow> exit_outcome option" where
  "wait_with_limits child wall cpu cgroup =
     (if wall = None \<and> cpu = None then
        (case ch_wait child of None \<Rightarrow> None | Some None \<Rightarrow> Some KilledByWall | Some (Some st) \<Rightarrow> Some (Exited st))
      else wait_loop wall (map_option (\<lambda>d. of_nat (d div 1000)) cpu) cgroup (ch_polls child))"

section \<open>Lemmas\<close>

lemma read_capped_loop_take:
  "length out = min cap n \<Longrightarrow>
   read_capped_loop cap out n rs = map_option (\<lambda>d. out @ take (cap - n) d) (pipe_bytes rs)"
proof (induction cap out n rs rule: read_capped_loop.induct)
  case (3 cap out n buf rs)
  have "take (min k (length buf)) buf = take k buf" for k by (simp add: min_def)
  then show ?case using 3 by (cases "pipe_bytes rs") auto
qed auto

text \<open>The capped reader keeps the first \<open>cap\<close> bytes of the stream, however it is cut into
  reads, and returns exactly when the stream ends.\<close>

lemma read_capped_eq: "read_capped pipe cap = map_option (take cap) (pipe_bytes pipe)"
  by (simp add: read_capped_def read_capped_loop_take)

lemma wait_loop_find:
  "wait_loop wall cpu cg ps = (case find (\<lambda>p. poll_outcome wall cpu cg p \<noteq> None) ps of
     None \<Rightarrow> None | Some p \<Rightarrow> poll_outcome wall cpu cg p)"
  by (induction ps) (auto split: option.split)

lemma poll_outcome_wall:
  "w \<le> po_elapsed_ns p \<Longrightarrow> poll_outcome (Some w) cpu cg p \<noteq> None"
  by (auto simp: poll_outcome_def split: try_wait.split)

text \<open>No limit is blamed unless it was reached (or the wait call itself failed).\<close>

lemma poll_outcome_blame:
  "poll_outcome wall cpu cg p = Some KilledByWall \<Longrightarrow>
     po_try_wait p = WaitError \<or> (\<exists>w. wall = Some w \<and> w \<le> po_elapsed_ns p)"
  "poll_outcome wall cpu cg p = Some KilledByCpu \<Longrightarrow>
     cg \<and> (\<exists>c usage. cpu = Some c \<and> cpu_usage_usec (po_cpu_stat p) = Some usage \<and> c \<le> usage)"
  "poll_outcome wall cpu cg p = Some (Exited st) \<Longrightarrow> po_try_wait p = Finished st"
  by (auto simp: poll_outcome_def split: try_wait.splits if_splits option.splits bool.splits)

lemma memory_max_exact: "unat (memory_max mb) = unat mb * 1048576"
proof -
  have "unat mb < 2 ^ 32" using unat_lt_pow [of mb] by simp
  moreover have "unat (of_nat (min (n * (1024 * 1024)) (2 ^ 64 - 1)) :: u64) = n * 1048576" if "n < 2 ^ 32" for n
  proof -
    have "k < 2 ^ 64 \<Longrightarrow> unat (of_nat k :: u64) = k" for k by (simp add: unat_of_nat)
    from this [of "n * (1024 * 1024)"] that show ?thesis by (simp add: min_def del: of_nat_mult of_nat_numeral)
  qed
  ultimately show ?thesis unfolding memory_max_def by blast
qed

end
