(* ===== verification/Wasm_Runtime.thy ===== *)
theory Wasm_Runtime
  imports Text_Format Crypto
begin

text \<open>
  The WebAssembly executor (\<open>cosaci-wasm/src/wasm_runtime.rs\<close>). The engine
  (\<open>wasmtime\<close>) and the CBOR codec of the arguments are parameters: each stage of the
  call says whether it succeeds, and the call itself gives a value, a trap, or another
  error with its message. The engine receives the fuel, the wall-clock budget and the
  memory limiter that the code installs.
\<close>

type_synonym i32 = u32

datatype exec_limit_kind = ExecCpu | ExecMemory | ExecWall

datatype exec_outcome = ExecOk i32 | ExecLimitExceeded exec_limit_kind

record exec_limits =
  el_fuel :: u64
  el_memory_bytes :: nat
  el_wall_ns :: nat

definition limits_unlimited :: exec_limits where
  "limits_unlimited = \<lparr>el_fuel = 0, el_memory_bytes = 0, el_wall_ns = 0\<rparr>"

definition memory_sentinel :: bytes where
  "memory_sentinel = ascii ''cosaci-wasm memory cap exceeded''"

text \<open>The limiter: a message when the request is over a positive cap.\<close>

definition memory_growing :: "nat \<Rightarrow> nat \<Rightarrow> bytes option" where
  "memory_growing max_bytes desired =
     (if 0 < max_bytes \<and> max_bytes < desired then
        Some (memory_sentinel @ ascii '': requested '' @ dec_digits desired @ ascii '' > cap '' @ dec_digits max_bytes)
      else None)"

datatype trap = OutOfFuel | Interrupt | OtherTrap

datatype call_result = CallOk i32 | CallErr "trap option" bytes

record wasm_lib =
  wl_encode :: "i32 \<times> i32 \<Rightarrow> bytes"
  wl_decode :: "bytes \<Rightarrow> (i32 \<times> i32) option"
  wl_engine :: "bool \<Rightarrow> bool \<Rightarrow> bool"
  wl_module :: "bytes \<Rightarrow> bool"
  wl_set_fuel :: "u64 \<Rightarrow> bool"
  wl_instance :: "bytes \<Rightarrow> (nat \<Rightarrow> bytes option) \<Rightarrow> bool"
  wl_export :: "bytes \<Rightarrow> bool"
  wl_call :: "bytes \<Rightarrow> u64 option \<Rightarrow> nat option \<Rightarrow> (nat \<Rightarrow> bytes option) \<Rightarrow> i32 \<Rightarrow> i32 \<Rightarrow> call_result"

datatype wasm_error =
  WasmArgs | WasmEngine | WasmModule | WasmFuel | WasmInstance | WasmExport | WasmCall bytes | WasmImpossible exec_limit_kind

definition module_hash :: "crypto \<Rightarrow> bytes \<Rightarrow> bytes" where
  "module_hash cr wasm = cr_sha256 cr wasm"

definition encode_args :: "wasm_lib \<Rightarrow> i32 \<Rightarrow> i32 \<Rightarrow> bytes" where
  "encode_args wl a b = wl_encode wl (a, b)"

fun contains_bytes :: "bytes \<Rightarrow> bytes \<Rightarrow> bool" where
  "contains_bytes needle [] = (needle = [])"
| "contains_bytes needle (b # bs) = (take (length needle) (b # bs) = needle \<or> contains_bytes needle bs)"

definition classify_call :: "call_result \<Rightarrow> wasm_error + exec_outcome" where
  "classify_call res =
     (case res of
        CallOk v \<Rightarrow> Inr (ExecOk v)
      | CallErr tr msg \<Rightarrow>
          if tr = Some OutOfFuel then Inr (ExecLimitExceeded ExecCpu)
          else if tr = Some Interrupt then Inr (ExecLimitExceeded ExecWall)
          else if contains_bytes memory_sentinel msg then Inr (ExecLimitExceeded ExecMemory)
          else Inl (WasmCall msg))"

definition execute_with_limits :: "wasm_lib \<Rightarrow> bytes \<Rightarrow> bytes \<Rightarrow> exec_limits \<Rightarrow> wasm_error + exec_outcome" where
  "execute_with_limits wl wasm args_cbor limits =
     (case wl_decode wl args_cbor of None \<Rightarrow> Inl WasmArgs
      | Some (a, b) \<Rightarrow>
          let fuel_active = 0 < el_fuel limits; wall_active = 0 < el_wall_ns limits;
              limiter = memory_growing (el_memory_bytes limits) in
          if \<not> wl_engine wl fuel_active wall_active then Inl WasmEngine
          else if \<not> wl_module wl wasm then Inl WasmModule
          else if fuel_active \<and> \<not> wl_set_fuel wl (el_fuel limits) then Inl WasmFuel
          else if \<not> wl_instance wl wasm limiter then Inl WasmInstance
          else if \<not> wl_export wl wasm then Inl WasmExport
          else classify_call (wl_call wl wasm (if fuel_active then Some (el_fuel limits) else None)
                 (if wall_active then Some (el_wall_ns limits) else None) limiter a b))"

definition execute :: "wasm_lib \<Rightarrow> bytes \<Rightarrow> bytes \<Rightarrow> wasm_error + i32" where
  "execute wl wasm args_cbor =
     (case execute_with_limits wl wasm args_cbor limits_unlimited of
        Inl e \<Rightarrow> Inl e
      | Inr (ExecOk v) \<Rightarrow> Inr v
      | Inr (ExecLimitExceeded k) \<Rightarrow> Inl (WasmImpossible k))"

definition wasm_output_hash :: "crypto \<Rightarrow> bytes \<Rightarrow> i32 \<Rightarrow> bytes" where
  "wasm_output_hash cr mh result = cr_sha256 cr (mh @ le_bytes 4 result)"

section \<open>What the engine promises\<close>

text \<open>Fuel can run out only when it is metered, and the epoch can interrupt only when it has a
  deadline.\<close>

definition wasm_ok :: "wasm_lib \<Rightarrow> bool" where
  "wasm_ok wl \<longleftrightarrow> (\<forall>a b. wl_decode wl (wl_encode wl (a, b)) = Some (a, b)) \<and>
     (\<forall>m fuel wall lim a b tr msg. wl_call wl m fuel wall lim a b = CallErr tr msg \<longrightarrow>
        (fuel = None \<longrightarrow> tr \<noteq> Some OutOfFuel) \<and> (wall = None \<longrightarrow> tr \<noteq> Some Interrupt))"

lemma contains_bytes_prefix: "take (length n) s = n \<Longrightarrow> contains_bytes n s"
  by (cases s) auto

lemma contains_bytes_append: "contains_bytes n s \<Longrightarrow> contains_bytes n (p @ s)"
  by (induction p) auto

text \<open>Whatever the engine puts before the message of the limiter, and after it, the
  text that the code looks for is found.\<close>

lemma limiter_message_found:
  "memory_growing cap desired = Some msg \<Longrightarrow> contains_bytes memory_sentinel (pre @ msg @ post)"
  unfolding memory_growing_def
  by (intro contains_bytes_append contains_bytes_prefix) (auto split: if_splits)

text \<open>With no limits the internal \<open>should be impossible\<close> branch is reached only through
  the text search: by an error of the call whose message holds the limiter's text.\<close>

lemma execute_impossible:
  assumes "wasm_ok wl" and "execute wl wasm args = Inl (WasmImpossible k)"
  shows "k = ExecMemory \<and> (\<exists>a b tr msg. wl_call wl wasm None None (memory_growing 0) a b = CallErr tr msg \<and>
           contains_bytes memory_sentinel msg)"
proof -
  have "classify_call r \<noteq> Inl (WasmImpossible k)" for r
    by (simp add: classify_call_def split: call_result.split)
  with assms(2) obtain a b where "classify_call (wl_call wl wasm None None (memory_growing 0) a b) = Inr (ExecLimitExceeded k)"
    by (auto simp: execute_def execute_with_limits_def limits_unlimited_def Let_def
        split: sum.splits exec_outcome.splits option.splits if_splits)
  with assms(1) show ?thesis
    by (fastforce simp: wasm_ok_def classify_call_def split: call_result.splits if_splits)
qed

text \<open>A module whose initial memory is over the cap is refused while it is instantiated,
  and this is an error and not an exceeded limit.\<close>

lemma initial_memory_is_error:
  "wl_decode wl args = Some (a, b) \<Longrightarrow> wl_engine wl (0 < el_fuel l) (0 < el_wall_ns l) \<Longrightarrow> wl_module wl wasm \<Longrightarrow>
   (0 < el_fuel l \<longrightarrow> wl_set_fuel wl (el_fuel l)) \<Longrightarrow> \<not> wl_instance wl wasm (memory_growing (el_memory_bytes l)) \<Longrightarrow>
   execute_with_limits wl wasm args l = Inl WasmInstance"
  by (simp add: execute_with_limits_def Let_def)

text \<open>An engine that adds, running out of fuel at its third unit and growing the memory by
  the first argument.\<close>

definition toy_wasm :: wasm_lib where
  "toy_wasm = \<lparr>wl_encode = (\<lambda>(a, b). le_bytes 4 a @ le_bytes 4 b),
     wl_decode = (\<lambda>bs. Some (from_le_bytes (take 4 bs), from_le_bytes (drop 4 bs))),
     wl_engine = (\<lambda>_ _. True), wl_module = (\<lambda>_. True), wl_set_fuel = (\<lambda>_. True),
     wl_instance = (\<lambda>_ _. True), wl_export = (\<lambda>_. True),
     wl_call = (\<lambda>m fuel wall lim a b. if fuel = Some 1 then CallErr (Some OutOfFuel) [] else
        case lim (unat a) of Some msg \<Rightarrow> CallErr None msg | None \<Rightarrow> CallOk (a + b))\<rparr>"

lemma toy_wasm_ok: "wasm_ok toy_wasm"
  by (auto simp: wasm_ok_def toy_wasm_def split: option.splits if_splits)

end
