(* ===== verification/Pipeline.thy ===== *)
theory Pipeline
  imports Network Source_Fetch Native_Exec Wasm_Runtime
begin

text \<open>
  The pipeline language and its executor (\<open>cosaci-jobs/src/lib.rs\<close>). The world outside
  the program is the record \<open>exec_env\<close>: the hash, the canonical CBOR encoding of the
  values that are hashed, the WebAssembly engine, \<open>git\<close>, and what spawning a command at
  a given step gives. An execution that does not return (a child that never ends and has
  no limit, or a pipe that stays open) has the value \<open>None\<close>.
\<close>

section \<open>The language\<close>

record limits =
  lm_cpu_seconds :: u32
  lm_memory_mb :: u32
  lm_wall_seconds :: u32
  lm_network :: network_policy

datatype step =
  SourceFetch bytes bytes
| ExecWasm bytes bytes limits
| ExecNative "bytes list" "(bytes \<times> bytes) list" limits
| CaptureLog bytes
| CaptureArtifact bytes bytes

record pipeline =
  pl_steps :: "step list"

datatype limit_kind = LimitCpu | LimitMemory | LimitWall | LimitNetwork

datatype step_status = StepSuccess | StepFailed | StepLimitExceeded limit_kind | StepNotImplemented

record step_output =
  so_step_index :: u32
  so_status :: step_status
  so_output_hash :: bytes

datatype capture_kind = CaptureStdout | CaptureStderr | CaptureFile

record captured_output =
  co_step_index :: u32
  co_name :: bytes
  co_kind :: capture_kind
  co_sha256 :: bytes
  co_length :: u64
  co_bytes_inline :: bytes

record pipeline_result =
  pr_steps :: "step_output list"
  pr_final_artifact_hash :: bytes
  pr_captures :: "captured_output list"

datatype step_kind = KindSourceFetch | KindExecWasm | KindExecNative | KindCaptureLog | KindCaptureArtifact

datatype pipeline_error =
  EncodingError u32
| WasmRuntimeError u32 wasm_error
| NotImplementedError u32 step_kind

section \<open>The environment\<close>

text \<open>The values whose canonical encoding is hashed, one constructor per shape of tuple.\<close>

datatype canon =
  CanonStep step
| CanonTag step bytes
| CanonKind step u8
| CanonLimit step limit_kind
| CanonSpawn step bytes int
| CanonExit step bytes int bytes bytes
| CanonCapture step bytes bytes bytes
| CanonOutputs "step_output list"

record native_run =
  nr_pid :: u32
  nr_child :: child
  nr_stdout :: "bytes option list"
  nr_stderr :: "bytes option list"
  nr_events :: "bytes option"

record exec_env =
  ee_crypto :: crypto
  ee_cbor :: "canon \<Rightarrow> bytes"
  ee_wasm :: wasm_lib
  ee_git :: "u32 \<Rightarrow> git"
  ee_os :: "u32 \<Rightarrow> cgroup_os"
  ee_spawn :: "u32 \<Rightarrow> bytes list \<Rightarrow> (bytes \<times> bytes) list \<Rightarrow> int + native_run"

definition hash_canonical :: "exec_env \<Rightarrow> canon \<Rightarrow> bytes" where
  "hash_canonical env v = cr_sha256 (ee_crypto env) (ee_cbor env v)"

definition FUEL_PER_CPU_SECOND :: nat where
  "FUEL_PER_CPU_SECOND = 1000000000"

section \<open>The executors of the steps\<close>

record native_captures =
  nc_stdout_bytes :: bytes
  nc_stdout_sha256 :: bytes
  nc_stderr_bytes :: bytes
  nc_stderr_sha256 :: bytes

definition not_implemented :: "exec_env \<Rightarrow> u32 \<Rightarrow> step \<Rightarrow> step_kind \<Rightarrow> step_output" where
  "not_implemented env i st kind =
     \<lparr>so_step_index = i, so_status = StepNotImplemented, so_output_hash = hash_canonical env (CanonStep st)\<rparr>"

definition capture_pair :: "u32 \<Rightarrow> bytes \<Rightarrow> native_captures \<Rightarrow> captured_output list" where
  "capture_pair i name nc =
     [\<lparr>co_step_index = i, co_name = name @ ascii ''.stdout'', co_kind = CaptureStdout, co_sha256 = nc_stdout_sha256 nc,
       co_length = of_nat (length (nc_stdout_bytes nc)), co_bytes_inline = nc_stdout_bytes nc\<rparr>,
      \<lparr>co_step_index = i, co_name = name @ ascii ''.stderr'', co_kind = CaptureStderr, co_sha256 = nc_stderr_sha256 nc,
       co_length = of_nat (length (nc_stderr_bytes nc)), co_bytes_inline = nc_stderr_bytes nc\<rparr>]"

definition execute_capture_log_step ::
  "exec_env \<Rightarrow> u32 \<Rightarrow> bytes \<Rightarrow> native_captures option \<Rightarrow> captured_output list \<Rightarrow> step \<Rightarrow> step_output \<times> captured_output list" where
  "execute_capture_log_step env i name last_native captures st =
     (case last_native of
        None \<Rightarrow> (\<lparr>so_step_index = i, so_status = StepFailed,
                  so_output_hash = hash_canonical env (CanonTag st (ascii ''no_preceding_exec_native''))\<rparr>, captures)
      | Some nc \<Rightarrow> (\<lparr>so_step_index = i, so_status = StepSuccess,
                  so_output_hash = hash_canonical env (CanonCapture st (ascii ''ok'') (nc_stdout_sha256 nc) (nc_stderr_sha256 nc))\<rparr>,
                 captures @ capture_pair i name nc))"

fun fetch_error_id :: "source_fetch_error \<Rightarrow> u8" where
  "fetch_error_id GitNotFound = 0"
| "fetch_error_id (CloneFailed _) = 1"
| "fetch_error_id (CheckoutFailed _) = 2"
| "fetch_error_id (ResolveFailed _) = 3"
| "fetch_error_id FetchIo = 4"

definition execute_source_fetch_step :: "exec_env \<Rightarrow> u32 \<Rightarrow> bytes \<Rightarrow> bytes \<Rightarrow> step \<Rightarrow> step_output" where
  "execute_source_fetch_step env i url reference st =
     (case execute_source_fetch (ee_crypto env) (ee_git env i) url reference of
        Inr out \<Rightarrow> \<lparr>so_step_index = i, so_status = StepSuccess, so_output_hash = fetch_output_hash (ee_crypto env) out\<rparr>
      | Inl e \<Rightarrow> \<lparr>so_step_index = i, so_status = StepFailed, so_output_hash = hash_canonical env (CanonKind st (fetch_error_id e))\<rparr>)"

fun limit_of_exec :: "exec_limit_kind \<Rightarrow> limit_kind" where
  "limit_of_exec ExecCpu = LimitCpu"
| "limit_of_exec ExecMemory = LimitMemory"
| "limit_of_exec ExecWall = LimitWall"

definition exec_limits_of :: "limits \<Rightarrow> exec_limits" where
  "exec_limits_of l =
     \<lparr>el_fuel = of_nat (min (unat (lm_cpu_seconds l) * FUEL_PER_CPU_SECOND) (2 ^ 64 - 1)),
      el_memory_bytes = min (unat (lm_memory_mb l) * (1024 * 1024)) (2 ^ 64 - 1),
      el_wall_ns = unat (lm_wall_seconds l) * 1000000000\<rparr>"

definition execute_wasm_step :: "exec_env \<Rightarrow> u32 \<Rightarrow> bytes \<Rightarrow> bytes \<Rightarrow> limits \<Rightarrow> step \<Rightarrow> pipeline_error + step_output" where
  "execute_wasm_step env i mdl args_cbor l st =
     (case execute_with_limits (ee_wasm env) mdl args_cbor (exec_limits_of l) of
        Inl e \<Rightarrow> Inl (WasmRuntimeError i e)
      | Inr (ExecOk result) \<Rightarrow>
          Inr \<lparr>so_step_index = i, so_status = StepSuccess,
               so_output_hash = wasm_output_hash (ee_crypto env) (module_hash (ee_crypto env) mdl) result\<rparr>
      | Inr (ExecLimitExceeded k) \<Rightarrow>
          Inr \<lparr>so_step_index = i, so_status = StepLimitExceeded (limit_of_exec k),
               so_output_hash = hash_canonical env (CanonLimit st (limit_of_exec k))\<rparr>)"

definition empty_caps :: "crypto \<Rightarrow> native_captures" where
  "empty_caps cr = \<lparr>nc_stdout_bytes = [], nc_stdout_sha256 = cr_sha256 cr [],
     nc_stderr_bytes = [], nc_stderr_sha256 = cr_sha256 cr []\<rparr>"

definition limit_output :: "exec_env \<Rightarrow> u32 \<Rightarrow> step \<Rightarrow> limit_kind \<Rightarrow> step_output" where
  "limit_output env i st which =
     \<lparr>so_step_index = i, so_status = StepLimitExceeded which, so_output_hash = hash_canonical env (CanonLimit st which)\<rparr>"

definition secs_limit :: "u32 \<Rightarrow> nat option" where
  "secs_limit s = (if 0 < s then Some (unat s * 1000000000) else None)"

text \<open>The part after a successful spawn: the control group, the wait, and the outcome. A failed
  \<open>attach\<close> only logs a warning, so it leaves no trace here; its effect shows in what the
  polls and the event file of the control group report.\<close>

definition exited_output :: "exec_env \<Rightarrow> u32 \<Rightarrow> step \<Rightarrow> exit_status \<Rightarrow> bytes \<Rightarrow> bytes \<Rightarrow> step_output \<times> native_captures" where
  "exited_output env i st status out err =
     (let oh = cr_sha256 (ee_crypto env) out; eh = cr_sha256 (ee_crypto env) err in
      (if exit_success status then
         \<lparr>so_step_index = i, so_status = StepSuccess,
          so_output_hash = hash_canonical env (CanonExit st (ascii ''ok'') (case status of Some c \<Rightarrow> c | None \<Rightarrow> 0) oh eh)\<rparr>
       else
         \<lparr>so_step_index = i, so_status = StepFailed,
          so_output_hash = hash_canonical env (CanonExit st (ascii ''exit_nonzero'') (case status of Some c \<Rightarrow> c | None \<Rightarrow> - 1) oh eh)\<rparr>,
       \<lparr>nc_stdout_bytes = out, nc_stdout_sha256 = oh, nc_stderr_bytes = err, nc_stderr_sha256 = eh\<rparr>))"

definition native_finish :: "exec_env \<Rightarrow> u32 \<Rightarrow> limits \<Rightarrow> step \<Rightarrow> native_run \<Rightarrow> (step_output \<times> native_captures) option" where
  "native_finish env i l st run =
     (let cgroup = cgroup_try_create (ee_os env i) i (lm_memory_mb l) (lm_cpu_seconds l);
          oom_killed = (cgroup \<noteq> None \<and> was_oom_killed (nr_events run)) in
      case wait_with_limits (nr_child run) (secs_limit (lm_wall_seconds l)) (secs_limit (lm_cpu_seconds l)) (cgroup \<noteq> None) of
        None \<Rightarrow> None
      | Some KilledByWall \<Rightarrow> Some (limit_output env i st LimitWall, empty_caps (ee_crypto env))
      | Some KilledByCpu \<Rightarrow> Some (limit_output env i st LimitCpu, empty_caps (ee_crypto env))
      | Some (Exited status) \<Rightarrow>
          (case (read_capped (nr_stdout run) MAX_CAPTURE_BYTES, read_capped (nr_stderr run) MAX_CAPTURE_BYTES) of
             (Some out, Some err) \<Rightarrow>
               Some (if oom_killed then (limit_output env i st LimitMemory, empty_caps (ee_crypto env))
                     else exited_output env i st status out err)
           | _ \<Rightarrow> None))"

definition execute_native_step ::
  "exec_env \<Rightarrow> u32 \<Rightarrow> bytes list \<Rightarrow> (bytes \<times> bytes) list \<Rightarrow> limits \<Rightarrow> step \<Rightarrow> (step_output \<times> native_captures) option" where
  "execute_native_step env i command vars l st =
     (if command = [] then
        Some (\<lparr>so_step_index = i, so_status = StepFailed,
               so_output_hash = hash_canonical env (CanonTag st (ascii ''empty_command''))\<rparr>, empty_caps (ee_crypto env))
      else case ee_spawn env i command vars of
        Inl kind_id \<Rightarrow>
          Some (\<lparr>so_step_index = i, so_status = StepFailed,
                 so_output_hash = hash_canonical env (CanonSpawn st (ascii ''spawn_failed'') kind_id)\<rparr>, empty_caps (ee_crypto env))
      | Inr run \<Rightarrow> native_finish env i l st run)"

section \<open>The pipeline\<close>

text \<open>One iteration of the loop: the captures and the bytes of the last native step are the
  loop's state.\<close>

record loop_state =
  ls_outputs :: "step_output list"
  ls_captures :: "captured_output list"
  ls_last_native :: "native_captures option"

definition push_output :: "step_output \<Rightarrow> loop_state \<Rightarrow> loop_state" where
  "push_output out s = s\<lparr>ls_outputs := ls_outputs s @ [out]\<rparr>"

fun execute_step :: "exec_env \<Rightarrow> u32 \<Rightarrow> step \<Rightarrow> loop_state \<Rightarrow> (pipeline_error + loop_state) option" where
  "execute_step env i (ExecWasm mdl args_cbor l) s =
     (case execute_wasm_step env i mdl args_cbor l (ExecWasm mdl args_cbor l) of
        Inl e \<Rightarrow> Some (Inl e) | Inr out \<Rightarrow> Some (Inr (push_output out s)))"
| "execute_step env i (SourceFetch url reference) s =
     Some (Inr (push_output (execute_source_fetch_step env i url reference (SourceFetch url reference)) s))"
| "execute_step env i (ExecNative command vars l) s =
     (case execute_native_step env i command vars l (ExecNative command vars l) of
        None \<Rightarrow> None
      | Some (out, caps) \<Rightarrow> Some (Inr (push_output out (s\<lparr>ls_last_native := Some caps\<rparr>))))"
| "execute_step env i (CaptureLog name) s =
     (case execute_capture_log_step env i name (ls_last_native s) (ls_captures s) (CaptureLog name) of
        (out, captures) \<Rightarrow> Some (Inr (push_output out (s\<lparr>ls_captures := captures\<rparr>))))"
| "execute_step env i (CaptureArtifact path name) s =
     Some (Inr (push_output (not_implemented env i (CaptureArtifact path name) KindCaptureArtifact) s))"

fun execute_steps :: "exec_env \<Rightarrow> nat \<Rightarrow> step list \<Rightarrow> loop_state \<Rightarrow> (pipeline_error + loop_state) option" where
  "execute_steps env idx [] s = Some (Inr s)"
| "execute_steps env idx (st # sts) s =
     (case execute_step env (of_nat idx) st s of
        None \<Rightarrow> None | Some (Inl e) \<Rightarrow> Some (Inl e) | Some (Inr s') \<Rightarrow> execute_steps env (Suc idx) sts s')"

definition loop_init :: loop_state where
  "loop_init = \<lparr>ls_outputs = [], ls_captures = [], ls_last_native = None\<rparr>"

definition execute_pipeline :: "exec_env \<Rightarrow> pipeline \<Rightarrow> (pipeline_error + pipeline_result) option" where
  "execute_pipeline env p =
     (case execute_steps env 0 (pl_steps p) loop_init of
        None \<Rightarrow> None
      | Some (Inl e) \<Rightarrow> Some (Inl e)
      | Some (Inr s) \<Rightarrow> Some (Inr \<lparr>pr_steps = ls_outputs s,
          pr_final_artifact_hash = hash_canonical env (CanonOutputs (ls_outputs s)), pr_captures = ls_captures s\<rparr>))"

definition canonical_encoding :: "(pipeline \<Rightarrow> bytes) \<Rightarrow> pipeline \<Rightarrow> pipeline_error + bytes" where
  "canonical_encoding cbor p = Inr (cbor p)"

section \<open>Reference semantics\<close>

text \<open>The output of a step run on its own, with only the captures of an earlier native step;
  the native captures and the captured outputs as functions of the steps before.\<close>

definition step_result :: "exec_env \<Rightarrow> u32 \<Rightarrow> step \<Rightarrow> native_captures option \<Rightarrow> step_output option" where
  "step_result env i st prev =
     (case execute_step env i st \<lparr>ls_outputs = [], ls_captures = [], ls_last_native = prev\<rparr> of
        Some (Inr s) \<Rightarrow> Some (hd (ls_outputs s)) | _ \<Rightarrow> None)"

fun next_native :: "exec_env \<Rightarrow> u32 \<Rightarrow> step \<Rightarrow> native_captures option \<Rightarrow> native_captures option" where
  "next_native env i (ExecNative command vars l) prev =
     map_option snd (execute_native_step env i command vars l (ExecNative command vars l))"
| "next_native env i _ prev = prev"

fun step_captures :: "u32 \<Rightarrow> step \<Rightarrow> native_captures option \<Rightarrow> captured_output list" where
  "step_captures i (CaptureLog name) (Some nc) = capture_pair i name nc"
| "step_captures i _ _ = []"

fun native_before :: "exec_env \<Rightarrow> nat \<Rightarrow> step list \<Rightarrow> native_captures option \<Rightarrow> native_captures option" where
  "native_before env idx [] prev = prev"
| "native_before env idx (st # sts) prev = native_before env (Suc idx) sts (next_native env (of_nat idx) st prev)"

lemma execute_step_local:
  assumes "execute_step env i st s = Some (Inr s')"
  shows "\<exists>out. ls_outputs s' = ls_outputs s @ [out] \<and> step_result env i st (ls_last_native s) = Some out \<and>
     so_step_index out = i \<and> ls_captures s' = ls_captures s @ step_captures i st (ls_last_native s) \<and>
     ls_last_native s' = next_native env i st (ls_last_native s)"
proof (cases st)
  case (SourceFetch url r)
  then show ?thesis using assms
    by (auto simp: step_result_def push_output_def execute_source_fetch_step_def split: sum.split)
next
  case (ExecWasm m a l)
  then show ?thesis using assms
    by (auto simp: step_result_def push_output_def execute_wasm_step_def split: sum.splits exec_outcome.splits)
next
  case (ExecNative c v l)
  then obtain out caps where run: "execute_native_step env i c v l st = Some (out, caps)"
    and s': "s' = push_output out (s\<lparr>ls_last_native := Some caps\<rparr>)"
    using assms by (auto split: option.splits)
  have "so_step_index out = i"
    using run by (auto simp: execute_native_step_def native_finish_def limit_output_def exited_output_def Let_def
        split: if_splits sum.splits option.splits exit_outcome.splits)
  then show ?thesis using ExecNative run s' by (simp add: step_result_def push_output_def)
next
  case (CaptureLog name)
  then show ?thesis using assms
    by (auto simp: step_result_def push_output_def execute_capture_log_step_def split: option.splits)
next
  case (CaptureArtifact path name)
  then show ?thesis using assms by (auto simp: step_result_def push_output_def not_implemented_def)
qed

fun captures_from :: "exec_env \<Rightarrow> nat \<Rightarrow> step list \<Rightarrow> native_captures option \<Rightarrow> captured_output list" where
  "captures_from env idx [] prev = []"
| "captures_from env idx (st # sts) prev =
     step_captures (of_nat idx) st prev @ captures_from env (Suc idx) sts (next_native env (of_nat idx) st prev)"

lemma execute_steps_local:
  assumes "execute_steps env idx sts s = Some (Inr s')"
  shows "\<exists>outs. ls_outputs s' = ls_outputs s @ outs \<and> length outs = length sts \<and>
     (\<forall>i<length sts. so_step_index (outs ! i) = of_nat (idx + i) \<and>
        step_result env (of_nat (idx + i)) (sts ! i) (native_before env idx (take i sts) (ls_last_native s)) = Some (outs ! i)) \<and>
     ls_captures s' = ls_captures s @ captures_from env idx sts (ls_last_native s)"
  using assms
proof (induction env idx sts s rule: execute_steps.induct)
  case (2 env idx st sts s)
  from "2.prems" obtain s1 where s1: "execute_step env (of_nat idx) st s = Some (Inr s1)"
    and rest: "execute_steps env (Suc idx) sts s1 = Some (Inr s')"
    by (auto split: option.splits sum.splits)
  obtain out where out: "ls_outputs s1 = ls_outputs s @ [out]" "step_result env (of_nat idx) st (ls_last_native s) = Some out"
    "so_step_index out = of_nat idx" "ls_captures s1 = ls_captures s @ step_captures (of_nat idx) st (ls_last_native s)"
    "ls_last_native s1 = next_native env (of_nat idx) st (ls_last_native s)"
    using execute_step_local [OF s1] by blast
  obtain outs where outs: "ls_outputs s' = ls_outputs s1 @ outs" "length outs = length sts"
    "\<forall>i<length sts. so_step_index (outs ! i) = of_nat (Suc idx + i) \<and>
        step_result env (of_nat (Suc idx + i)) (sts ! i) (native_before env (Suc idx) (take i sts) (ls_last_native s1)) = Some (outs ! i)"
    "ls_captures s' = ls_captures s1 @ captures_from env (Suc idx) sts (ls_last_native s1)"
    using "2.IH" [OF s1 _ rest] by auto
  have "so_step_index ((out # outs) ! i) = of_nat (idx + i) \<and>
      step_result env (of_nat (idx + i)) ((st # sts) ! i) (native_before env idx (take i (st # sts)) (ls_last_native s)) = Some ((out # outs) ! i)"
    if "i < length (st # sts)" for i
    using that out outs by (cases i) auto
  moreover have "length (out # outs) = length (st # sts)" "ls_outputs s' = ls_outputs s @ out # outs"
    "ls_captures s' = ls_captures s @ captures_from env idx (st # sts) (ls_last_native s)"
    using out outs by simp_all
  ultimately show ?case by blast
qed auto

section \<open>Captured bytes\<close>

definition caps_ok :: "crypto \<Rightarrow> native_captures \<Rightarrow> bool" where
  "caps_ok cr nc \<longleftrightarrow> nc_stdout_sha256 nc = cr_sha256 cr (nc_stdout_bytes nc) \<and> nc_stderr_sha256 nc = cr_sha256 cr (nc_stderr_bytes nc) \<and>
     length (nc_stdout_bytes nc) \<le> MAX_CAPTURE_BYTES \<and> length (nc_stderr_bytes nc) \<le> MAX_CAPTURE_BYTES"

lemma empty_caps_ok: "caps_ok cr (empty_caps cr)"
  by (simp add: caps_ok_def empty_caps_def)

lemma read_capped_length: "read_capped pipe cap = Some bs \<Longrightarrow> length bs \<le> cap"
  by (auto simp: read_capped_eq)

lemma native_step_caps_ok:
  assumes "execute_native_step env i c v l st = Some (out, caps)"
  shows "caps_ok (ee_crypto env) caps"
  using assms empty_caps_ok
  by (auto simp: execute_native_step_def native_finish_def exited_output_def caps_ok_def Let_def
      dest: read_capped_length split: if_splits sum.splits option.splits exit_outcome.splits)

lemma next_native_ok:
  "pred_option (caps_ok (ee_crypto env)) prev \<Longrightarrow> pred_option (caps_ok (ee_crypto env)) (next_native env i st prev)"
  by (cases st) (auto simp: option.pred_set dest: native_step_caps_ok)

definition capture_ok :: "crypto \<Rightarrow> captured_output \<Rightarrow> bool" where
  "capture_ok cr c \<longleftrightarrow> co_sha256 c = cr_sha256 cr (co_bytes_inline c) \<and> length (co_bytes_inline c) \<le> MAX_CAPTURE_BYTES \<and>
     unat (co_length c) = length (co_bytes_inline c)"

lemma capture_pair_ok: "caps_ok cr nc \<Longrightarrow> list_all (capture_ok cr) (capture_pair i name nc)"
proof -
  have "n \<le> MAX_CAPTURE_BYTES \<Longrightarrow> unat (of_nat n :: u64) = n" for n
    by (simp add: MAX_CAPTURE_BYTES_def unat_of_nat)
  then show "caps_ok cr nc \<Longrightarrow> list_all (capture_ok cr) (capture_pair i name nc)"
    unfolding capture_pair_def caps_ok_def capture_ok_def by (simp add: list.pred_set)
qed

lemma captures_from_ok:
  "pred_option (caps_ok (ee_crypto env)) prev \<Longrightarrow> list_all (capture_ok (ee_crypto env)) (captures_from env idx sts prev)"
proof (induction env idx sts prev rule: captures_from.induct)
  case (2 env idx st sts prev)
  have "list_all (capture_ok (ee_crypto env)) (step_captures (of_nat idx) st prev)"
    using "2.prems" by (cases "(of_nat idx :: u32, st, prev)" rule: step_captures.cases) (auto simp: capture_pair_ok)
  then show ?case using 2 next_native_ok by simp
qed simp

lemma micros_exact: "unat (of_nat (unat s * 1000000000 div 1000) :: u64) = unat s * 1000000" for s :: u32
proof -
  have "unat (of_nat (n * 1000000000 div 1000) :: u64) = n * 1000000" if "n < 2 ^ 32" for n
  proof -
    have "n * 1000000000 div 1000 = n * 1000000" by simp
    moreover have "k < 2 ^ 64 \<Longrightarrow> unat (of_nat k :: u64) = k" for k by (simp add: unat_of_nat)
    ultimately show ?thesis using that by (simp del: of_nat_mult)
  qed
  from this [of "unat s"] unat_lt_pow [of s] show ?thesis by simp
qed

text \<open>A child that exits while a pipe stays open, held by a process it left behind.\<close>

lemma native_finish_open:
  assumes "wait_with_limits (nr_child run) (secs_limit (lm_wall_seconds l)) (secs_limit (lm_cpu_seconds l))
      (cgroup_try_create (ee_os env i) i (lm_memory_mb l) (lm_cpu_seconds l) \<noteq> None) = Some (Exited status)"
    and "pipe_bytes (nr_stdout run) = None \<or> pipe_bytes (nr_stderr run) = None"
  shows "native_finish env i l st run = None"
  using assms by (auto simp: native_finish_def Let_def read_capped_eq split: option.split)

section \<open>A concrete environment\<close>

definition toy_canon :: "canon \<Rightarrow> bytes" where
  "toy_canon v = (case v of CanonOutputs xs \<Rightarrow> 0 # concat (map so_output_hash xs) | CanonStep _ \<Rightarrow> [1] | CanonTag _ t \<Rightarrow> 2 # t
     | CanonKind _ k \<Rightarrow> [3, k] | CanonLimit _ _ \<Rightarrow> [4] | CanonSpawn _ t _ \<Rightarrow> 5 # t | CanonExit _ t _ oh eh \<Rightarrow> 6 # oh @ eh
     | CanonCapture _ t oh eh \<Rightarrow> 7 # oh @ eh)"

definition no_limits :: limits where
  "no_limits = \<lparr>lm_cpu_seconds = 0, lm_memory_mb = 0, lm_wall_seconds = 0, lm_network = deny_all\<rparr>"

definition toy_env :: "native_run \<Rightarrow> exec_env" where
  "toy_env run = \<lparr>ee_crypto = toy_crypto, ee_cbor = toy_canon, ee_wasm = toy_wasm,
     ee_git = (\<lambda>_. \<lparr>git_tempdir = False, git_output = (\<lambda>_ _. ProcIo), git_tree = (\<lambda>_. None)\<rparr>),
     ee_os = (\<lambda>_. \<lparr>os_read = (\<lambda>_. None), os_mkdir = (\<lambda>_. False), os_write = (\<lambda>_ _. False), os_pid = 1, os_now_ns = 0\<rparr>),
     ee_spawn = (\<lambda>_ _ _. Inr run)\<rparr>"

definition toy_run :: "bytes option list \<Rightarrow> native_run" where
  "toy_run out = \<lparr>nr_pid = 7, nr_child = \<lparr>ch_wait = Some (Some (Some 0)),
       ch_polls = [\<lparr>po_try_wait = StillRunning, po_elapsed_ns = 0, po_cpu_stat = None\<rparr>,
                   \<lparr>po_try_wait = Finished (Some 0), po_elapsed_ns = 50000000, po_cpu_stat = None\<rparr>]\<rparr>,
     nr_stdout = out, nr_stderr = [Some []], nr_events = None\<rparr>"

section \<open>Properties\<close>





text \<open>A child that has exited does not end its step while a pipe stays open: if a process it left
  behind holds its output, the executor waits for that pipe without a bound, whatever the wall limit.\<close>
theorem native_open_pipe_hangs:
  assumes "command \<noteq> []" and "ee_spawn env i command vars = Inr run"
    and "wait_with_limits (nr_child run) (secs_limit (lm_wall_seconds l)) (secs_limit (lm_cpu_seconds l))
      (cgroup_try_create (ee_os env i) i (lm_memory_mb l) (lm_cpu_seconds l) \<noteq> None) = Some (Exited status)"
    and "pipe_bytes (nr_stdout run) = None \<or> pipe_bytes (nr_stderr run) = None"
  shows "execute_native_step env i command vars l st = None"
  using assms native_finish_open [OF assms(3,4)] by (simp add: execute_native_step_def)

theorem native_open_pipe_hangs_witness:
  "execute_native_step (toy_env (toy_run [Some [1]])) 0 [[120]] [] (no_limits\<lparr>lm_wall_seconds := 1\<rparr>) (CaptureLog []) = None"
  by (rule native_open_pipe_hangs [where run = "toy_run [Some [1]]" and status = "Some 0"])
    (simp_all add: toy_env_def toy_run_def no_limits_def secs_limit_def wait_with_limits_def poll_outcome_def)

text \<open>C31: Two runners whose child of the same step ends with the same status and writes the same bytes
  report the same output, byte for byte: neither process ids, nor the number and timing of polls, nor how
  the pipes were cut into reads, nor the control group leave a trace (as long as neither was killed by a
  limit).\<close>
theorem native_step_deterministic:
  assumes "ee_crypto env = ee_crypto env'" "ee_cbor env = ee_cbor env'" and "command \<noteq> []"
    and "ee_spawn env i command vars = Inr run" "ee_spawn env' i command vars = Inr run'"
    and "wait_with_limits (nr_child run) (secs_limit (lm_wall_seconds l)) (secs_limit (lm_cpu_seconds l))
      (cgroup_try_create (ee_os env i) i (lm_memory_mb l) (lm_cpu_seconds l) \<noteq> None) = Some (Exited status)"
    and "wait_with_limits (nr_child run') (secs_limit (lm_wall_seconds l)) (secs_limit (lm_cpu_seconds l))
      (cgroup_try_create (ee_os env' i) i (lm_memory_mb l) (lm_cpu_seconds l) \<noteq> None) = Some (Exited status)"
    and "pipe_bytes (nr_stdout run) = pipe_bytes (nr_stdout run')" "pipe_bytes (nr_stderr run) = pipe_bytes (nr_stderr run')"
    and "\<not> was_oom_killed (nr_events run)" "\<not> was_oom_killed (nr_events run')"
  shows "execute_native_step env i command vars l st = execute_native_step env' i command vars l st"
proof -
  have "exited_output env i st status out err = exited_output env' i st status out err" for out err
    using assms(1,2) by (simp add: exited_output_def hash_canonical_def Let_def)
  with assms show ?thesis
    by (simp add: execute_native_step_def native_finish_def read_capped_eq Let_def split: option.split)
qed

theorem native_step_deterministic_witness:
  "let run = toy_run [Some [1, 2], Some []]; run' = (toy_run [Some [1], Some [2], None])\<lparr>nr_pid := 9\<rparr>; l = no_limits\<lparr>lm_wall_seconds := 1\<rparr> in
   execute_native_step (toy_env run) 0 [[120]] [] l (CaptureLog []) = execute_native_step (toy_env run') 0 [[120]] [] l (CaptureLog [])"
  unfolding Let_def
  by (rule native_step_deterministic [where run = "toy_run [Some [1, 2], Some []]" and status = "Some 0"
        and run' = "(toy_run [Some [1], Some [2], None])\<lparr>nr_pid := 9\<rparr>"])
    (simp_all add: toy_env_def toy_run_def no_limits_def secs_limit_def wait_with_limits_def poll_outcome_def
      was_oom_killed_def read_text_def)

end
