(* ===== verification/Protocol.thy ===== *)
theory Protocol
  imports Pipeline Attestation
begin

text \<open>
  The wire protocol (\<open>cosaci-protocol/src/proto.rs\<close>, \<open>proto_async.rs\<close>): the messages
  and their framing, four bytes of big-endian length and then the CBOR encoding. The
  encoding is the parameter \<open>envelope codec\<close>. A writer is the bytes it has taken and the
  room it has left, \<open>None\<close> for no bound; a reader is the bytes still to come.

  The locale \<open>framing\<close> is the interface of a framed stream: one frame is read back with
  the rest of the stream untouched, and no proper prefix of a frame is read as a message.
  From it follows, once, that any sequence of messages is read back in order.
\<close>

section \<open>Messages\<close>

record attestation_bundle =
  ab_attestation :: attestation
  ab_captures :: "captured_output list"

definition from_attestation :: "attestation \<Rightarrow> attestation_bundle" where
  "from_attestation a = \<lparr>ab_attestation = a, ab_captures = []\<rparr>"

definition VRF_REGISTRATION_CHALLENGE :: bytes where
  "VRF_REGISTRATION_CHALLENGE = ascii ''cosaci-runner-registration-v1''"

record admin_tenant_record =
  atr_tenant_id :: u64
  atr_signing_fp :: bytes
  atr_rate_capacity :: u64
  atr_rate_refill_per_sec :: u64
  atr_registered_at_unix_ns :: u64

record admin_agent_record =
  aar_runner_id :: u64
  aar_signing_fp :: bytes
  aar_vrf_fp :: bytes
  aar_enrolled_at_unix_ns :: int
  aar_initial_reputation_thousandths :: u32

datatype envelope =
  Register u64 bytes bytes bytes bytes u64 capabilities
| VrfClaim u64 bytes bytes
| SubmitAttestation attestation_bundle
| RegisterAck
| JobSeed u64 bytes
| Assign u64 pipeline job_requirements int
| Shutdown
| GetJob u64
| GetLogRoot
| JobBundleResponse job_bundle
| JobNotFound u64
| LogRoot "bytes option" u64
| GetCaptures u64 u64
| CapturesResponse u64 u64 "captured_output list"
| CapturesNotFound u64 u64
| AdminHello bytes u64 bytes
| AdminWelcome
| AdminError bytes
| AdminListAgents
| AdminAgentList "admin_agent_record list"
| AdminGetLogRoot
| AdminLogRoot "bytes option" u64
| AdminEnrollAgent u64 bytes bytes int u32
| AdminEnrollAck
| AdminRevokeAgent u64
| AdminRevokeAck
| AdminListTenants
| AdminTenantList "admin_tenant_record list"
| AdminAddTenant u64 bytes u64 u64 u64
| AdminAddTenantAck
| AdminRevokeTenant u64
| AdminRevokeTenantAck

definition ADMIN_HELLO_CHALLENGE :: bytes where
  "ADMIN_HELLO_CHALLENGE = ascii ''cosaci-admin-hello-v1''"

definition ADMIN_HELLO_FRESHNESS_NS :: u64 where
  "ADMIN_HELLO_FRESHNESS_NS = 60 * 1000000000"

definition MAX_ENVELOPE_BYTES_PUB :: nat where
  "MAX_ENVELOPE_BYTES_PUB = 16 * 2 ^ 20"

section \<open>Framing\<close>

datatype wire_error = WireInvalidData | WireEof | WireFailed

record writer =
  wr_out :: bytes
  wr_room :: "nat option"

definition write_all :: "bytes \<Rightarrow> writer \<Rightarrow> writer \<times> (wire_error + unit)" where
  "write_all bs w =
     (case wr_room w of
        None \<Rightarrow> (w\<lparr>wr_out := wr_out w @ bs\<rparr>, Inr ())
      | Some n \<Rightarrow> if length bs \<le> n then (w\<lparr>wr_out := wr_out w @ bs, wr_room := Some (n - length bs)\<rparr>, Inr ())
          else (w\<lparr>wr_out := wr_out w @ take n bs, wr_room := Some 0\<rparr>, Inl WireFailed))"

definition read_exact :: "nat \<Rightarrow> bytes \<Rightarrow> wire_error + bytes \<times> bytes" where
  "read_exact n s = (if length s < n then Inl WireEof else Inr (take n s, drop n s))"

definition write_envelope :: "envelope codec \<Rightarrow> envelope \<Rightarrow> writer \<Rightarrow> writer \<times> (wire_error + unit)" where
  "write_envelope c env w =
     (let buf = cd_encode c env in
      if MAX_ENVELOPE_BYTES_PUB < length buf then (w, Inl WireInvalidData)
      else case write_all (be_bytes 4 (of_nat (length buf) :: u32)) w of
        (w', Inl e) \<Rightarrow> (w', Inl e)
      | (w', Inr _) \<Rightarrow> write_all buf w')"

definition read_envelope :: "envelope codec \<Rightarrow> bytes \<Rightarrow> wire_error + envelope \<times> bytes" where
  "read_envelope c s =
     (case read_exact 4 s of Inl e \<Rightarrow> Inl e
      | Inr (len_bytes, s') \<Rightarrow>
          let len = unat (from_be_bytes len_bytes :: u32) in
          if MAX_ENVELOPE_BYTES_PUB < len then Inl WireInvalidData
          else (case read_exact len s' of Inl e \<Rightarrow> Inl e
            | Inr (buf, rest) \<Rightarrow> (case cd_decode c buf of None \<Rightarrow> Inl WireInvalidData | Some env \<Rightarrow> Inr (env, rest))))"

text \<open>The asynchronous variants run the same calls in the same order.\<close>

definition write_envelope_async :: "envelope codec \<Rightarrow> envelope \<Rightarrow> writer \<Rightarrow> writer \<times> (wire_error + unit)" where
  "write_envelope_async c env w =
     (let buf = cd_encode c env in
      if MAX_ENVELOPE_BYTES_PUB < length buf then (w, Inl WireInvalidData)
      else case write_all (be_bytes 4 (of_nat (length buf) :: u32)) w of
        (w', Inl e) \<Rightarrow> (w', Inl e)
      | (w', Inr _) \<Rightarrow> write_all buf w')"

definition read_envelope_async :: "envelope codec \<Rightarrow> bytes \<Rightarrow> wire_error + envelope \<times> bytes" where
  "read_envelope_async c s =
     (case read_exact 4 s of Inl e \<Rightarrow> Inl e
      | Inr (len_bytes, s') \<Rightarrow>
          let len = unat (from_be_bytes len_bytes :: u32) in
          if MAX_ENVELOPE_BYTES_PUB < len then Inl WireInvalidData
          else (case read_exact len s' of Inl e \<Rightarrow> Inl e
            | Inr (buf, rest) \<Rightarrow> (case cd_decode c buf of None \<Rightarrow> Inl WireInvalidData | Some env \<Rightarrow> Inr (env, rest))))"

section \<open>Framed streams\<close>

fun read_many :: "(bytes \<Rightarrow> 'e + 'm \<times> bytes) \<Rightarrow> nat \<Rightarrow> bytes \<Rightarrow> 'e + 'm list \<times> bytes" where
  "read_many rd 0 s = Inr ([], s)"
| "read_many rd (Suc n) s =
     (case rd s of Inl e \<Rightarrow> Inl e
      | Inr (m, s') \<Rightarrow> (case read_many rd n s' of Inl e \<Rightarrow> Inl e | Inr (ms, rest) \<Rightarrow> Inr (m # ms, rest)))"

locale framing =
  fixes frame :: "'m \<Rightarrow> bytes"
    and fits :: "'m \<Rightarrow> bool"
    and rd :: "bytes \<Rightarrow> 'e + 'm \<times> bytes"
  assumes rd_frame: "fits m \<Longrightarrow> rd (frame m @ rest) = Inr (m, rest)"
    and rd_torn: "fits m \<Longrightarrow> n < length (frame m) \<Longrightarrow> \<exists>e. rd (take n (frame m)) = Inl e"
begin

lemma stream_roundtrip:
  "list_all fits ms \<Longrightarrow> read_many rd (length ms) (concat (map frame ms) @ rest) = Inr (ms, rest)"
  by (induction ms) (simp_all add: rd_frame)

text \<open>A stream cut inside the frame of its last message gives the messages before it and
  then an error, never another message.\<close>

lemma torn_stream:
  assumes "list_all fits ms" "fits m" "n < length (frame m)"
  shows "read_many rd (length ms) (concat (map frame ms) @ take n (frame m)) = Inr (ms, take n (frame m))"
    and "\<exists>e. read_many rd (Suc (length ms)) (concat (map frame ms) @ take n (frame m)) = Inl e"
proof -
  show "read_many rd (length ms) (concat (map frame ms) @ take n (frame m)) = Inr (ms, take n (frame m))"
    using assms(1) by (rule stream_roundtrip)
  show "\<exists>e. read_many rd (Suc (length ms)) (concat (map frame ms) @ take n (frame m)) = Inl e"
    using assms(1)
  proof (induction ms)
    case Nil
    then show ?case using rd_torn [OF assms(2,3)] by auto
  next
    case (Cons x xs)
    then show ?case using rd_frame [of x] by (auto split: sum.splits)
  qed
qed

end

text \<open>The frame of a message, and the messages that fit: encoded in at most 16 MiB, and read
  back by the codec.\<close>

definition envelope_frame :: "envelope codec \<Rightarrow> envelope \<Rightarrow> bytes" where
  "envelope_frame c m = be_bytes 4 (of_nat (length (cd_encode c m)) :: u32) @ cd_encode c m"

definition envelope_fits :: "envelope codec \<Rightarrow> envelope \<Rightarrow> bool" where
  "envelope_fits c m \<longleftrightarrow> length (cd_encode c m) \<le> MAX_ENVELOPE_BYTES_PUB \<and> cd_decode c (cd_encode c m) = Some m"

lemma be_bytes_length [simp]: "length (be_bytes n w) = n"
  by (simp add: be_bytes_def)

lemma unat_frame_length: "n \<le> MAX_ENVELOPE_BYTES_PUB \<Longrightarrow> unat (of_nat n :: u32) = n"
  by (simp add: MAX_ENVELOPE_BYTES_PUB_def unat_of_nat)

lemma read_envelope_header:
  "n \<le> MAX_ENVELOPE_BYTES_PUB \<Longrightarrow> read_envelope c (be_bytes 4 (of_nat n :: u32) @ s) =
     (case read_exact n s of Inl e \<Rightarrow> Inl e
      | Inr (buf, rest) \<Rightarrow> (case cd_decode c buf of None \<Rightarrow> Inl WireInvalidData | Some env \<Rightarrow> Inr (env, rest)))"
  by (simp add: read_envelope_def read_exact_def Let_def unat_frame_length not_less)

interpretation sync_stream: framing "envelope_frame c" "envelope_fits c" "read_envelope c" for c
proof
  fix m rest
  assume "envelope_fits c m"
  then show "read_envelope c (envelope_frame c m @ rest) = Inr (m, rest)"
    by (simp add: envelope_fits_def envelope_frame_def read_envelope_header read_exact_def)
next
  fix m n
  assume fits: "envelope_fits c m" and n: "n < length (envelope_frame c m)"
  show "\<exists>e. read_envelope c (take n (envelope_frame c m)) = Inl e"
  proof (cases "n < 4")
    case True
    then show ?thesis by (simp add: read_envelope_def read_exact_def envelope_frame_def)
  next
    case False
    then have "take n (envelope_frame c m) = be_bytes 4 (of_nat (length (cd_encode c m)) :: u32) @ take (n - 4) (cd_encode c m)"
      by (simp add: envelope_frame_def)
    then show ?thesis using fits n False
      by (simp add: envelope_fits_def read_envelope_header read_exact_def) (simp add: envelope_frame_def)
  qed
qed

lemma async_same: "write_envelope_async = write_envelope" "read_envelope_async = read_envelope"
  by (simp_all add: fun_eq_iff write_envelope_async_def write_envelope_def read_envelope_async_def read_envelope_def)

interpretation async_stream: framing "envelope_frame c" "envelope_fits c" "read_envelope_async c" for c
  unfolding async_same by (rule sync_stream.framing_axioms)

fun write_many :: "envelope codec \<Rightarrow> envelope list \<Rightarrow> writer \<Rightarrow> writer \<times> (wire_error + unit)" where
  "write_many c [] w = (w, Inr ())"
| "write_many c (m # ms) w = (case write_envelope c m w of (w', Inl e) \<Rightarrow> (w', Inl e) | (w', Inr _) \<Rightarrow> write_many c ms w')"

lemma write_envelope_unbounded:
  "envelope_fits c m \<Longrightarrow> write_envelope c m \<lparr>wr_out = out, wr_room = None\<rparr> = (\<lparr>wr_out = out @ envelope_frame c m, wr_room = None\<rparr>, Inr ())"
  by (simp add: envelope_fits_def write_envelope_def write_all_def envelope_frame_def Let_def)

lemma write_many_unbounded:
  "list_all (envelope_fits c) ms \<Longrightarrow> write_many c ms \<lparr>wr_out = out, wr_room = None\<rparr>
     = (\<lparr>wr_out = out @ concat (map (envelope_frame c) ms), wr_room = None\<rparr>, Inr ())"
  by (induction ms arbitrary: out) (simp_all add: write_envelope_unbounded)

text \<open>A connection that takes only some of the bytes keeps a prefix of the frame.\<close>

lemma write_envelope_torn:
  assumes "envelope_fits c m" "n < length (envelope_frame c m)"
  shows "\<exists>e w. write_envelope c m \<lparr>wr_out = out, wr_room = Some n\<rparr> = (w, Inl e) \<and> wr_out w = out @ take n (envelope_frame c m)"
  using assms by (auto simp: envelope_fits_def write_envelope_def write_all_def envelope_frame_def Let_def)

section \<open>Properties\<close>

text \<open>C32: Messages that fit in a frame are delivered: written one after the other by the synchronous
  writer they are read back by the synchronous and by the asynchronous reader, in order and with the bytes
  after them left alone. When the connection breaks inside a message, the reader gets every message before
  it and then an error, never a different message.\<close>
theorem envelope_stream_roundtrip:
  assumes "list_all (envelope_fits c) ms" and "envelope_fits c m" and "n < length (envelope_frame c m)"
  shows "\<exists>s. write_many c ms \<lparr>wr_out = [], wr_room = None\<rparr> = (\<lparr>wr_out = s, wr_room = None\<rparr>, Inr ())
    \<and> read_many (read_envelope c) (length ms) (s @ rest) = Inr (ms, rest)
    \<and> read_many (read_envelope_async c) (length ms) (s @ rest) = Inr (ms, rest)
    \<and> (\<exists>w e e'. write_envelope c m \<lparr>wr_out = s, wr_room = Some n\<rparr> = (w, Inl e)
         \<and> read_many (read_envelope c) (length ms) (wr_out w) = Inr (ms, drop (length s) (wr_out w))
         \<and> read_many (read_envelope c) (Suc (length ms)) (wr_out w) = Inl e')"
proof -
  let ?s = "concat (map (envelope_frame c) ms)"
  obtain w e where w: "write_envelope c m \<lparr>wr_out = ?s, wr_room = Some n\<rparr> = (w, Inl e)" "wr_out w = ?s @ take n (envelope_frame c m)"
    using write_envelope_torn [OF assms(2,3)] by blast
  obtain e' where "read_many (read_envelope c) (Suc (length ms)) (wr_out w) = Inl e'"
    using sync_stream.torn_stream(2) [OF assms] unfolding w(2) by blast
  moreover have "read_many (read_envelope c) (length ms) (wr_out w) = Inr (ms, drop (length ?s) (wr_out w))"
    using sync_stream.torn_stream(1) [OF assms] unfolding w(2) by simp
  ultimately show ?thesis
    using write_many_unbounded [OF assms(1)] sync_stream.stream_roundtrip [OF assms(1)] async_stream.stream_roundtrip [OF assms(1)] w(1)
    by (metis append_Nil)
qed

text \<open>An encoding of two kinds of message, for the examples below.\<close>

definition toy_envelopes :: "envelope codec" where
  "toy_envelopes = \<lparr>cd_encode = (\<lambda>m. case m of GetJob j \<Rightarrow> 1 # le_bytes 8 j
       | SubmitAttestation b \<Rightarrow> 2 # concat (map co_bytes_inline (ab_captures b)) | _ \<Rightarrow> [0]),
     cd_decode = (\<lambda>bs. case bs of [] \<Rightarrow> None | t # s \<Rightarrow> if t = 1 then Some (GetJob (from_le_bytes s)) else Some GetLogRoot)\<rparr>"

lemma toy_envelopes_fit: "envelope_fits toy_envelopes (GetJob j)" "envelope_fits toy_envelopes GetLogRoot"
  by (simp_all add: envelope_fits_def toy_envelopes_def MAX_ENVELOPE_BYTES_PUB_def)

theorem envelope_stream_roundtrip_witness:
  "let ms = [GetJob 5, GetLogRoot] in
   \<exists>s. write_many toy_envelopes ms \<lparr>wr_out = [], wr_room = None\<rparr> = (\<lparr>wr_out = s, wr_room = None\<rparr>, Inr ())
     \<and> read_many (read_envelope toy_envelopes) (length ms) (s @ [9]) = Inr (ms, [9])"
  using envelope_stream_roundtrip [of toy_envelopes "[GetJob 5, GetLogRoot]" GetLogRoot 0 "[9]"] toy_envelopes_fit
  by (auto simp: Let_def envelope_frame_def)

text \<open>What CBOR promises of a bundle: every captured byte is in the encoding, and a header
  besides.\<close>

definition payload_in_full :: "envelope codec \<Rightarrow> bool" where
  "payload_in_full c \<longleftrightarrow>
     (\<forall>b. (\<Sum>x\<leftarrow>ab_captures b. length (co_bytes_inline x)) < length (cd_encode c (SubmitAttestation b)))"

text \<open>A log that fills its capture cannot be sent: when a native step wrote 16 MiB or more to its
  standard output and a \<open>CaptureLog\<close> step follows, the bundle with the two captures is over the limit of
  an envelope, the write fails before any byte is sent, and the signed attestation inside is lost with it.\<close>
theorem full_capture_unsendable:
  assumes "payload_in_full c" and "length (nc_stdout_bytes nc) = MAX_CAPTURE_BYTES"
  shows "write_envelope c (SubmitAttestation \<lparr>ab_attestation = a, ab_captures = capture_pair i name nc\<rparr>) w = (w, Inl WireInvalidData)"
proof -
  let ?b = "\<lparr>ab_attestation = a, ab_captures = capture_pair i name nc\<rparr>"
  have "MAX_ENVELOPE_BYTES_PUB \<le> (\<Sum>x\<leftarrow>ab_captures ?b. length (co_bytes_inline x))"
    using assms(2) by (simp add: capture_pair_def MAX_CAPTURE_BYTES_def MAX_ENVELOPE_BYTES_PUB_def)
  also have "\<dots> < length (cd_encode c (SubmitAttestation ?b))"
    using assms(1) by (simp only: payload_in_full_def)
  finally show ?thesis by (simp add: write_envelope_def Let_def)
qed

theorem full_capture_unsendable_witness:
  "let nc = \<lparr>nc_stdout_bytes = replicate MAX_CAPTURE_BYTES 0, nc_stdout_sha256 = [], nc_stderr_bytes = [], nc_stderr_sha256 = []\<rparr> in
   \<exists>a. write_envelope toy_envelopes (SubmitAttestation \<lparr>ab_attestation = a, ab_captures = capture_pair 1 [] nc\<rparr>) \<lparr>wr_out = [], wr_room = None\<rparr>
     = (\<lparr>wr_out = [], wr_room = None\<rparr>, Inl WireInvalidData)"
proof -
  have "payload_in_full toy_envelopes"
    by (simp add: payload_in_full_def toy_envelopes_def length_concat comp_def)
  from full_capture_unsendable [OF this] show ?thesis by (simp add: Let_def)
qed

end
