(* ===== verification/Read_Api.thy ===== *)
theory Read_Api
  imports Protocol
begin

text \<open>
  The coordinator's log backend, its capture store and the read server
  (\<open>cosaci-coordinator/src/main.rs\<close>). A backend is the log in memory or the log on
  disk; an append may meet a file fault, which only the second can report. The capture
  directory maps paths to the bytes of files.
\<close>

section \<open>Log backend\<close>

datatype log_backend = LogMem "mem_store merkle_log" | LogFile "file_store merkle_log"

fun lb_append :: "fault \<Rightarrow> hash \<Rightarrow> log_backend \<Rightarrow> log_backend \<times> (file_error + u64)" where
  "lb_append flt e (LogMem l) = (case log_append e l of (l', pos) \<Rightarrow> (LogMem l', Inr pos))"
| "lb_append flt e (LogFile l) = (case flog_append flt e l of (l', r) \<Rightarrow> (LogFile l', r))"

fun lb_root :: "merkle_lib \<Rightarrow> log_backend \<Rightarrow> hash option" where
  "lb_root ml (LogMem l) = log_root ml l"
| "lb_root ml (LogFile l) = log_root ml l"

fun lb_len :: "log_backend \<Rightarrow> u64" where
  "lb_len (LogMem l) = log_len l"
| "lb_len (LogFile l) = log_len l"

fun lb_build_bundle :: "merkle_lib \<Rightarrow> (u64, job_record) hmap \<Rightarrow> log_backend \<Rightarrow> u64 \<Rightarrow> job_bundle option" where
  "lb_build_bundle ml records (LogMem l) job_id = build_bundle ml records l job_id"
| "lb_build_bundle ml records (LogFile l) job_id = build_bundle ml records l job_id"

section \<open>Captures on disk\<close>

type_synonym capture_files = "(bytes, bytes) hmap"

definition captures_path :: "bytes \<Rightarrow> u64 \<Rightarrow> u64 \<Rightarrow> bytes" where
  "captures_path root job_id runner_id =
     path_join (path_join root (show_u64 job_id)) (show_u64 runner_id @ ascii ''.cbor'')"

text \<open>The directory can be made and the file written, or not.\<close>

definition persist_captures ::
  "captured_output list codec \<Rightarrow> bool \<Rightarrow> bytes \<Rightarrow> u64 \<Rightarrow> u64 \<Rightarrow> captured_output list \<Rightarrow> capture_files \<Rightarrow> capture_files \<times> bool" where
  "persist_captures c writable root job_id runner_id captures files =
     (if writable then (hm_insert (captures_path root job_id runner_id) (cd_encode c captures) files, True) else (files, False))"

definition load_captures ::
  "captured_output list codec \<Rightarrow> bytes \<Rightarrow> u64 \<Rightarrow> u64 \<Rightarrow> capture_files \<Rightarrow> captured_output list option" where
  "load_captures c root job_id runner_id files =
     Option.bind (hm_get files (captures_path root job_id runner_id)) (cd_decode c)"

section \<open>Read requests\<close>

definition read_response ::
  "merkle_lib \<Rightarrow> captured_output list codec \<Rightarrow> (u64, job_record) hmap \<Rightarrow> log_backend \<Rightarrow> bytes \<Rightarrow> capture_files \<Rightarrow> envelope \<Rightarrow> envelope option" where
  "read_response ml cc records lg captures_dir files req =
     (case req of
        GetJob job_id \<Rightarrow> (case lb_build_bundle ml records lg job_id of
            Some b \<Rightarrow> Some (JobBundleResponse b) | None \<Rightarrow> Some (JobNotFound job_id))
      | GetLogRoot \<Rightarrow> Some (LogRoot (lb_root ml lg) (lb_len lg))
      | GetCaptures job_id runner_id \<Rightarrow>
          if captures_dir = [] then Some (CapturesNotFound job_id runner_id)
          else (case load_captures cc captures_dir job_id runner_id files of
            Some captures \<Rightarrow> Some (CapturesResponse job_id runner_id captures)
          | None \<Rightarrow> Some (CapturesNotFound job_id runner_id))
      | _ \<Rightarrow> None)"

text \<open>One connection: the bytes the client sent, and the writer to it.\<close>

definition handle_read_client ::
  "envelope codec \<Rightarrow> merkle_lib \<Rightarrow> captured_output list codec \<Rightarrow> (u64, job_record) hmap \<Rightarrow> log_backend \<Rightarrow> bytes \<Rightarrow> capture_files \<Rightarrow>
   bytes \<Rightarrow> writer \<Rightarrow> writer" where
  "handle_read_client c ml cc records lg captures_dir files input w =
     (case read_envelope c input of
        Inl e \<Rightarrow> w
      | Inr (req, _) \<Rightarrow> (case read_response ml cc records lg captures_dir files req of
          None \<Rightarrow> w | Some resp \<Rightarrow> fst (write_envelope c resp w)))"

section \<open>Lemmas\<close>

fun lb_entries :: "log_backend \<Rightarrow> hash list" where
  "lb_entries (LogMem l) = log_entries l"
| "lb_entries (LogFile l) = log_entries l"

text \<open>Both backends are one append-only sequence of entries to their users.\<close>

definition plain_log :: "hash list \<Rightarrow> mem_store merkle_log" where
  "plain_log es = \<lparr>log_entries = es, log_store = \<lparr>ms_entries = es\<rparr>\<rparr>"

lemma build_bundle_entries:
  "log_entries l = log_entries l' \<Longrightarrow> build_bundle ml records l j = build_bundle ml records l' j"
  for l :: "('s, 'x) merkle_log_scheme" and l' :: "('t, 'y) merkle_log_scheme"
proof -
  assume "log_entries l = log_entries l'"
  then have same: "log_inclusion_proof_at ml l = log_inclusion_proof_at ml l'" "log_root_at ml l = log_root_at ml l'"
    by (simp_all add: fun_eq_iff log_inclusion_proof_at_def log_root_at_def log_len_def)
  show "build_bundle ml records l j = build_bundle ml records l' j" unfolding build_bundle_def same by (rule refl)
qed

lemma lb_plain:
  "lb_root ml lg = log_root ml (plain_log (lb_entries lg))" "lb_len lg = log_len (plain_log (lb_entries lg))"
  "lb_build_bundle ml records lg j = build_bundle ml records (plain_log (lb_entries lg)) j"
proof -
  show "lb_root ml lg = log_root ml (plain_log (lb_entries lg))" by (cases lg) (simp_all add: plain_log_def log_root_def)
  show "lb_len lg = log_len (plain_log (lb_entries lg))" by (cases lg) (simp_all add: plain_log_def log_len_def)
  show "lb_build_bundle ml records lg j = build_bundle ml records (plain_log (lb_entries lg)) j"
    by (cases lg) (auto intro: build_bundle_entries simp: plain_log_def)
qed

text \<open>A failed append leaves the entries as they were.\<close>

lemma lb_append_entries:
  "lb_entries (fst (lb_append flt e lg)) = lb_entries lg @ (case snd (lb_append flt e lg) of Inl _ \<Rightarrow> [] | Inr _ \<Rightarrow> [e])"
  by (cases lg; cases flt)
    (simp_all add: log_append_def ms_append_def flog_append_def fs_append_def)

text \<open>Two jobs, or two runners of a job, never share a file.\<close>

lemma show_u64_inj: "show_u64 a = show_u64 b \<Longrightarrow> a = b"
  by (metis option.inject parse_show_u64)

lemma show_u64_chars: "47 \<notin> set (show_u64 n)" "46 \<notin> set (show_u64 n)" "show_u64 n \<noteq> []"
  using dec_digits_range [of 47 "unat n"] dec_digits_range [of 46 "unat n"] by (auto simp: show_u64_def)

lemma append_sep_inj:
  "c \<notin> set xs \<Longrightarrow> c \<notin> set ys \<Longrightarrow> xs @ c # us = ys @ c # vs \<longleftrightarrow> xs = ys \<and> us = vs"
proof (induction xs arbitrary: ys)
  case Nil
  then show ?case by (cases ys) auto
next
  case (Cons a xs)
  then show ?case by (cases ys) auto
qed

lemma captures_path_eq:
  "captures_path root j r = (if root = [] \<or> last root = 47 then root else root @ [47]) @ show_u64 j @ 47 # show_u64 r @ ascii ''.cbor''"
proof -
  have h: "hd (show_u64 n) \<noteq> 47" "last (show_u64 n) \<noteq> 47" for n
    using show_u64_chars [of n] by (metis hd_in_set, metis last_in_set)
  show ?thesis using h show_u64_chars(3)
    by (auto simp: captures_path_def path_join_def hd_append last_append)
qed

lemma captures_path_inj: "captures_path root j r = captures_path root j' r' \<Longrightarrow> j = j' \<and> r = r'"
proof -
  assume "captures_path root j r = captures_path root j' r'"
  then have "show_u64 j @ 47 # show_u64 r @ ascii ''.cbor'' = show_u64 j' @ 47 # show_u64 r' @ ascii ''.cbor''"
    unfolding captures_path_eq by (simp split: if_splits)
  then show ?thesis using show_u64_chars by (auto simp: append_sep_inj dest: show_u64_inj)
qed

section \<open>Properties\<close>

text \<open>An auditor reads back exactly what the coordinator stored: after the captures of a runner for a
  job were persisted, a request for that job and runner answers with those captures, and the answer to
  every other job and runner is unchanged.\<close>
theorem captures_served_exactly:
  assumes "codec_ok ok cc" and "ok captures" and "dir \<noteq> []"
    and "persist_captures cc True dir j r captures files = (files', True)"
  shows "read_response ml cc records lg dir files' (GetCaptures j r) = Some (CapturesResponse j r captures)
    \<and> ((j', r') \<noteq> (j, r) \<longrightarrow>
      read_response ml cc records lg dir files' (GetCaptures j' r') = read_response ml cc records lg dir files (GetCaptures j' r'))"
proof -
  have files: "files' = hm_insert (captures_path dir j r) (cd_encode cc captures) files"
    using assms(4) by (simp add: persist_captures_def)
  have "load_captures cc dir j r files' = Some captures"
    using assms(1,2) by (simp add: load_captures_def files hm_simps codec_ok_def)
  moreover have "load_captures cc dir j' r' files' = load_captures cc dir j' r' files" if "(j', r') \<noteq> (j, r)"
    using that captures_path_inj [of dir j' r' j r] by (auto simp: load_captures_def files hm_simps)
  ultimately show ?thesis using assms(3) by (auto simp: read_response_def)
qed

definition toy_captures :: "captured_output list codec" where
  "toy_captures = \<lparr>cd_encode = (\<lambda>cs. [of_nat (length cs)]), cd_decode = (\<lambda>bs. if bs = [0] then Some [] else None)\<rparr>"

theorem captures_served_exactly_witness:
  "let files = fst (persist_captures toy_captures True [47] 7 3 [] []) in
   read_response toy_merkle toy_captures [] (LogMem log_new) [47] files (GetCaptures 7 3) = Some (CapturesResponse 7 3 [])
   \<and> read_response toy_merkle toy_captures [] (LogMem log_new) [47] files (GetCaptures 73 3) = Some (CapturesNotFound 73 3)"
proof -
  have ok: "codec_ok (\<lambda>cs. cs = []) toy_captures" by (simp add: codec_ok_def toy_captures_def)
  have p: "persist_captures toy_captures True [47] 7 3 [] [] = (fst (persist_captures toy_captures True [47] 7 3 [] []), True)"
    by (simp add: persist_captures_def)
  have "read_response toy_merkle toy_captures [] (LogMem log_new) [47] [] (GetCaptures 73 3) = Some (CapturesNotFound 73 3)"
    by (simp add: read_response_def load_captures_def)
  then show ?thesis
    using captures_served_exactly [OF ok _ _ p, of toy_merkle "[]" "LogMem log_new" 73 3] by (simp add: Let_def)
qed

end
