(* ===== verification/Admin_Auth.thy ===== *)
theory Admin_Auth
  imports Tenant
begin

text \<open>
  The administrator allowlist and the check of an administrator's hello
  (\<open>cosaci-state/src/admin_auth.rs\<close>). The set is keyed by the fingerprint of the
  signing key; the clock is the argument \<open>now\<close>.
\<close>

section \<open>The allowlist\<close>

record admin_record =
  ad_admin_id :: u64
  ad_signing_fp :: bytes
  ad_enrolled_at_unix_ns :: u64

type_synonym admin_key_set = "(bytes, admin_record) hmap"

definition admin_new :: admin_key_set where
  "admin_new = []"

definition admin_len :: "admin_key_set \<Rightarrow> nat" where
  "admin_len s = length s"

definition admin_is_empty :: "admin_key_set \<Rightarrow> bool" where
  "admin_is_empty s = (s = [])"

definition admin_get :: "admin_key_set \<Rightarrow> bytes \<Rightarrow> admin_record option" where
  "admin_get s fp = hm_get s fp"

definition admin_insert :: "admin_record \<Rightarrow> admin_key_set \<Rightarrow> io_error + admin_key_set" where
  "admin_insert r s = (if hm_contains s (ad_signing_fp r) then Inl AlreadyExists else Inr (hm_insert (ad_signing_fp r) r s))"

definition admin_iter :: "admin_key_set \<Rightarrow> admin_record list" where
  "admin_iter s = sort_key ad_admin_id (map snd s)"

definition admin_hex_nibble :: "u8 \<Rightarrow> u8 option" where
  "admin_hex_nibble b =
     (if 48 \<le> b \<and> b \<le> 57 then Some (b - 48)
      else if 97 \<le> b \<and> b \<le> 102 then Some (b - 97 + 10) else None)"

definition admin_parse_hex32 :: "bytes \<Rightarrow> bytes option" where
  "admin_parse_hex32 s = (if length s \<noteq> 64 then None else hex_pairs admin_hex_nibble s)"

definition admin_parse_fields :: "nat \<Rightarrow> bytes list \<Rightarrow> io_error + (bytes \<times> bytes \<times> bytes)" where
  "admin_parse_fields lineno fs =
     (case fs of
        [] \<Rightarrow> Inl (InvalidData lineno ''missing field: admin_id'')
      | [_] \<Rightarrow> Inl (InvalidData lineno ''missing field: signing_fp_hex'')
      | [_, _] \<Rightarrow> Inl (InvalidData lineno ''missing field: enrolled_at_unix_ns'')
      | [a, b, c] \<Rightarrow> Inr (a, b, c)
      | _ \<Rightarrow> Inl (InvalidData lineno ''trailing fields after enrolled_at_unix_ns''))"

definition admin_parse_line :: "nat \<Rightarrow> bytes \<Rightarrow> io_error + admin_record" where
  "admin_parse_line lineno line =
     (case admin_parse_fields lineno (split_fields is_ascii_space [] line) of
        Inl e \<Rightarrow> Inl e
      | Inr (id_s, fp_s, at_s) \<Rightarrow>
          (case parse_u64 id_s of None \<Rightarrow> Inl (InvalidData lineno ''admin_id not a u64'')
           | Some i \<Rightarrow> (case admin_parse_hex32 fp_s of
               None \<Rightarrow> Inl (InvalidData lineno ''signing_fp_hex not 64 lowercase-hex chars'')
             | Some fp \<Rightarrow> (case parse_u64 at_s of None \<Rightarrow> Inl (InvalidData lineno ''enrolled_at_unix_ns not a u64'')
               | Some t \<Rightarrow> Inr \<lparr>ad_admin_id = i, ad_signing_fp = fp, ad_enrolled_at_unix_ns = t\<rparr>))))"

definition admin_load :: "bytes option \<Rightarrow> io_error + admin_key_set" where
  "admin_load content =
     (case content of None \<Rightarrow> Inl NotFound
      | Some body \<Rightarrow> load_records admin_parse_line admin_insert (data_lines body) admin_new)"

definition admin_fingerprint :: "crypto \<Rightarrow> bytes \<Rightarrow> bytes" where
  "admin_fingerprint cr pubkey = cr_sha256 cr pubkey"

definition admin_fingerprint_hex :: "bytes \<Rightarrow> bytes" where
  "admin_fingerprint_hex fp = hex_encode fp"

section \<open>The hello\<close>

datatype admin_auth_check = AdminOk u64 | AdminUnauthorized

definition verify_admin_hello ::
  "crypto \<Rightarrow> admin_key_set \<Rightarrow> bytes \<Rightarrow> u64 \<Rightarrow> bytes \<Rightarrow> bytes \<Rightarrow> u64 \<Rightarrow> u64 \<Rightarrow> admin_auth_check" where
  "verify_admin_hello cr s pubkey ts signature challenge freshness_ns now =
     (if freshness_ns < abs_diff now ts then AdminUnauthorized
      else case admin_get s (cr_sha256 cr pubkey) of None \<Rightarrow> AdminUnauthorized
      | Some r \<Rightarrow>
          if \<not> cr_key_valid cr pubkey then AdminUnauthorized
          else if \<not> verify cr pubkey (challenge @ le_bytes 8 ts) signature then AdminUnauthorized
          else AdminOk (ad_admin_id r))"

section \<open>Lemmas\<close>

lemma admin_hex_nibble_eq: "admin_hex_nibble = tenant_hex_nibble"
  by (simp add: fun_eq_iff admin_hex_nibble_def tenant_hex_nibble_def)

interpretation admin_hex: strict_hex_reader admin_hex_nibble
  unfolding admin_hex_nibble_eq by (rule tenant_hex.strict_hex_reader_axioms)

lemma admin_parse_hex32_iff: "admin_parse_hex32 s = Some fp \<longleftrightarrow> length fp = 32 \<and> s = admin_fingerprint_hex fp"
proof
  assume "admin_parse_hex32 s = Some fp"
  then have s: "length s = 64" "hex_pairs admin_hex_nibble s = Some fp"
    by (simp_all add: admin_parse_hex32_def split: if_splits)
  then show "length fp = 32 \<and> s = admin_fingerprint_hex fp"
    using admin_hex.encode_decode [of s fp] hex_encode_length [of fp] by (auto simp: admin_fingerprint_hex_def)
qed (simp add: admin_parse_hex32_def admin_fingerprint_hex_def admin_hex.decode_encode)

lemma admin_insert_iff: "admin_insert r m = Inr m' \<longleftrightarrow> hm_get m (ad_signing_fp r) = None \<and> m' = hm_insert (ad_signing_fp r) r m"
  by (auto simp: admin_insert_def hm_contains_def)

lemma admin_parse_line_iff:
  "admin_parse_line n l = Inr r \<longleftrightarrow> (\<exists>a b c. split_fields is_ascii_space [] l = [a, b, c] \<and> parse_u64 a = Some (ad_admin_id r) \<and>
     admin_parse_hex32 b = Some (ad_signing_fp r) \<and> parse_u64 c = Some (ad_enrolled_at_unix_ns r))"
  by (auto simp: admin_parse_line_def admin_parse_fields_def split: list.splits option.splits)

lemma admin_load_fresh:
  "load_records admin_parse_line admin_insert ls m = Inr s \<Longrightarrow> (n, l) \<in> set ls \<Longrightarrow> admin_parse_line n l = Inr r \<Longrightarrow>
   hm_get m (ad_signing_fp r) = None"
proof (induction ls arbitrary: m)
  case (Cons e ls)
  obtain k x where e: "e = (k, x)" by fastforce
  obtain q where q: "admin_parse_line k x = Inr q" and free: "hm_get m (ad_signing_fp q) = None"
    and rest: "load_records admin_parse_line admin_insert ls (hm_insert (ad_signing_fp q) q m) = Inr s"
    using Cons.prems by (auto simp: e admin_insert_iff split: sum.splits)
  show ?case using Cons.IH [OF rest _ Cons.prems(3)] Cons.prems(2,3) q free by (auto simp: e hm_simps split: if_splits)
qed simp

lemma admin_load_records:
  assumes "load_records admin_parse_line admin_insert ls m = Inr s"
  shows "hm_get s fp = Some r \<longleftrightarrow> hm_get m fp = Some r \<or>
    (hm_get m fp = None \<and> (\<exists>n l. (n, l) \<in> set ls \<and> admin_parse_line n l = Inr r \<and> ad_signing_fp r = fp))"
  using assms
proof (induction ls arbitrary: m)
  case (Cons e ls)
  obtain n l where e: "e = (n, l)" by fastforce
  obtain q where q: "admin_parse_line n l = Inr q" and free: "hm_get m (ad_signing_fp q) = None"
    and rest: "load_records admin_parse_line admin_insert ls (hm_insert (ad_signing_fp q) q m) = Inr s"
    using Cons.prems by (auto simp: e admin_insert_iff split: sum.splits)
  show ?case
  proof (cases "fp = ad_signing_fp q")
    case True
    have "r = q" if "(k, x) \<in> set (e # ls)" "admin_parse_line k x = Inr r" "ad_signing_fp r = fp" for k x
    proof (cases "(k, x) \<in> set ls")
      case False
      with that q show ?thesis by (simp add: e)
    next
      case mem: True
      show ?thesis using admin_load_fresh [OF rest mem that(2)] that(3) True by (simp add: hm_simps)
    qed
    moreover have "hm_get s fp = Some r \<longleftrightarrow> q = r" using Cons.IH [OF rest] True by (simp add: hm_simps)
    ultimately show ?thesis using q free True e by auto
  next
    case False
    then have "hm_get s fp = Some r \<longleftrightarrow> hm_get m fp = Some r \<or>
        (hm_get m fp = None \<and> (\<exists>n l. (n, l) \<in> set ls \<and> admin_parse_line n l = Inr r \<and> ad_signing_fp r = fp))"
      using Cons.IH [OF rest] by (simp add: hm_simps)
    moreover have "(\<exists>k x. (k, x) \<in> set (e # ls) \<and> admin_parse_line k x = Inr r \<and> ad_signing_fp r = fp) \<longleftrightarrow>
        (\<exists>k x. (k, x) \<in> set ls \<and> admin_parse_line k x = Inr r \<and> ad_signing_fp r = fp)"
      using q False by (auto simp: e)
    ultimately show ?thesis by simp
  qed
qed auto

text \<open>What the loaded set holds: the records of the lines, each fingerprint once.\<close>

lemma admin_load_get:
  assumes "admin_load (Some body) = Inr s"
  shows "admin_get s fp = Some r \<longleftrightarrow> (\<exists>n l. (n, l) \<in> set (data_lines body) \<and> admin_parse_line n l = Inr r \<and> ad_signing_fp r = fp)"
  using admin_load_records [of "data_lines body" "[]" s fp r] assms by (simp add: admin_load_def admin_new_def admin_get_def)

lemma verify_admin_hello_iff:
  "verify_admin_hello cr s pubkey ts signature challenge freshness_ns now = AdminOk i \<longleftrightarrow>
     abs_diff now ts \<le> freshness_ns \<and> (\<exists>r. admin_get s (cr_sha256 cr pubkey) = Some r \<and> ad_admin_id r = i) \<and>
     cr_key_valid cr pubkey \<and> verify cr pubkey (challenge @ le_bytes 8 ts) signature"
  by (auto simp: verify_admin_hello_def not_less split: option.split)

section \<open>Properties\<close>

text \<open>C35: An administrator is let in exactly when all hold: the timestamp is within the freshness window
  of the clock, on either side; a line of the allowlist file carries the lower-case fingerprint of the
  presented key; the key is valid; and the signature over the challenge and the timestamp verifies. The
  session then runs under the id of that line.\<close>
theorem admin_hello_exact:
  assumes "crypto_ok cr" and "admin_load (Some body) = Inr s"
  shows "verify_admin_hello cr s pubkey ts signature challenge freshness_ns now = AdminOk i \<longleftrightarrow>
     unat (abs_diff now ts) \<le> unat freshness_ns \<and>
     (\<exists>n l a at_s. (n, l) \<in> set (data_lines body) \<and>
        split_fields is_ascii_space [] l = [a, admin_fingerprint_hex (admin_fingerprint cr pubkey), at_s] \<and>
        parse_u64 a = Some i \<and> parse_u64 at_s \<noteq> None) \<and>
     cr_key_valid cr pubkey \<and> verify cr pubkey (challenge @ le_bytes 8 ts) signature"
proof -
  let ?fp = "cr_sha256 cr pubkey"
  have len: "length ?fp = 32" using assms(1) by simp
  have line: "(\<exists>r. admin_parse_line n l = Inr r \<and> ad_signing_fp r = ?fp \<and> ad_admin_id r = i) \<longleftrightarrow>
      (\<exists>a at_s. split_fields is_ascii_space [] l = [a, admin_fingerprint_hex ?fp, at_s] \<and> parse_u64 a = Some i \<and> parse_u64 at_s \<noteq> None)" for n l
  proof -
    have "(\<exists>r. admin_parse_line n l = Inr r \<and> ad_signing_fp r = ?fp \<and> ad_admin_id r = i) \<longleftrightarrow>
        (\<exists>a b c t. split_fields is_ascii_space [] l = [a, b, c] \<and> parse_u64 a = Some i \<and> admin_parse_hex32 b = Some ?fp \<and> parse_u64 c = Some t)"
      unfolding admin_parse_line_iff by (metis admin_record.select_convs)
    then show ?thesis using len by (auto simp: admin_parse_hex32_iff)
  qed
  have "(\<exists>r. admin_get s ?fp = Some r \<and> ad_admin_id r = i) \<longleftrightarrow>
      (\<exists>n l. (n, l) \<in> set (data_lines body) \<and> (\<exists>r. admin_parse_line n l = Inr r \<and> ad_signing_fp r = ?fp \<and> ad_admin_id r = i))"
    using admin_load_get [OF assms(2)] by blast
  then show ?thesis unfolding verify_admin_hello_iff line by (auto simp: word_le_nat_alt admin_fingerprint_def)
qed

definition admin_line :: "u64 \<Rightarrow> bytes \<Rightarrow> u64 \<Rightarrow> bytes" where
  "admin_line i fp t = show_u64 i @ [32] @ admin_fingerprint_hex fp @ [32] @ show_u64 t"

lemma admin_load_single:
  assumes fp: "length fp = 32"
  shows "\<exists>s n. admin_load (Some (admin_line i fp t @ [10])) = Inr s \<and> data_lines (admin_line i fp t @ [10]) = [(n, admin_line i fp t)]
    \<and> split_fields is_ascii_space [] (admin_line i fp t) = [show_u64 i, admin_fingerprint_hex fp, show_u64 t]"
proof -
  let ?line = "admin_line i fp t"
  have w: "word_bytes (admin_fingerprint_hex fp)" using fp by (auto simp: admin_fingerprint_hex_def intro: word_hex_encode)
  have fields: "split_fields is_ascii_space [] ?line = [show_u64 i, admin_fingerprint_hex fp, show_u64 t]"
    using w by (simp add: admin_line_def split_fields_word)
  have "set ([32] @ admin_fingerprint_hex fp @ [32]) \<inter> {10, 13} = {}" using word_bytes_mid [OF w] by auto
  from line_of_words [OF word_show_u64 [of i] word_show_u64 [of t] this]
  have trim: "trim ?line = ?line" "10 \<notin> set ?line" by (simp_all add: admin_line_def)
  have "hd (show_u64 i) \<noteq> 35" "show_u64 i \<noteq> []"
    using dec_digits_range [of "hd (show_u64 i)" "unat i"] by (auto simp: show_u64_def)
  then have data: "is_data (trim ?line)" unfolding trim by (simp add: is_data_def admin_line_def hd_append)
  have "map snd (data_lines (?line @ [10])) = [?line]"
    using data_lines_append [OF trim(2) data, of "[]"] trim by (simp add: append_line_def data_lines_def)
  then obtain n where dl: "data_lines (?line @ [10]) = [(n, ?line)]" by (cases "data_lines (?line @ [10])") auto
  have "admin_parse_line n ?line = Inr \<lparr>ad_admin_id = i, ad_signing_fp = fp, ad_enrolled_at_unix_ns = t\<rparr>"
    unfolding admin_parse_line_iff fields using fp by (simp add: admin_parse_hex32_iff)
  then have "\<exists>s. admin_load (Some (?line @ [10])) = Inr s"
    unfolding admin_load_def option.case dl by (auto simp: admin_insert_def admin_new_def hm_contains_def)
  with dl fields show ?thesis by blast
qed

theorem admin_hello_exact_witness:
  "let fp = replicate 32 5 in
   \<exists>s. admin_load (Some (admin_line 4 fp 9 @ [10])) = Inr s \<and>
     verify_admin_hello toy_crypto s fp 100 (fp @ [1] @ le_bytes 8 (100 :: u64)) [1] 10 105 = AdminOk 4"
proof -
  have "\<exists>s. admin_load (Some (admin_line 4 fp 9 @ [10])) = Inr s \<and>
      verify_admin_hello toy_crypto s fp 100 (fp @ [1] @ le_bytes 8 (100 :: u64)) [1] 10 105 = AdminOk 4"
    if fp: "length fp = 32" for fp
  proof -
    obtain s n where s: "admin_load (Some (admin_line 4 fp 9 @ [10])) = Inr s" and dl: "data_lines (admin_line 4 fp 9 @ [10]) = [(n, admin_line 4 fp 9)]"
      and fields: "split_fields is_ascii_space [] (admin_line 4 fp 9) = [show_u64 4, admin_fingerprint_hex fp, show_u64 9]"
      using admin_load_single [OF fp] by blast
    have "admin_fingerprint toy_crypto fp = fp" using fp by (simp add: admin_fingerprint_def toy_crypto_def)
    moreover have "verify toy_crypto fp ([1] @ le_bytes 8 (100 :: u64)) (fp @ [1] @ le_bytes 8 (100 :: u64))" "cr_key_valid toy_crypto fp"
      by (simp_all add: verify_def toy_crypto_def)
    moreover have "unat (abs_diff 105 (100 :: u64)) \<le> unat (10 :: u64)" by (simp add: abs_diff_def)
    ultimately have "verify_admin_hello toy_crypto s fp 100 (fp @ [1] @ le_bytes 8 (100 :: u64)) [1] 10 105 = AdminOk 4"
      unfolding admin_hello_exact [OF toy_crypto_ok s] dl using fields by auto
    with s show ?thesis by blast
  qed
  from this [of "replicate 32 5"] show ?thesis by (simp only: Let_def length_replicate)
qed

end
