(* ===== verification/Admin_Api.thy ===== *)
theory Admin_Api
  imports Read_Api Admin_Auth Enrollment
begin

text \<open>
  The administrator's side of the coordinator (\<open>cosaci-coordinator/src/main.rs\<close>): one
  connection is a hello and one request. The state is the content of the two files the
  handler edits (\<open>None\<close>: no such file) and the tenant registry that the submission gate
  uses. A file is replaced through a temporary file, so a write gives the whole new
  content or leaves the old one; the flag \<open>wok\<close> says which. The reason of an error
  reply is modelled without the text of the underlying load or I/O error.
\<close>

section \<open>Replacing a file\<close>

definition write_atomic :: "bool \<Rightarrow> bytes \<Rightarrow> bytes option \<Rightarrow> bytes option \<times> bool" where
  "write_atomic wok content file = (if wok then (Some content, True) else (file, False))"

definition append_atomic :: "bool \<Rightarrow> bytes \<Rightarrow> bytes option \<Rightarrow> bytes option \<times> bool" where
  "append_atomic wok line file =
     (let existing = (case file of None \<Rightarrow> [] | Some b \<Rightarrow> b) in write_atomic wok (append_line line existing) file)"

section \<open>Agents\<close>

definition admin_error :: "string \<Rightarrow> envelope" where
  "admin_error reason = AdminError (ascii reason)"

definition admin_enroll_agent ::
  "bool \<Rightarrow> bytes option \<Rightarrow> u64 \<Rightarrow> bytes \<Rightarrow> bytes \<Rightarrow> int \<Rightarrow> u32 \<Rightarrow> bytes option \<times> envelope" where
  "admin_enroll_agent wok file runner_id signing_fp vrf_fp at_ns thousandths =
     (case enroll_load file of
        Inl e \<Rightarrow> (file, admin_error ''load enrollment: '')
      | Inr existing \<Rightarrow>
          if enroll_get existing runner_id \<noteq> None then (file, AdminError (ascii ''runner_id '' @ show_u64 runner_id @ ascii '' already enrolled''))
          else (case append_atomic wok (enrollment_line runner_id signing_fp vrf_fp at_ns (min (unat thousandths) 1000)) file of
              (file', False) \<Rightarrow> (file', admin_error ''write enrollment: '')
            | (file', True) \<Rightarrow> (file', AdminEnrollAck)))"

definition admin_revoke_agent :: "bool \<Rightarrow> bytes option \<Rightarrow> u64 \<Rightarrow> bytes option \<times> envelope" where
  "admin_revoke_agent wok file runner_id =
     (case file of None \<Rightarrow> (file, admin_error ''read enrollment: '')
      | Some original \<Rightarrow> (case remove_lines runner_id original of (out, found) \<Rightarrow>
          if \<not> found then (file, AdminError (ascii ''runner_id '' @ show_u64 runner_id @ ascii '' not enrolled''))
          else (case write_atomic wok out file of
              (file', False) \<Rightarrow> (file', admin_error ''write enrollment: '')
            | (file', True) \<Rightarrow> (file', AdminRevokeAck))))"

text \<open>The reputation is recomputed in single precision from the stored thousandths.\<close>

definition agent_thousandths :: "enrolled_record \<Rightarrow> u32" where
  "agent_thousandths r = of_int (max 0 (min 1000 (round_half_up (fl 24 (en_initial_reputation r * 1000)))))"

definition agent_entry :: "enrolled_record \<Rightarrow> admin_agent_record" where
  "agent_entry r = \<lparr>aar_runner_id = en_runner_id r, aar_signing_fp = en_signing_fp r, aar_vrf_fp = en_vrf_fp r,
     aar_enrolled_at_unix_ns = en_enrolled_at_unix_ns r, aar_initial_reputation_thousandths = agent_thousandths r\<rparr>"

definition admin_list_agents :: "bytes option \<Rightarrow> envelope" where
  "admin_list_agents file =
     (case enroll_load file of Inl e \<Rightarrow> admin_error ''enrollment file: ''
      | Inr s \<Rightarrow> AdminAgentList (sort_key aar_runner_id (map agent_entry (enroll_iter s))))"

section \<open>Tenants\<close>

record admin_state =
  as_enrollment :: "bytes option"
  as_tenants_configured :: bool
  as_tenants :: "bytes option"
  as_registry :: "tenant_registry option"

definition admin_list_tenants :: "admin_state \<Rightarrow> envelope" where
  "admin_list_tenants st =
     (if \<not> as_tenants_configured st then admin_error ''tenants registry not configured (--tenants is empty)''
      else case tenant_load (as_tenants st) of
        Inl e \<Rightarrow> admin_error ''load tenants: ''
      | Inr reg \<Rightarrow> AdminTenantList (map (\<lambda>r. \<lparr>atr_tenant_id = tn_tenant_id r, atr_signing_fp = tn_signing_fp r,
          atr_rate_capacity = tn_rate_capacity r, atr_rate_refill_per_sec = tn_rate_refill_per_sec r,
          atr_registered_at_unix_ns = tn_registered_at_unix_ns r\<rparr>) (tenant_iter reg)))"

definition reload_tenants_in_state :: "admin_state \<Rightarrow> admin_state \<times> bool" where
  "reload_tenants_in_state st =
     (case as_registry st of None \<Rightarrow> (st, False)
      | Some _ \<Rightarrow> (case tenant_load (as_tenants st) of
          Inr new_reg \<Rightarrow> (st\<lparr>as_registry := Some new_reg\<rparr>, True) | Inl e \<Rightarrow> (st, False)))"

definition admin_add_tenant :: "bool \<Rightarrow> admin_state \<Rightarrow> u64 \<Rightarrow> bytes \<Rightarrow> u64 \<Rightarrow> u64 \<Rightarrow> u64 \<Rightarrow> admin_state \<times> envelope" where
  "admin_add_tenant wok st tenant_id signing_fp cap refill registered =
     (if \<not> as_tenants_configured st then (st, admin_error ''tenants registry not configured (--tenants is empty)'')
      else
        let load = (case tenant_load (as_tenants st) of Inl NotFound \<Rightarrow> Inr tenant_new | r \<Rightarrow> r) in
        case load of
          Inl e \<Rightarrow> (st, admin_error ''load tenants: '')
        | Inr existing \<Rightarrow>
            if tenant_get existing tenant_id \<noteq> None then (st, AdminError (ascii ''tenant_id '' @ show_u64 tenant_id @ ascii '' already registered''))
            else (case append_atomic wok (tenant_line \<lparr>tn_tenant_id = tenant_id, tn_signing_fp = signing_fp, tn_rate_capacity = cap,
                    tn_rate_refill_per_sec = refill, tn_registered_at_unix_ns = registered\<rparr>) (as_tenants st) of
                (file', False) \<Rightarrow> (st\<lparr>as_tenants := file'\<rparr>, admin_error ''write tenants: '')
              | (file', True) \<Rightarrow> (fst (reload_tenants_in_state (st\<lparr>as_tenants := file'\<rparr>)), AdminAddTenantAck)))"

definition admin_revoke_tenant :: "bool \<Rightarrow> admin_state \<Rightarrow> u64 \<Rightarrow> admin_state \<times> envelope" where
  "admin_revoke_tenant wok st tenant_id =
     (if \<not> as_tenants_configured st then (st, admin_error ''tenants registry not configured (--tenants is empty)'')
      else case as_tenants st of
        None \<Rightarrow> (st, admin_error ''read tenants: '')
      | Some original \<Rightarrow> (case remove_lines tenant_id original of (out, found) \<Rightarrow>
          if \<not> found then (st, AdminError (ascii ''tenant_id '' @ show_u64 tenant_id @ ascii '' not registered''))
          else (case write_atomic wok out (as_tenants st) of
              (file', False) \<Rightarrow> (st\<lparr>as_tenants := file'\<rparr>, admin_error ''write tenants: '')
            | (file', True) \<Rightarrow> (fst (reload_tenants_in_state (st\<lparr>as_tenants := file'\<rparr>)), AdminRevokeTenantAck))))"

section \<open>One connection\<close>

definition admin_request :: "merkle_lib \<Rightarrow> bool \<Rightarrow> log_backend \<Rightarrow> admin_state \<Rightarrow> envelope \<Rightarrow> admin_state \<times> envelope" where
  "admin_request ml wok lg st req =
     (case req of
        AdminListAgents \<Rightarrow> (st, admin_list_agents (as_enrollment st))
      | AdminGetLogRoot \<Rightarrow> (st, AdminLogRoot (lb_root ml lg) (lb_len lg))
      | AdminEnrollAgent rid sfp vfp at_ns th \<Rightarrow>
          (case admin_enroll_agent wok (as_enrollment st) rid sfp vfp at_ns th of (file', resp) \<Rightarrow> (st\<lparr>as_enrollment := file'\<rparr>, resp))
      | AdminRevokeAgent rid \<Rightarrow>
          (case admin_revoke_agent wok (as_enrollment st) rid of (file', resp) \<Rightarrow> (st\<lparr>as_enrollment := file'\<rparr>, resp))
      | AdminListTenants \<Rightarrow> (st, admin_list_tenants st)
      | AdminAddTenant t fp cap refill reg \<Rightarrow> admin_add_tenant wok st t fp cap refill reg
      | AdminRevokeTenant t \<Rightarrow> admin_revoke_tenant wok st t
      | _ \<Rightarrow> (st, admin_error ''unsupported admin operation''))"

definition handle_admin_client ::
  "crypto \<Rightarrow> envelope codec \<Rightarrow> merkle_lib \<Rightarrow> admin_key_set \<Rightarrow> u64 \<Rightarrow> bool \<Rightarrow> log_backend \<Rightarrow> bytes \<Rightarrow> writer \<Rightarrow> admin_state \<Rightarrow> admin_state \<times> writer" where
  "handle_admin_client cr c ml keys now wok lg input w st =
     (case read_envelope c input of
        Inl e \<Rightarrow> (st, w)
      | Inr (AdminHello pubkey ts signature, input') \<Rightarrow>
          (case verify_admin_hello cr keys pubkey ts signature ADMIN_HELLO_CHALLENGE ADMIN_HELLO_FRESHNESS_NS now of
             AdminUnauthorized \<Rightarrow> (st, fst (write_envelope c (admin_error ''unauthorized'') w))
           | AdminOk admin_id \<Rightarrow>
               (case write_envelope c AdminWelcome w of
                  (w1, Inl e) \<Rightarrow> (st, w1)
                | (w1, Inr _) \<Rightarrow>
                    (case read_envelope c input' of
                       Inl e \<Rightarrow> (st, w1)
                     | Inr (req, _) \<Rightarrow>
                         (case admin_request ml wok lg st req of (st', resp) \<Rightarrow> (st', fst (write_envelope c resp w1))))))
      | Inr (_, _) \<Rightarrow> (st, fst (write_envelope c (admin_error ''expected AdminHello'') w)))"

section \<open>Lemmas\<close>

text \<open>An edit changes the state only together with its acknowledgement.\<close>

lemma admin_enroll_ack:
  "admin_enroll_agent wok file rid sfp vfp at_ns th = (file', resp) \<Longrightarrow> resp \<noteq> AdminEnrollAck \<Longrightarrow> file' = file"
  by (auto simp: admin_enroll_agent_def append_atomic_def write_atomic_def Let_def split: sum.splits if_splits)

lemma admin_revoke_ack: "admin_revoke_agent wok file rid = (file', resp) \<Longrightarrow> resp \<noteq> AdminRevokeAck \<Longrightarrow> file' = file"
  by (auto simp: admin_revoke_agent_def write_atomic_def split: option.splits prod.splits if_splits)

lemma admin_enroll_agent_ok:
  assumes "length sfp = 32" "length vfp = 32" "- (2 ^ 63) \<le> at_ns" "at_ns < 2 ^ 63"
    and "enroll_load file = Inr s" "enroll_get s rid = None"
  shows "\<exists>body. admin_enroll_agent True file rid sfp vfp at_ns th = (Some body, AdminEnrollAck) \<and>
    enroll_load (Some body) = Inr (hm_insert rid \<lparr>en_runner_id = rid, en_signing_fp = sfp, en_vrf_fp = vfp,
      en_enrolled_at_unix_ns = at_ns, en_initial_reputation_milli = of_nat (min (unat th) 1000)\<rparr> s)"
proof -
  obtain body where f: "file = Some body" using assms(5) by (cases "file") (auto simp: enroll_load_def)
  then have "enroll_parse body = Inr s" using assms(5) by (simp add: enroll_load_def)
  from enroll_load_append [OF assms(1-4) _ this assms(6), of "min (unat th) 1000"]
  show ?thesis using assms(5,6) by (simp add: f admin_enroll_agent_def append_atomic_def write_atomic_def enroll_load_def)
qed

lemma enroll_load_as_file: "enroll_load (Some body) = enrollments.load body"
  by (simp add: enroll_load_def enroll_parse_def enroll_new_def)

lemma admin_revoke_agent_ok:
  assumes "enroll_load (Some body) = Inr s" "enroll_get s rid \<noteq> None"
  shows "\<exists>body' s'. admin_revoke_agent True (Some body) rid = (Some body', AdminRevokeAck) \<and>
    enroll_load (Some body') = Inr s' \<and> enroll_get s' rid = None \<and> (\<forall>j. j \<noteq> rid \<longrightarrow> enroll_get s' j = enroll_get s j)"
proof -
  have "enrollments.load body = Inr s" using assms(1) by (simp only: enroll_load_as_file)
  from enrollments.load_remove [OF this, of rid] assms(2) show ?thesis
    by (cases "remove_lines rid body") (auto simp: admin_revoke_agent_def write_atomic_def enroll_load_as_file enroll_get_def)
qed

lemma tenant_load_as_file: "tenant_load (Some body) = tenants.load body"
  by (simp add: tenant_load_def tenant_new_def)

lemma tenant_load_line:
  assumes fp: "length (tn_signing_fp r) = 32" and l: "tenant_load (Some body) = Inr m" and free: "tenant_get m (tn_tenant_id r) = None"
  shows "tenant_load (Some (append_line (tenant_line r) body)) = Inr (hm_insert (tn_tenant_id r) r m)"
proof -
  note t = tenant_line_trim [OF fp]
  have "tenant_parse_line 0 (trim (tenant_line r)) = Inr r" using tenant_parse_tenant_line [OF fp] t by simp
  from tenants.load_append [OF _ t(2) _ this] l free t show ?thesis by (simp add: tenant_load_as_file tenant_get_def)
qed

lemma tenant_load_empty: "tenant_load (Some []) = Inr tenant_new"
  by (simp add: tenant_load_def data_lines_def)

lemma reload_ok:
  "as_registry st \<noteq> None \<Longrightarrow> tenant_load (as_tenants st) = Inr m \<Longrightarrow> reload_tenants_in_state st = (st\<lparr>as_registry := Some m\<rparr>, True)"
  by (auto simp: reload_tenants_in_state_def)

lemma admin_request_changes:
  assumes "fst (admin_request ml wok lg st req) \<noteq> st"
  shows "snd (admin_request ml wok lg st req) \<in> {AdminEnrollAck, AdminRevokeAck, AdminAddTenantAck, AdminRevokeTenantAck}"
proof (cases req)
  case (AdminEnrollAgent rid sfp vfp at_ns th)
  obtain f r where e: "admin_enroll_agent wok (as_enrollment st) rid sfp vfp at_ns th = (f, r)" by fastforce
  show ?thesis using assms admin_enroll_ack [OF e] AdminEnrollAgent by (cases "r = AdminEnrollAck") (auto simp: admin_request_def e)
next
  case (AdminRevokeAgent rid)
  obtain f r where e: "admin_revoke_agent wok (as_enrollment st) rid = (f, r)" by fastforce
  show ?thesis using assms admin_revoke_ack [OF e] AdminRevokeAgent by (cases "r = AdminRevokeAck") (auto simp: admin_request_def e)
next
  case (AdminAddTenant t fp cap refill reg)
  then show ?thesis using assms
    by (auto simp: admin_request_def admin_add_tenant_def append_atomic_def write_atomic_def Let_def split: sum.splits if_splits)
next
  case (AdminRevokeTenant t)
  then show ?thesis using assms
    by (auto simp: admin_request_def admin_revoke_tenant_def write_atomic_def split: option.splits prod.splits if_splits)
qed (use assms in \<open>simp_all add: admin_request_def\<close>)

section \<open>Properties\<close>

text \<open>C36: Nothing an unauthenticated peer sends changes the coordinator's files or its tenant registry:
  when a connection changed the state, its first message was a hello that the gate accepted, the change is
  the effect of the one request that followed, and that request was acknowledged.\<close>
theorem admin_state_guarded:
  assumes "handle_admin_client cr c ml keys now wok lg input w st = (st', w')" and "st' \<noteq> st"
  shows "\<exists>pk ts sig rest i req rest' resp. read_envelope c input = Inr (AdminHello pk ts sig, rest)
    \<and> verify_admin_hello cr keys pk ts sig ADMIN_HELLO_CHALLENGE ADMIN_HELLO_FRESHNESS_NS now = AdminOk i
    \<and> read_envelope c rest = Inr (req, rest') \<and> admin_request ml wok lg st req = (st', resp)
    \<and> resp \<in> {AdminEnrollAck, AdminRevokeAck, AdminAddTenantAck, AdminRevokeTenantAck}"
proof -
  obtain m rest where m: "read_envelope c input = Inr (m, rest)"
    using assms by (auto simp: handle_admin_client_def split: sum.splits)
  then obtain pk ts sig where hello: "m = AdminHello pk ts sig"
    using assms by (cases m) (auto simp: handle_admin_client_def)
  then obtain i where i: "verify_admin_hello cr keys pk ts sig ADMIN_HELLO_CHALLENGE ADMIN_HELLO_FRESHNESS_NS now = AdminOk i"
    using assms m by (auto simp: handle_admin_client_def split: admin_auth_check.splits)
  then obtain req rest' where req: "read_envelope c rest = Inr (req, rest')"
    and st': "st' = fst (admin_request ml wok lg st req)"
    using assms m hello by (auto simp: handle_admin_client_def split: prod.splits sum.splits)
  have "admin_request ml wok lg st req = (st', snd (admin_request ml wok lg st req))" by (simp add: st')
  with m hello i req admin_request_changes [of ml wok lg st req] assms(2) st' show ?thesis by blast
qed

text \<open>Enrolling an agent that the file does not have is acknowledged and makes the next load hold
  exactly that agent more, with its two fingerprints, its time and its reputation in thousandths capped at
  1000; a second enrollment of the id is refused; revoking it is acknowledged and makes the next load
  forget exactly that agent.\<close>
theorem admin_enroll_revoke_exact:
  assumes "length sfp = 32" "length vfp = 32" "- (2 ^ 63) \<le> at_ns" "at_ns < 2 ^ 63"
    and "enroll_load file = Inr s" "enroll_get s rid = None"
  shows "\<exists>f1 s1 f2 s2. admin_enroll_agent True file rid sfp vfp at_ns th = (f1, AdminEnrollAck) \<and> enroll_load f1 = Inr s1
    \<and> enroll_get s1 rid = Some \<lparr>en_runner_id = rid, en_signing_fp = sfp, en_vrf_fp = vfp,
        en_enrolled_at_unix_ns = at_ns, en_initial_reputation_milli = of_nat (min (unat th) 1000)\<rparr>
    \<and> (\<forall>j. j \<noteq> rid \<longrightarrow> enroll_get s1 j = enroll_get s j)
    \<and> (\<exists>e. admin_enroll_agent True f1 rid sfp' vfp' at_ns' th' = (f1, AdminError e))
    \<and> admin_revoke_agent True f1 rid = (f2, AdminRevokeAck) \<and> enroll_load f2 = Inr s2
    \<and> (\<forall>j. enroll_get s2 j = enroll_get s j)"
proof -
  let ?r = "\<lparr>en_runner_id = rid, en_signing_fp = sfp, en_vrf_fp = vfp,
        en_enrolled_at_unix_ns = at_ns, en_initial_reputation_milli = of_nat (min (unat th) 1000)\<rparr>"
  obtain body where b: "admin_enroll_agent True file rid sfp vfp at_ns th = (Some body, AdminEnrollAck)"
    "enroll_load (Some body) = Inr (hm_insert rid ?r s)"
    using admin_enroll_agent_ok [OF assms, of th] by blast
  have get: "enroll_get (hm_insert rid ?r s) j = (if j = rid then Some ?r else enroll_get s j)" for j
    by (simp add: enroll_get_def hm_simps)
  obtain body' s' where r: "admin_revoke_agent True (Some body) rid = (Some body', AdminRevokeAck)"
    "enroll_load (Some body') = Inr s'" "enroll_get s' rid = None" "\<forall>j. j \<noteq> rid \<longrightarrow> enroll_get s' j = enroll_get (hm_insert rid ?r s) j"
    using admin_revoke_agent_ok [OF b(2)] get by (metis option.distinct(1))
  have "\<forall>j. enroll_get s' j = enroll_get s j" using r(3,4) get assms(6) by metis
  moreover obtain e where "admin_enroll_agent True (Some body) rid sfp' vfp' at_ns' th' = (Some body, AdminError e)"
    by (simp add: admin_enroll_agent_def b(2) get)
  ultimately show ?thesis using b r(1,2) get by (intro exI conjI) (assumption | simp)+
qed

theorem admin_enroll_revoke_exact_witness:
  "\<exists>f1 s1. admin_enroll_agent True (Some []) 7 (replicate 32 1) (replicate 32 2) 5 1500 = (f1, AdminEnrollAck) \<and> enroll_load f1 = Inr s1
     \<and> enroll_get s1 7 = Some \<lparr>en_runner_id = 7, en_signing_fp = replicate 32 1, en_vrf_fp = replicate 32 2,
        en_enrolled_at_unix_ns = 5, en_initial_reputation_milli = 1000\<rparr>"
proof -
  have "enroll_load (Some []) = Inr []" "enroll_get [] 7 = None"
    by (simp_all add: enroll_load_def enroll_parse_def data_lines_def enroll_new_def enroll_get_def)
  from admin_enroll_revoke_exact [OF _ _ _ _ this, where sfp = "replicate 32 1" and vfp = "replicate 32 2" and at_ns = 5
      and th = 1500 and sfp' = "[]" and vfp' = "[]" and at_ns' = 0 and th' = 0] show ?thesis by auto
qed

text \<open>An acknowledged change of tenants is in effect at once: after adding a tenant the submission
  gate's registry holds it with its key and its rate and every other tenant as in the file; after revoking
  it the registry has lost exactly that tenant.\<close>
theorem admin_tenant_in_effect:
  assumes "as_tenants_configured st" "as_registry st \<noteq> None" and "length fp = 32"
    and "tenant_load (as_tenants st) = Inr m" "tenant_get m t = None"
  shows "\<exists>st1 st2 reg1 reg2. admin_add_tenant True st t fp cap refill at_ns = (st1, AdminAddTenantAck) \<and> as_registry st1 = Some reg1
    \<and> tenant_get reg1 t = Some \<lparr>tn_tenant_id = t, tn_signing_fp = fp, tn_rate_capacity = cap,
        tn_rate_refill_per_sec = refill, tn_registered_at_unix_ns = at_ns\<rparr>
    \<and> (\<forall>j. j \<noteq> t \<longrightarrow> tenant_get reg1 j = tenant_get m j)
    \<and> admin_revoke_tenant True st1 t = (st2, AdminRevokeTenantAck) \<and> as_registry st2 = Some reg2
    \<and> (\<forall>j. tenant_get reg2 j = tenant_get m j)"
proof -
  let ?r = "\<lparr>tn_tenant_id = t, tn_signing_fp = fp, tn_rate_capacity = cap, tn_rate_refill_per_sec = refill, tn_registered_at_unix_ns = at_ns\<rparr>"
  obtain body where b: "as_tenants st = Some body" using assms(4) by (cases "as_tenants st") (auto simp: tenant_load_def)
  let ?body = "append_line (tenant_line ?r) body" and ?m = "hm_insert t ?r m"
  have l1: "tenant_load (Some ?body) = Inr ?m" using tenant_load_line [of ?r body m] assms b by simp
  let ?st1 = "st\<lparr>as_tenants := Some ?body, as_registry := Some ?m\<rparr>"
  have add: "admin_add_tenant True st t fp cap refill at_ns = (?st1, AdminAddTenantAck)"
    using assms b l1 by (simp add: admin_add_tenant_def append_atomic_def write_atomic_def reload_ok)
  obtain m' where m': "tenant_load (Some (fst (remove_lines t ?body))) = Inr m'" "hm_get m' t = None"
      "\<forall>j. j \<noteq> t \<longrightarrow> hm_get m' j = hm_get ?m j" "snd (remove_lines t ?body)"
    using tenants.load_remove [of ?body ?m t] l1 by (auto simp: tenant_load_as_file hm_simps)
  let ?st2 = "?st1\<lparr>as_tenants := Some (fst (remove_lines t ?body)), as_registry := Some m'\<rparr>"
  have rev: "admin_revoke_tenant True ?st1 t = (?st2, AdminRevokeTenantAck)"
    using assms m' by (cases "remove_lines t ?body") (simp add: admin_revoke_tenant_def write_atomic_def reload_ok)
  have "tenant_get m' j = tenant_get m j" for j
    using m'(2,3) assms(5) by (cases "j = t") (simp_all add: tenant_get_def hm_simps)
  moreover have "tenant_get ?m j = (if j = t then Some ?r else tenant_get m j)" for j by (simp add: tenant_get_def hm_simps)
  ultimately show ?thesis using add rev by (intro exI conjI) (assumption | simp)+
qed

theorem admin_tenant_in_effect_witness:
  "let st = \<lparr>as_enrollment = None, as_tenants_configured = True, as_tenants = Some [], as_registry = Some []\<rparr> in
   \<exists>st1 reg1. admin_add_tenant True st 3 (replicate 32 9) 10 2 0 = (st1, AdminAddTenantAck) \<and> as_registry st1 = Some reg1
     \<and> map_option tn_rate_capacity (tenant_get reg1 3) = Some 10"
proof -
  let ?st = "\<lparr>as_enrollment = None, as_tenants_configured = True, as_tenants = Some [], as_registry = Some []\<rparr>"
  have "as_tenants_configured ?st" "as_registry ?st \<noteq> None" "tenant_load (as_tenants ?st) = Inr tenant_new" "tenant_get tenant_new 3 = None"
    by (simp_all add: tenant_load_empty tenant_new_def tenant_get_def)
  from admin_tenant_in_effect [OF this(1,2) _ this(3,4), of "replicate 32 9" 10 2 0] show ?thesis by (auto simp: Let_def)
qed

text \<open>A hello and an enrollment over a connection, with a codec for these two messages.\<close>

definition toy_admin_codec :: "envelope codec" where
  "toy_admin_codec = \<lparr>cd_encode = (\<lambda>m. case m of AdminHello pk ts sig \<Rightarrow> 1 # le_bytes 8 ts @ pk @ sig | AdminRevokeTenant t \<Rightarrow> 2 # le_bytes 8 t | _ \<Rightarrow> [0]),
     cd_decode = (\<lambda>bs. case bs of [] \<Rightarrow> None | k # b \<Rightarrow>
        if k = 1 then Some (AdminHello (take 32 (drop 8 b)) (from_le_bytes (take 8 b)) (drop 40 b))
        else if k = 2 then Some (AdminRevokeTenant (from_le_bytes b)) else Some AdminWelcome)\<rparr>"

lemma toy_admin_fits:
  "length pk = 32 \<Longrightarrow> length sig \<le> 100 \<Longrightarrow> envelope_fits toy_admin_codec (AdminHello pk ts sig)"
  "envelope_fits toy_admin_codec (AdminRevokeTenant t)"
  by (simp_all add: envelope_fits_def toy_admin_codec_def MAX_ENVELOPE_BYTES_PUB_def)

theorem admin_state_guarded_witness:
  "let fp = replicate 32 5; r = \<lparr>tn_tenant_id = 3, tn_signing_fp = fp, tn_rate_capacity = 1, tn_rate_refill_per_sec = 1, tn_registered_at_unix_ns = 0\<rparr>;
       sig = fp @ ADMIN_HELLO_CHALLENGE @ le_bytes 8 (100 :: u64);
       input = envelope_frame toy_admin_codec (AdminHello fp 100 sig) @ envelope_frame toy_admin_codec (AdminRevokeTenant 3);
       st = \<lparr>as_enrollment = None, as_tenants_configured = True, as_tenants = Some (append_line (tenant_line r) []), as_registry = Some [(3, r)]\<rparr>;
       keys = [(fp, \<lparr>ad_admin_id = 4, ad_signing_fp = fp, ad_enrolled_at_unix_ns = 0\<rparr>)] in
   \<exists>st' w'. handle_admin_client toy_crypto toy_admin_codec toy_merkle keys 105 True (LogMem log_new) input \<lparr>wr_out = [], wr_room = None\<rparr> st = (st', w')
     \<and> st' \<noteq> st \<and> (\<exists>pk ts sg rest. read_envelope toy_admin_codec input = Inr (AdminHello pk ts sg, rest))"
proof -
  let ?P = "\<lambda>fp r. let sig = fp @ ADMIN_HELLO_CHALLENGE @ le_bytes 8 (100 :: u64);
       input = envelope_frame toy_admin_codec (AdminHello fp 100 sig) @ envelope_frame toy_admin_codec (AdminRevokeTenant 3);
       st = \<lparr>as_enrollment = None, as_tenants_configured = True, as_tenants = Some (append_line (tenant_line r) []), as_registry = Some [(3, r)]\<rparr>;
       keys = [(fp, \<lparr>ad_admin_id = 4, ad_signing_fp = fp, ad_enrolled_at_unix_ns = 0\<rparr>)] in
   \<exists>st' w'. handle_admin_client toy_crypto toy_admin_codec toy_merkle keys 105 True (LogMem log_new) input \<lparr>wr_out = [], wr_room = None\<rparr> st = (st', w')
     \<and> st' \<noteq> st \<and> (\<exists>pk ts sg rest. read_envelope toy_admin_codec input = Inr (AdminHello pk ts sg, rest))"
  have "?P fp r" if fp: "length fp = 32" and r: "tn_signing_fp r = fp" "tn_tenant_id r = 3" for fp r
  proof -
    let ?sig = "fp @ ADMIN_HELLO_CHALLENGE @ le_bytes 8 (100 :: u64)"
    let ?in = "envelope_frame toy_admin_codec (AdminHello fp 100 ?sig) @ envelope_frame toy_admin_codec (AdminRevokeTenant 3)"
    let ?st = "\<lparr>as_enrollment = None, as_tenants_configured = True, as_tenants = Some (append_line (tenant_line r) []), as_registry = Some [(3, r)]\<rparr>"
    let ?keys = "[(fp, \<lparr>ad_admin_id = 4, ad_signing_fp = fp, ad_enrolled_at_unix_ns = 0\<rparr>)]"
    let ?w = "\<lparr>wr_out = [], wr_room = None\<rparr>"
    have "length ADMIN_HELLO_CHALLENGE = 21" by code_simp
    then have sig: "length ?sig \<le> 100" using fp by simp
    have read: "read_envelope toy_admin_codec ?in = Inr (AdminHello fp 100 ?sig, envelope_frame toy_admin_codec (AdminRevokeTenant 3))"
      "read_envelope toy_admin_codec (envelope_frame toy_admin_codec (AdminRevokeTenant 3)) = Inr (AdminRevokeTenant 3, [])"
      using sync_stream.rd_frame [OF toy_admin_fits(1) [OF fp sig]] sync_stream.rd_frame [OF toy_admin_fits(2) [of 3], of "[]"] by simp_all
    have "abs_diff 105 (100 :: u64) \<le> ADMIN_HELLO_FRESHNESS_NS" by (simp add: abs_diff_def ADMIN_HELLO_FRESHNESS_NS_def)
    then have ok: "verify_admin_hello toy_crypto ?keys fp 100 ?sig ADMIN_HELLO_CHALLENGE ADMIN_HELLO_FRESHNESS_NS 105 = AdminOk 4"
      unfolding verify_admin_hello_iff using fp by (simp add: admin_get_def verify_def toy_crypto_def)
    have l: "tenant_load (Some (append_line (tenant_line r) [])) = Inr [(3, r)]"
      using tenant_load_line [OF _ tenant_load_empty, of r] fp r by (simp add: tenant_new_def tenant_get_def)
    then have found: "snd (remove_lines 3 (append_line (tenant_line r) []))"
      "\<exists>m'. tenant_load (Some (fst (remove_lines 3 (append_line (tenant_line r) [])))) = Inr m' \<and> hm_get m' 3 = None"
      using tenants.load_remove [of "append_line (tenant_line r) []" "[(3, r)]" 3] by (auto simp: tenant_load_as_file)
    then obtain m' where m': "tenant_load (Some (fst (remove_lines 3 (append_line (tenant_line r) [])))) = Inr m'" "hm_get m' 3 = None" by blast
    have req: "admin_request toy_merkle True (LogMem log_new) ?st (AdminRevokeTenant 3) =
        (?st\<lparr>as_tenants := Some (fst (remove_lines 3 (append_line (tenant_line r) []))), as_registry := Some m'\<rparr>, AdminRevokeTenantAck)"
      using found m' by (cases "remove_lines 3 (append_line (tenant_line r) [])")
        (simp add: admin_request_def admin_revoke_tenant_def write_atomic_def reload_ok)
    have fits: "envelope_fits toy_admin_codec AdminWelcome" by (simp add: envelope_fits_def toy_admin_codec_def MAX_ENVELOPE_BYTES_PUB_def)
    obtain w' where h: "handle_admin_client toy_crypto toy_admin_codec toy_merkle ?keys 105 True (LogMem log_new) ?in ?w ?st =
        (?st\<lparr>as_tenants := Some (fst (remove_lines 3 (append_line (tenant_line r) []))), as_registry := Some m'\<rparr>, w')"
      by (simp add: handle_admin_client_def read ok write_envelope_unbounded [OF fits] req)
    have "?st\<lparr>as_tenants := Some (fst (remove_lines 3 (append_line (tenant_line r) []))), as_registry := Some m'\<rparr> \<noteq> ?st"
      using m'(2) by auto
    with admin_state_guarded [OF h this] h show ?thesis unfolding Let_def by blast
  qed
  from this [of "replicate 32 5"] show ?thesis unfolding Let_def by simp
qed

text \<open>Each connection runs on its own thread and nothing locks the file between the load and the
  rename: two enrollments may both load, and then both write.\<close>

definition enroll_interleaved ::
  "bytes option \<Rightarrow> u64 \<times> bytes \<times> bytes \<times> int \<times> u32 \<Rightarrow> u64 \<times> bytes \<times> bytes \<times> int \<times> u32 \<Rightarrow> bytes option \<times> envelope \<times> envelope" where
  "enroll_interleaved file a b =
     (case (a, b) of ((rid, sfp, vfp, at_ns, th), (rid', sfp', vfp', at_ns', th')) \<Rightarrow>
        (case (admin_enroll_agent True file rid sfp vfp at_ns th, admin_enroll_agent True file rid' sfp' vfp' at_ns' th') of
           ((f1, resp1), (f2, resp2)) \<Rightarrow> (if resp2 = AdminEnrollAck then f2 else f1, resp1, resp2)))"

text \<open>An acknowledged enrollment can be lost: when two administrators enroll different agents at the
  same time and both load the file before either writes it, both get the acknowledgement and the file ends
  with only the one that was written last.\<close>
theorem concurrent_enrollment_lost:
  assumes "length sfp = 32" "length vfp = 32" "length sfp' = 32" "length vfp' = 32"
    and "- (2 ^ 63) \<le> at_ns" "at_ns < 2 ^ 63" "- (2 ^ 63) \<le> at_ns'" "at_ns' < 2 ^ 63"
    and "enroll_load file = Inr s" "enroll_get s rid = None" "enroll_get s rid' = None" "rid \<noteq> rid'"
  shows "\<exists>f s'. enroll_interleaved file (rid, sfp, vfp, at_ns, th) (rid', sfp', vfp', at_ns', th') = (f, AdminEnrollAck, AdminEnrollAck)
    \<and> enroll_load f = Inr s' \<and> enroll_get s' rid = None \<and> enroll_get s' rid' \<noteq> None"
proof -
  obtain b1 where b1: "admin_enroll_agent True file rid sfp vfp at_ns th = (Some b1, AdminEnrollAck)"
    using admin_enroll_agent_ok [OF assms(1,2,5,6,9,10), of th] by blast
  obtain b2 where b2: "admin_enroll_agent True file rid' sfp' vfp' at_ns' th' = (Some b2, AdminEnrollAck)"
    "enroll_load (Some b2) = Inr (hm_insert rid' \<lparr>en_runner_id = rid', en_signing_fp = sfp', en_vrf_fp = vfp',
      en_enrolled_at_unix_ns = at_ns', en_initial_reputation_milli = of_nat (min (unat th') 1000)\<rparr> s)"
    using admin_enroll_agent_ok [OF assms(3,4,7,8,9,11), of th'] by blast
  show ?thesis using b1 b2 assms(10,12) by (auto simp: enroll_interleaved_def enroll_get_def hm_simps)
qed

theorem concurrent_enrollment_lost_witness:
  "\<exists>f s'. enroll_interleaved (Some []) (7, replicate 32 1, replicate 32 2, 0, 500) (8, replicate 32 3, replicate 32 4, 0, 500)
      = (f, AdminEnrollAck, AdminEnrollAck) \<and> enroll_load f = Inr s' \<and> enroll_get s' 7 = None"
proof -
  have "enroll_load (Some []) = Inr []" by (simp add: enroll_load_def enroll_parse_def data_lines_def enroll_new_def)
  from concurrent_enrollment_lost [OF _ _ _ _ _ _ _ _ this, of "replicate 32 1" "replicate 32 2" "replicate 32 3" "replicate 32 4" 0 0 7 8 500 500]
  show ?thesis by (auto simp: enroll_get_def)
qed

end
