(* ===== verification/Vrf.thy ===== *)
theory Vrf
  imports Text_Format
begin

text \<open>
  The verifiable random function that ranks committee candidates
  (\<open>cosaci-vrf/src/vrf.rs\<close>). The curve operations and transcripts come from the
  \<open>schnorrkel\<close> and \<open>merlin\<close> crates and are the parameter \<open>vrf_lib\<close>; the randomness
  of a proof is an argument. \<open>vrf_ok\<close> states what the library documents: keys, outputs
  and proofs it makes are well formed, and a proof it makes verifies.
\<close>

datatype vrf_error = InvalidProof | InvalidPublicKey | InvalidOutput

record 't vrf_lib =
  vl_transcript :: "bytes \<Rightarrow> (bytes \<times> bytes) list \<Rightarrow> 't"
  vl_public :: "bytes \<Rightarrow> bytes"
  vl_sign :: "bytes \<Rightarrow> 't \<Rightarrow> bytes \<Rightarrow> bytes \<times> bytes"
  vl_pk_ok :: "bytes \<Rightarrow> bool"
  vl_preout_ok :: "bytes \<Rightarrow> bool"
  vl_proof_ok :: "bytes \<Rightarrow> bool"
  vl_verify :: "bytes \<Rightarrow> 't \<Rightarrow> bytes \<Rightarrow> bytes \<Rightarrow> bool"

definition VRF_CONTEXT :: bytes where
  "VRF_CONTEXT = ascii ''cosaci-vrf''"

definition transcript :: "'t vrf_lib \<Rightarrow> bytes \<Rightarrow> 't" where
  "transcript vl input = vl_transcript vl VRF_CONTEXT [(ascii ''input'', input)]"

type_synonym vrf_keypair = bytes

definition vrf_from_seed :: "bytes \<Rightarrow> vrf_keypair" where
  "vrf_from_seed seed = seed"

definition vrf_public_key_bytes :: "'t vrf_lib \<Rightarrow> vrf_keypair \<Rightarrow> bytes" where
  "vrf_public_key_bytes vl kp = vl_public vl kp"

definition vrf_evaluate :: "'t vrf_lib \<Rightarrow> vrf_keypair \<Rightarrow> bytes \<Rightarrow> bytes \<Rightarrow> bytes \<times> bytes" where
  "vrf_evaluate vl kp rnd input = vl_sign vl kp (transcript vl input) rnd"

definition vrf_verify :: "'t vrf_lib \<Rightarrow> bytes \<Rightarrow> bytes \<Rightarrow> bytes \<Rightarrow> bytes \<Rightarrow> vrf_error + unit" where
  "vrf_verify vl pk_bytes input out proof_bytes =
     (if \<not> vl_pk_ok vl pk_bytes then Inl InvalidPublicKey
      else if \<not> vl_preout_ok vl out then Inl InvalidOutput
      else if \<not> vl_proof_ok vl proof_bytes then Inl InvalidProof
      else if vl_verify vl pk_bytes (transcript vl input) out proof_bytes then Inr () else Inl InvalidProof)"

definition vrf_ok :: "'t vrf_lib \<Rightarrow> bool" where
  "vrf_ok vl \<longleftrightarrow> (\<forall>kp. vl_pk_ok vl (vl_public vl kp)) \<and>
     (\<forall>kp t rnd out prf. vl_sign vl kp t rnd = (out, prf) \<longrightarrow>
        vl_preout_ok vl out \<and> vl_proof_ok vl prf \<and> vl_verify vl (vl_public vl kp) t out prf)"

lemma vrf_evaluate_verifies:
  assumes "vrf_ok vl" "vrf_evaluate vl kp rnd input = (out, prf)"
  shows "vrf_verify vl (vrf_public_key_bytes vl kp) input out prf = Inr ()"
proof -
  have "vl_pk_ok vl (vl_public vl kp)" "vl_preout_ok vl out" "vl_proof_ok vl prf"
    "vl_verify vl (vl_public vl kp) (transcript vl input) out prf"
    using assms unfolding vrf_ok_def vrf_evaluate_def by blast+
  then show ?thesis by (simp add: vrf_verify_def vrf_public_key_bytes_def)
qed

text \<open>An instance for examples: the output is key and input, and a proof is its randomness.\<close>

definition toy_vrf :: "bytes vrf_lib" where
  "toy_vrf = \<lparr>vl_transcript = (\<lambda>c ms. concat (map snd ms)), vl_public = (\<lambda>kp. kp), vl_sign = (\<lambda>kp t rnd. (kp @ t, rnd)),
     vl_pk_ok = (\<lambda>_. True), vl_preout_ok = (\<lambda>_. True), vl_proof_ok = (\<lambda>_. True), vl_verify = (\<lambda>pk t out prf. out = pk @ t)\<rparr>"

lemma toy_vrf_ok: "vrf_ok toy_vrf"
  by (simp add: vrf_ok_def toy_vrf_def)

end
