(* ===== verification/Fleet.thy ===== *)
theory Fleet
  imports Protocol Enrollment Vrf
begin

text \<open>
  The coordinator's agents (\<open>cosaci-coordinator/src/main.rs\<close>): what it keeps of each,
  and how the fleet is accepted. A connection to an agent is what reads will give, in
  order: a message, an error, or silence for as long as a bounded read waits. A blocking
  read waits the silence out; when nothing more comes it does not return. Messages sent
  are kept in order; one over the size limit is refused before anything is written, and a
  connection may break after some number of messages.
\<close>

section \<open>Connections\<close>

datatype incoming = InMsg envelope | InError | InSilence

record agent =
  ag_runner_id :: u64
  ag_signing_pk :: bytes
  ag_vrf_pk :: bytes
  ag_stake :: u64
  ag_capabilities :: capabilities
  ag_inbox :: "incoming list"
  ag_sent :: "envelope list"
  ag_room :: "nat option"

definition send :: "envelope codec \<Rightarrow> envelope \<Rightarrow> agent \<Rightarrow> agent \<times> bool" where
  "send c m a =
     (if MAX_ENVELOPE_BYTES_PUB < length (cd_encode c m) then (a, False)
      else case ag_room a of
        None \<Rightarrow> (a\<lparr>ag_sent := ag_sent a @ [m]\<rparr>, True)
      | Some 0 \<Rightarrow> (a, False)
      | Some (Suc n) \<Rightarrow> (a\<lparr>ag_sent := ag_sent a @ [m], ag_room := Some n\<rparr>, True))"

text \<open>The next message or error, and the inbox after it.\<close>

fun await :: "incoming list \<Rightarrow> (incoming \<times> incoming list) option" where
  "await [] = None"
| "await (InSilence # xs) = await xs"
| "await (InMsg m # xs) = Some (InMsg m, xs)"
| "await (InError # xs) = Some (InError, xs)"

text \<open>A read with a timeout: nothing left, or silence, is a timeout.\<close>

fun await_timeout :: "incoming list \<Rightarrow> envelope option \<times> incoming list" where
  "await_timeout [] = (None, [])"
| "await_timeout (InSilence # xs) = (None, xs)"
| "await_timeout (InMsg m # xs) = (Some m, xs)"
| "await_timeout (InError # xs) = (None, xs)"

section \<open>Accepting the fleet\<close>

text \<open>\<open>cn_accept_ok\<close> is false when accepting it fails, which ends the accept loop with an error.\<close>

record connection =
  cn_accept_ok :: bool
  cn_config_ok :: bool
  cn_inbox :: "incoming list"
  cn_room :: "nat option"

definition accept_one :: "envelope codec \<Rightarrow> crypto \<Rightarrow> 't vrf_lib \<Rightarrow> enrollment_set option \<Rightarrow> connection \<Rightarrow> agent option option" where
  "accept_one c cr vl enrollment cn =
     (if \<not> cn_accept_ok cn then None
      else if \<not> cn_config_ok cn then Some None
      else case await (cn_inbox cn) of
        None \<Rightarrow> None
      | Some (InMsg (Register runner_id signing_pubkey vrf_pubkey vrf_output vrf_proof stake caps), rest) \<Rightarrow>
          if vrf_verify vl vrf_pubkey VRF_REGISTRATION_CHALLENGE vrf_output vrf_proof \<noteq> Inr () then Some None
          else if (case enrollment of None \<Rightarrow> False
                   | Some s \<Rightarrow> \<not> is_enrolled s runner_id (enroll_fingerprint cr signing_pubkey) (enroll_fingerprint cr vrf_pubkey)) then Some None
          else if \<not> cr_key_valid cr signing_pubkey then Some None
          else (case send c RegisterAck \<lparr>ag_runner_id = runner_id, ag_signing_pk = signing_pubkey, ag_vrf_pk = vrf_pubkey,
                  ag_stake = stake, ag_capabilities = caps, ag_inbox = rest, ag_sent = [], ag_room = cn_room cn\<rparr> of
                (a, True) \<Rightarrow> Some (Some a) | (_, False) \<Rightarrow> Some None)
      | Some _ \<Rightarrow> Some None)"

text \<open>The accept loop: connections in the order they arrive, \<open>None\<close> when accepting
  failed or it is still waiting at the end of them.\<close>

fun accept_loop :: "envelope codec \<Rightarrow> crypto \<Rightarrow> 't vrf_lib \<Rightarrow> enrollment_set option \<Rightarrow> nat \<Rightarrow> agent list \<Rightarrow> connection list \<Rightarrow> agent list option" where
  "accept_loop c cr vl en fleet agents cns =
     (if fleet \<le> length agents then Some agents
      else case cns of [] \<Rightarrow> None
        | cn # cns' \<Rightarrow> (case accept_one c cr vl en cn of
            None \<Rightarrow> None
          | Some None \<Rightarrow> accept_loop c cr vl en fleet agents cns'
          | Some (Some a) \<Rightarrow> accept_loop c cr vl en fleet (agents @ [a]) cns'))"

declare accept_loop.simps [simp del]

definition accept_fleet :: "envelope codec \<Rightarrow> crypto \<Rightarrow> 't vrf_lib \<Rightarrow> enrollment_set option \<Rightarrow> u64 \<Rightarrow> connection list \<Rightarrow> agent list option" where
  "accept_fleet c cr vl en fleet cns = accept_loop c cr vl en (unat fleet) [] cns"

section \<open>Lemmas\<close>

text \<open>What the gate establishes of an agent.\<close>

definition vetted :: "crypto \<Rightarrow> 't vrf_lib \<Rightarrow> enrollment_set option \<Rightarrow> agent \<Rightarrow> bool" where
  "vetted cr vl en a \<longleftrightarrow>
     (\<exists>out prf. vrf_verify vl (ag_vrf_pk a) VRF_REGISTRATION_CHALLENGE out prf = Inr ()) \<and>
     (\<forall>s. en = Some s \<longrightarrow> is_enrolled s (ag_runner_id a) (cr_sha256 cr (ag_signing_pk a)) (cr_sha256 cr (ag_vrf_pk a))) \<and>
     cr_key_valid cr (ag_signing_pk a) \<and> ag_sent a = [RegisterAck]"

lemma accept_one_vetted: "accept_one c cr vl en cn = Some (Some a) \<Longrightarrow> vetted cr vl en a"
  by (auto simp: accept_one_def vetted_def send_def enroll_fingerprint_def
      split: if_splits option.splits incoming.splits envelope.splits nat.splits) blast+

lemma accept_loop_vetted:
  assumes "accept_loop c cr vl en fleet agents cns = Some ags" "list_all (vetted cr vl en) agents" "length agents \<le> fleet"
  shows "list_all (vetted cr vl en) ags \<and> length ags = fleet"
  using assms
proof (induction cns arbitrary: agents)
  case Nil
  then show ?case by (auto simp: accept_loop.simps [of _ _ _ _ _ _ "[]"] split: if_splits)
next
  case (Cons cn cns)
  show ?case
  proof (cases "fleet \<le> length agents")
    case True
    then show ?thesis using Cons.prems by (auto simp: accept_loop.simps [of _ _ _ _ _ _ "cn # cns"])
  next
    case False
    then obtain r where r: "accept_one c cr vl en cn = Some r"
      and rest: "accept_loop c cr vl en fleet (case r of None \<Rightarrow> agents | Some a \<Rightarrow> agents @ [a]) cns = Some ags"
      using Cons.prems(1) by (auto simp: accept_loop.simps [of _ _ _ _ _ _ "cn # cns"] split: option.splits)
    have "list_all (vetted cr vl en) (case r of None \<Rightarrow> agents | Some a \<Rightarrow> agents @ [a])"
      using Cons.prems(2) accept_one_vetted [of c cr vl en cn] r by (auto split: option.split)
    with Cons.IH [OF rest] False show ?thesis by (auto split: option.split)
  qed
qed

section \<open>Properties\<close>

text \<open>C19: The fleet is complete and vetted: when the accept loop returns it has exactly the configured
  number of agents, and each of them proved possession of its VRF key for the registration challenge,
  presented a valid signing key, and - when the gate is on - is enrolled under its id with the
  fingerprints of exactly these two keys.\<close>
theorem fleet_vetted:
  assumes "accept_fleet c cr vl en fleet cns = Some agents"
  shows "length agents = unat fleet \<and> list_all (vetted cr vl en) agents"
  using accept_loop_vetted [of c cr vl en "unat fleet" "[]" cns agents] assms by (simp add: accept_fleet_def)

definition toy_caps :: capabilities where
  "toy_caps = \<lparr>cap_cpu = 4, cap_memory_mb = 1024, cap_platform = LinuxX86_64, cap_runtimes = {Wasm}\<rparr>"

definition toy_connection :: "u64 \<Rightarrow> bytes \<Rightarrow> connection" where
  "toy_connection i pk = \<lparr>cn_accept_ok = True, cn_config_ok = True,
     cn_inbox = [InMsg (Register i pk pk (pk @ VRF_REGISTRATION_CHALLENGE) [] 10 toy_caps)], cn_room = None\<rparr>"

text \<open>Nothing keeps two agents from registering under one id.\<close>

lemma duplicate_runner_ids_accepted:
  "map_option (map ag_runner_id) (accept_fleet toy_envelopes toy_crypto toy_vrf None 2 [toy_connection 7 [1], toy_connection 7 [2]]) = Some [7, 7]"
  by (simp add: accept_fleet_def accept_loop.simps accept_one_def toy_connection_def send_def vrf_verify_def transcript_def
      toy_vrf_def toy_crypto_def toy_envelopes_def MAX_ENVELOPE_BYTES_PUB_def)

theorem fleet_vetted_witness:
  "\<exists>agents. accept_fleet toy_envelopes toy_crypto toy_vrf None 1 [toy_connection 7 [1]] = Some agents \<and> length agents = 1
     \<and> list_all (vetted toy_crypto toy_vrf None) agents"
proof -
  obtain agents where a: "accept_fleet toy_envelopes toy_crypto toy_vrf None 1 [toy_connection 7 [1]] = Some agents"
    by (simp add: accept_fleet_def accept_loop.simps accept_one_def toy_connection_def send_def vrf_verify_def transcript_def
      toy_vrf_def toy_crypto_def toy_envelopes_def MAX_ENVELOPE_BYTES_PUB_def)
  from fleet_vetted [OF a] a show ?thesis by auto
qed

end
