(* ===== verification/Confidentiality.thy ===== *)
theory Confidentiality
  imports Prelude
begin

text \<open>
  Envelope encryption (\<open>cosaci-core/src/confidentiality.rs\<close>). The cipher
  (ChaCha20-Poly1305, from a crate) is the parameter \<open>aead\<close>; \<open>aead_ok\<close> states that
  encryption succeeds and decryption inverts it under the same key and nonce.
\<close>

datatype aead_error = AeadFailed | BadKeyLength

record aead =
  ae_encrypt :: "bytes \<Rightarrow> bytes \<Rightarrow> bytes \<Rightarrow> bytes option"
  ae_decrypt :: "bytes \<Rightarrow> bytes \<Rightarrow> bytes \<Rightarrow> bytes option"

definition encrypt :: "aead \<Rightarrow> bytes \<Rightarrow> bytes \<Rightarrow> bytes \<Rightarrow> aead_error + bytes" where
  "encrypt ae key nonce plaintext = (case ae_encrypt ae key nonce plaintext of None \<Rightarrow> Inl AeadFailed | Some c \<Rightarrow> Inr c)"

definition decrypt :: "aead \<Rightarrow> bytes \<Rightarrow> bytes \<Rightarrow> bytes \<Rightarrow> aead_error + bytes" where
  "decrypt ae key nonce ciphertext = (case ae_decrypt ae key nonce ciphertext of None \<Rightarrow> Inl AeadFailed | Some p \<Rightarrow> Inr p)"

definition wrap_dek :: "aead \<Rightarrow> bytes \<Rightarrow> bytes \<Rightarrow> bytes \<Rightarrow> aead_error + bytes" where
  "wrap_dek ae kek nonce dek = encrypt ae kek nonce dek"

definition unwrap_dek :: "aead \<Rightarrow> bytes \<Rightarrow> bytes \<Rightarrow> bytes \<Rightarrow> aead_error + bytes" where
  "unwrap_dek ae kek nonce wrapped =
     (case decrypt ae kek nonce wrapped of Inl e \<Rightarrow> Inl e
      | Inr bs \<Rightarrow> if length bs \<noteq> 32 then Inl BadKeyLength else Inr bs)"

definition aead_ok :: "aead \<Rightarrow> bool" where
  "aead_ok ae \<longleftrightarrow> (\<forall>k n p. \<exists>c. ae_encrypt ae k n p = Some c \<and> ae_decrypt ae k n c = Some p)"

text \<open>A wrapped key is unwrapped to itself, and anything else that decrypts under the same
  key is refused by its length.\<close>

lemma unwrap_wrap:
  assumes "aead_ok ae"
  shows "\<exists>c. wrap_dek ae kek nonce p = Inr c \<and> unwrap_dek ae kek nonce c = (if length p = 32 then Inr p else Inl BadKeyLength)"
proof -
  obtain c where "ae_encrypt ae kek nonce p = Some c" "ae_decrypt ae kek nonce c = Some p"
    using assms unfolding aead_ok_def by blast
  then show ?thesis by (auto simp: wrap_dek_def unwrap_dek_def encrypt_def decrypt_def)
qed

lemma unwrap_length: "unwrap_dek ae kek nonce c = Inr k \<Longrightarrow> length k = 32"
  by (auto simp: unwrap_dek_def split: sum.splits if_splits)

end
