(* ===== verification/Intake.thy ===== *)
theory Intake
  imports Submission_Auth Pipeline
begin

text \<open>
  How submissions reach the coordinator (\<open>cosaci-coordinator/src/main.rs\<close>): lines of JSON
  on standard input, the admission gate, the translation of both wire shapes into a
  pipeline, and the bounded queue the job loop takes from. The JSON and CBOR parsers are
  parameters, as are the clock readings of each line. A reload of the tenant file on a
  hang-up signal is a step between lines. The queue is modelled for a capacity of at least
  one; with capacity zero the channel hands over only to a waiting receiver.
\<close>

section \<open>Wire shapes\<close>

datatype job_kind = Add | Mul

fun as_wire :: "job_kind \<Rightarrow> bytes" where
  "as_wire Add = ascii ''add''"
| "as_wire Mul = ascii ''mul''"

definition default_deadline_secs :: u32 where
  "default_deadline_secs = 60"

record legacy_job_submission =
  lj_kind :: job_kind
  lj_a :: i32
  lj_b :: i32
  lj_deadline_secs :: u32
  lj_tenant_id :: "u64 option"
  lj_nonce :: "u128 option"
  lj_pubkey_hex :: "bytes option"
  lj_signature_hex :: "bytes option"

record pipeline_job_submission =
  pj_pipeline_cbor_hex :: bytes
  pj_deadline_secs :: u32
  pj_tenant_id :: "u64 option"
  pj_nonce :: "u128 option"
  pj_pubkey_hex :: "bytes option"
  pj_signature_hex :: "bytes option"

datatype job_submission = SubLegacy legacy_job_submission | SubPipeline pipeline_job_submission

datatype submission_origin = OriginLegacy | OriginPipeline

record run_submission =
  rs_pipeline :: pipeline
  rs_deadline_secs :: u32
  rs_origin :: submission_origin

definition shape_label :: "run_submission \<Rightarrow> bytes" where
  "shape_label rs = (case rs_origin rs of OriginLegacy \<Rightarrow> ascii ''legacy'' | OriginPipeline \<Rightarrow> ascii ''pipeline'')"

text \<open>The JSON parser: whether a text is a value, and if so whether it is an object with the
  discriminating field; the two typed readings, in which a missing deadline is the default.\<close>

record submission_json =
  sj_value :: "bytes \<Rightarrow> bool option"
  sj_legacy :: "bytes \<Rightarrow> legacy_job_submission option"
  sj_pipeline :: "bytes \<Rightarrow> pipeline_job_submission option"

definition parse_submission_line :: "submission_json \<Rightarrow> bytes \<Rightarrow> job_submission option" where
  "parse_submission_line sj line =
     (case sj_value sj line of
        None \<Rightarrow> None
      | Some True \<Rightarrow> map_option SubPipeline (sj_pipeline sj line)
      | Some False \<Rightarrow> map_option SubLegacy (sj_legacy sj line))"

section \<open>Hexadecimal fields\<close>

definition coord_hex_nibble :: "u8 \<Rightarrow> u8 option" where
  "coord_hex_nibble b =
     (if 48 \<le> b \<and> b \<le> 57 then Some (b - 48)
      else if 97 \<le> b \<and> b \<le> 102 then Some (b - 97 + 10)
      else None)"

definition parse_hex_bytes :: "bytes \<Rightarrow> bytes option" where
  "parse_hex_bytes s = (if length s mod 2 \<noteq> 0 then None else hex_pairs coord_hex_nibble s)"

definition parse_hex64 :: "bytes \<Rightarrow> bytes option" where
  "parse_hex64 s = (if length s \<noteq> 128 then None else hex_pairs coord_hex_nibble s)"

lemma coord_hex_nibble_eq: "coord_hex_nibble = tenant_hex_nibble"
  by (simp add: coord_hex_nibble_def tenant_hex_nibble_def fun_eq_iff)

interpretation coord_hex: strict_hex_reader coord_hex_nibble
  unfolding coord_hex_nibble_eq by unfold_locales

lemma hex_field_roundtrip:
  "parse_hex_bytes (hex_encode bs) = Some bs" "length bs = 64 \<Longrightarrow> parse_hex64 (hex_encode bs) = Some bs"
  by (simp_all add: parse_hex_bytes_def parse_hex64_def coord_hex.decode_encode)

section \<open>The gate\<close>

record auth_state =
  au_registry :: tenant_registry
  au_limiter :: rate_limiter
  au_replay :: replay_guard

definition REPLAY_TTL_NS :: u64 where
  "REPLAY_TTL_NS = 5 * 60 * 1000000000"

definition auth_state_new :: "tenant_registry \<Rightarrow> auth_state" where
  "auth_state_new registry = \<lparr>au_registry = registry, au_limiter = rl_new 0 0, au_replay = rg_new REPLAY_TTL_NS\<rparr>"

record intake_env =
  ix_json :: submission_json
  ix_crypto :: crypto
  ix_enc :: "job_submission_payload \<Rightarrow> string + bytes"
  ix_enc_pipeline :: "pipeline_submission_payload \<Rightarrow> string + bytes"
  ix_decode :: "bytes \<Rightarrow> pipeline option"
  ix_wasm :: wasm_lib
  ix_add_wasm :: bytes
  ix_mul_wasm :: bytes

text \<open>The clock readings of one line: the wall clock, and those of the gate.\<close>

type_synonym line_clock = "u64 \<times> clock_reads"

definition check_legacy :: "intake_env \<Rightarrow> line_clock \<Rightarrow> legacy_job_submission \<Rightarrow> tenant_registry \<Rightarrow> rate_limiter \<Rightarrow> replay_guard \<Rightarrow> admission" where
  "check_legacy ix clk sub registry rl rg =
     (case (lj_tenant_id sub, lj_nonce sub, lj_pubkey_hex sub, lj_signature_hex sub) of
        (Some tenant_id, Some nonce, Some pubkey_hex, Some signature_hex) \<Rightarrow>
          (case tenant_parse_hex32 pubkey_hex of
             None \<Rightarrow> (rl, rg, BadSignature)
           | Some pubkey \<Rightarrow>
               (case parse_hex64 signature_hex of
                  None \<Rightarrow> (rl, rg, BadSignature)
                | Some signature \<Rightarrow>
                    verify_and_admit (ix_crypto ix) (ix_enc ix)
                      \<lparr>js_tenant_id = tenant_id, js_kind = as_wire (lj_kind sub), js_a = lj_a sub, js_b = lj_b sub,
                       js_deadline_secs = lj_deadline_secs sub, js_nonce = nonce\<rparr>
                      pubkey signature (fst clk) (snd clk) registry rl rg))
      | _ \<Rightarrow> (rl, rg, BadSignature))"

definition check_pipeline :: "intake_env \<Rightarrow> line_clock \<Rightarrow> pipeline_job_submission \<Rightarrow> tenant_registry \<Rightarrow> rate_limiter \<Rightarrow> replay_guard \<Rightarrow> admission" where
  "check_pipeline ix clk sub registry rl rg =
     (case (pj_tenant_id sub, pj_nonce sub, pj_pubkey_hex sub, pj_signature_hex sub) of
        (Some tenant_id, Some nonce, Some pubkey_hex, Some signature_hex) \<Rightarrow>
          (case tenant_parse_hex32 pubkey_hex of
             None \<Rightarrow> (rl, rg, BadSignature)
           | Some pubkey \<Rightarrow>
               (case parse_hex64 signature_hex of
                  None \<Rightarrow> (rl, rg, BadSignature)
                | Some signature \<Rightarrow>
                    (case parse_hex_bytes (pj_pipeline_cbor_hex sub) of
                       None \<Rightarrow> (rl, rg, BadSignature)
                     | Some cbor \<Rightarrow>
                         verify_and_admit_pipeline (ix_crypto ix) (ix_enc_pipeline ix)
                           \<lparr>ps_tenant_id = tenant_id, ps_pipeline_cbor = cbor,
                            ps_deadline_secs = pj_deadline_secs sub, ps_nonce = nonce\<rparr>
                           pubkey signature (fst clk) (snd clk) registry rl rg)))
      | _ \<Rightarrow> (rl, rg, BadSignature))"

fun check_submission :: "intake_env \<Rightarrow> line_clock \<Rightarrow> job_submission \<Rightarrow> tenant_registry \<Rightarrow> rate_limiter \<Rightarrow> replay_guard \<Rightarrow> admission" where
  "check_submission ix clk (SubLegacy l) registry rl rg = check_legacy ix clk l registry rl rg"
| "check_submission ix clk (SubPipeline p) registry rl rg = check_pipeline ix clk p registry rl rg"

section \<open>Translation\<close>

definition limits_default :: limits where
  "limits_default = \<lparr>lm_cpu_seconds = 0, lm_memory_mb = 0, lm_wall_seconds = 0, lm_network = deny_all\<rparr>"

definition canned_pipeline :: "intake_env \<Rightarrow> bytes \<Rightarrow> i32 \<Rightarrow> i32 \<Rightarrow> pipeline" where
  "canned_pipeline ix module a b = \<lparr>pl_steps = [ExecWasm module (encode_args (ix_wasm ix) a b) limits_default]\<rparr>"

text \<open>Without \<open>--submit-stdin\<close> the loop runs the two canned modules in turn.\<close>

definition round_robin :: "intake_env \<Rightarrow> i32 \<Rightarrow> i32 \<Rightarrow> u64 \<Rightarrow> pipeline" where
  "round_robin ix a b job_id = canned_pipeline ix (if job_id mod 2 = 1 then ix_add_wasm ix else ix_mul_wasm ix) a b"

fun resolve :: "intake_env \<Rightarrow> job_submission \<Rightarrow> run_submission option" where
  "resolve ix (SubLegacy l) =
     Some \<lparr>rs_pipeline = canned_pipeline ix (case lj_kind l of Add \<Rightarrow> ix_add_wasm ix | Mul \<Rightarrow> ix_mul_wasm ix) (lj_a l) (lj_b l),
           rs_deadline_secs = lj_deadline_secs l, rs_origin = OriginLegacy\<rparr>"
| "resolve ix (SubPipeline p) =
     (case parse_hex_bytes (pj_pipeline_cbor_hex p) of
        None \<Rightarrow> None
      | Some cbor \<Rightarrow> (case ix_decode ix cbor of
          None \<Rightarrow> None
        | Some pl \<Rightarrow> Some \<lparr>rs_pipeline = pl, rs_deadline_secs = pj_deadline_secs p, rs_origin = OriginPipeline\<rparr>))"

section \<open>The reader\<close>

text \<open>The reader's state: the gate, \<open>None\<close> when there is none, the queue with its capacity,
  whether the reader is running, and whether the receiver is.\<close>

record intake =
  in_auth :: "auth_state option"
  in_queue :: "run_submission list"
  in_cap :: nat
  in_reading :: bool
  in_receiver :: bool

definition admit :: "intake_env \<Rightarrow> line_clock \<Rightarrow> job_submission \<Rightarrow> intake \<Rightarrow> intake \<times> bool" where
  "admit ix clk sub st =
     (case in_auth st of
        None \<Rightarrow> (st, True)
      | Some au \<Rightarrow>
          (case check_submission ix clk sub (au_registry au) (au_limiter au) (au_replay au) of
             (rl, rg, verdict) \<Rightarrow> (st\<lparr>in_auth := Some (au\<lparr>au_limiter := rl, au_replay := rg\<rparr>)\<rparr>, verdict = AuthOk)))"

definition try_send :: "run_submission \<Rightarrow> intake \<Rightarrow> intake" where
  "try_send sub st =
     (if \<not> in_receiver st then st\<lparr>in_reading := False\<rparr>
      else if in_cap st \<le> length (in_queue st) then st
      else st\<lparr>in_queue := in_queue st @ [sub]\<rparr>)"

definition read_line :: "intake_env \<Rightarrow> line_clock \<Rightarrow> bytes \<Rightarrow> intake \<Rightarrow> intake" where
  "read_line ix clk line st =
     (if \<not> utf8_valid line then st\<lparr>in_reading := False\<rparr>
      else let trimmed = trim line in
        if trimmed = [] \<or> hd trimmed = 35 then st
        else case parse_submission_line (ix_json ix) trimmed of
          None \<Rightarrow> st
        | Some sub \<Rightarrow>
            (case admit ix clk sub st of
               (st', False) \<Rightarrow> st'
             | (st', True) \<Rightarrow> (case resolve ix sub of None \<Rightarrow> st' | Some rs \<Rightarrow> try_send rs st')))"

text \<open>What happens around the queue: a line, a read error or the end of the input, the job
  loop taking a submission or going away, and a reload of the tenant file.\<close>

datatype intake_event = EvLine line_clock bytes | EvEnd | EvTake | EvReceiverGone | EvReload "bytes option"

definition reload_registry :: "bytes option \<Rightarrow> intake \<Rightarrow> intake" where
  "reload_registry file st =
     (case in_auth st of
        None \<Rightarrow> st
      | Some au \<Rightarrow> (case tenant_load file of
          Inl _ \<Rightarrow> st
        | Inr new_reg \<Rightarrow> st\<lparr>in_auth := Some (au\<lparr>au_registry := new_reg\<rparr>)\<rparr>))"

fun intake_step :: "intake_env \<Rightarrow> intake_event \<Rightarrow> intake \<Rightarrow> intake" where
  "intake_step ix (EvLine clk line) st = (if in_reading st then read_line ix clk line st else st)"
| "intake_step ix EvEnd st = st\<lparr>in_reading := False\<rparr>"
| "intake_step ix EvTake st = st\<lparr>in_queue := tl (in_queue st)\<rparr>"
| "intake_step ix EvReceiverGone st = st\<lparr>in_receiver := False\<rparr>"
| "intake_step ix (EvReload file) st = reload_registry file st"

definition intake_start :: "auth_state option \<Rightarrow> nat \<Rightarrow> intake" where
  "intake_start auth cap = \<lparr>in_auth = auth, in_queue = [], in_cap = cap, in_reading = True, in_receiver = True\<rparr>"

section \<open>One gate for both shapes\<close>

text \<open>The tenant, nonce, key and signature a submission carries, and the bytes the signature is
  checked against.\<close>

fun credentials :: "intake_env \<Rightarrow> job_submission \<Rightarrow> (u64 \<times> u128 \<times> bytes \<times> bytes \<times> (string + bytes)) option" where
  "credentials ix (SubLegacy l) =
     (case (lj_tenant_id l, lj_nonce l, Option.bind (lj_pubkey_hex l) tenant_parse_hex32, Option.bind (lj_signature_hex l) parse_hex64) of
        (Some t, Some nonce, Some pk, Some sg) \<Rightarrow>
          Some (t, nonce, pk, sg, canonical_bytes (ix_enc ix) \<lparr>js_tenant_id = t, js_kind = as_wire (lj_kind l), js_a = lj_a l, js_b = lj_b l,
            js_deadline_secs = lj_deadline_secs l, js_nonce = nonce\<rparr>)
      | _ \<Rightarrow> None)"
| "credentials ix (SubPipeline p) =
     (case (pj_tenant_id p, pj_nonce p, Option.bind (pj_pubkey_hex p) tenant_parse_hex32, Option.bind (pj_signature_hex p) parse_hex64,
            parse_hex_bytes (pj_pipeline_cbor_hex p)) of
        (Some t, Some nonce, Some pk, Some sg, Some cbor) \<Rightarrow>
          Some (t, nonce, pk, sg, canonical_bytes_pipeline (ix_enc_pipeline ix) \<lparr>ps_tenant_id = t, ps_pipeline_cbor = cbor,
            ps_deadline_secs = pj_deadline_secs p, ps_nonce = nonce\<rparr>)
      | _ \<Rightarrow> None)"

lemma check_submission_gate:
  "check_submission ix clk sub registry rl rg =
     (case credentials ix sub of
        None \<Rightarrow> (rl, rg, BadSignature)
      | Some (t, nonce, pk, sg, buf) \<Rightarrow>
          admit_gate (tenant_get registry t) (\<lambda>rec. authentic (ix_crypto ix) rec pk buf sg) t
            (fold_replay_key (ix_crypto ix) t nonce) (fst clk) (snd clk) rl rg)"
proof (cases sub)
  case (SubLegacy l)
  then show ?thesis
    by (cases "lj_tenant_id l"; cases "lj_nonce l"; cases "lj_pubkey_hex l"; cases "lj_signature_hex l")
      (auto simp: check_legacy_def verify_and_admit_gate split: option.split)
next
  case (SubPipeline p)
  then show ?thesis
    by (cases "pj_tenant_id p"; cases "pj_nonce p"; cases "pj_pubkey_hex p"; cases "pj_signature_hex p")
      (auto simp: check_pipeline_def verify_and_admit_pipeline_gate split: option.split)
qed

text \<open>A submission signed by a tenant of a registry.\<close>

definition signed_by_tenant :: "intake_env \<Rightarrow> tenant_registry \<Rightarrow> job_submission \<Rightarrow> bool" where
  "signed_by_tenant ix registry sub \<longleftrightarrow>
     (\<exists>t nonce pk sg buf rec. credentials ix sub = Some (t, nonce, pk, sg, Inr buf) \<and> tenant_get registry t = Some rec \<and>
        cr_sha256 (ix_crypto ix) pk = tn_signing_fp rec \<and> cr_verify_strict (ix_crypto ix) pk buf sg)"

lemma check_submission_ok:
  assumes "check_submission ix clk sub registry rl rg = (rl', rg', AuthOk)"
  shows "signed_by_tenant ix registry sub"
proof -
  obtain t nonce pk sg buf where c: "credentials ix sub = Some (t, nonce, pk, sg, buf)"
    and g: "admit_gate (tenant_get registry t) (\<lambda>rec. authentic (ix_crypto ix) rec pk buf sg) t
            (fold_replay_key (ix_crypto ix) t nonce) (fst clk) (snd clk) rl rg = (rl', rg', AuthOk)"
    using assms unfolding check_submission_gate by (auto split: option.splits)
  from admit_gate_unadmitted [OF g] show ?thesis
    using c by (auto simp: signed_by_tenant_def authentic_def tenant_fingerprint_def verify_def)
qed

section \<open>The queue\<close>

lemma admit_frame:
  assumes "admit ix clk sub st = (st', ok)"
  shows "in_queue st' = in_queue st" "in_cap st' = in_cap st" "in_reading st' = in_reading st" "in_receiver st' = in_receiver st"
    "map_option au_registry (in_auth st') = map_option au_registry (in_auth st)"
  using assms by (auto simp: admit_def split: option.splits prod.splits)

lemma admit_signed: "admit ix clk sub st = (st', True) \<Longrightarrow> in_auth st = Some au \<Longrightarrow> signed_by_tenant ix (au_registry au) sub"
  by (auto simp: admit_def split: prod.splits dest: check_submission_ok)

text \<open>A line adds at most one submission, at the end, and only what the line resolves to.\<close>

lemma read_line_queue:
  "in_cap (read_line ix clk line st) = in_cap st \<and>
   map_option au_registry (in_auth (read_line ix clk line st)) = map_option au_registry (in_auth st) \<and>
   (in_queue (read_line ix clk line st) = in_queue st \<or>
    (\<exists>sub rs. in_queue (read_line ix clk line st) = in_queue st @ [rs] \<and> length (in_queue st) < in_cap st \<and>
       parse_submission_line (ix_json ix) (trim line) = Some sub \<and> resolve ix sub = Some rs \<and>
       (\<forall>au. in_auth st = Some au \<longrightarrow> signed_by_tenant ix (au_registry au) sub)))"
proof (cases "utf8_valid line \<and> \<not> (trim line = [] \<or> hd (trim line) = 35)")
  case False
  then show ?thesis by (auto simp: read_line_def Let_def)
next
  case ok: True
  show ?thesis
  proof (cases "parse_submission_line (ix_json ix) (trim line)")
    case None
    then show ?thesis using ok by (simp add: read_line_def Let_def)
  next
    case (Some sub)
    obtain st' v where ad: "admit ix clk sub st = (st', v)" by fastforce
    have eq: "read_line ix clk line st = (if v then (case resolve ix sub of None \<Rightarrow> st' | Some rs \<Rightarrow> try_send rs st') else st')"
      using ok Some ad by (cases v) (simp_all add: read_line_def Let_def)
    show ?thesis
    proof (cases "v \<and> resolve ix sub \<noteq> None")
      case False
      then show ?thesis using admit_frame [OF ad] eq by auto
    next
      case True
      then obtain rs where rs: "resolve ix sub = Some rs" by blast
      have sg: "in_auth st = Some au \<Longrightarrow> signed_by_tenant ix (au_registry au) sub" for au
        using admit_signed [of ix clk sub st st' au] ad True by simp
      have "in_queue (try_send rs st') = in_queue st \<or> in_queue (try_send rs st') = in_queue st @ [rs] \<and> length (in_queue st) < in_cap st"
        and "in_cap (try_send rs st') = in_cap st" "in_auth (try_send rs st') = in_auth st'"
        using admit_frame [OF ad] by (auto simp: try_send_def)
      then show ?thesis using admit_frame(5) [OF ad] eq True rs Some sg by auto
    qed
  qed
qed

text \<open>The registries in force during a run.\<close>

definition registries :: "tenant_registry \<Rightarrow> intake_event list \<Rightarrow> tenant_registry set" where
  "registries reg evs = insert reg {r. \<exists>file. EvReload file \<in> set evs \<and> tenant_load file = Inr r}"

definition queued_ok :: "intake_env \<Rightarrow> tenant_registry set \<Rightarrow> run_submission \<Rightarrow> bool" where
  "queued_ok ix regs rs \<longleftrightarrow> (\<exists>reg\<in>regs. \<exists>sub. signed_by_tenant ix reg sub \<and> resolve ix sub = Some rs)"

lemma queued_okI: "reg \<in> regs \<Longrightarrow> signed_by_tenant ix reg sub \<Longrightarrow> resolve ix sub = Some rs \<Longrightarrow> queued_ok ix regs rs"
  by (auto simp: queued_ok_def)

definition intake_inv :: "intake_env \<Rightarrow> tenant_registry set \<Rightarrow> nat \<Rightarrow> intake \<Rightarrow> bool" where
  "intake_inv ix regs cap st \<longleftrightarrow>
     in_cap st = cap \<and> length (in_queue st) \<le> cap \<and> (\<exists>au. in_auth st = Some au \<and> au_registry au \<in> regs) \<and>
     list_all (queued_ok ix regs) (in_queue st)"

lemma intake_step_inv:
  assumes inv: "intake_inv ix regs cap st" and reload: "\<And>file r. e = EvReload file \<Longrightarrow> tenant_load file = Inr r \<Longrightarrow> r \<in> regs"
  shows "intake_inv ix regs cap (intake_step ix e st)"
proof (cases e)
  case (EvLine clk line)
  obtain au where au: "in_auth st = Some au" "au_registry au \<in> regs" using inv by (auto simp: intake_inv_def)
  let ?t = "read_line ix clk line st"
  note q = read_line_queue [of ix clk line st]
  obtain au' where au': "in_auth ?t = Some au'" "au_registry au' \<in> regs" using q au by (cases "in_auth ?t") auto
  have "length (in_queue ?t) \<le> cap \<and> list_all (queued_ok ix regs) (in_queue ?t)"
    using q inv au by (auto simp: intake_inv_def intro: queued_okI)
  then show ?thesis using EvLine inv q au' by (auto simp: intake_inv_def)
next
  case EvTake
  then show ?thesis using inv by (cases "in_queue st") (auto simp: intake_inv_def)
next
  case (EvReload "file")
  then show ?thesis using inv reload by (auto simp: intake_inv_def reload_registry_def split: option.splits sum.splits)
qed (use inv in \<open>auto simp: intake_inv_def\<close>)

section \<open>An example\<close>

text \<open>One tenant with two tokens and no refill, and a parser that reads every line as the same
  signed submission.\<close>

definition toy_key :: bytes where
  "toy_key = 9 # replicate 31 0"

definition toy_sub :: job_submission where
  "toy_sub = SubLegacy \<lparr>lj_kind = Add, lj_a = 1, lj_b = 2, lj_deadline_secs = 60, lj_tenant_id = Some 1, lj_nonce = Some 7,
     lj_pubkey_hex = Some (hex_encode toy_key), lj_signature_hex = Some (hex_encode (toy_key @ replicate 32 3))\<rparr>"

definition toy_ix :: intake_env where
  "toy_ix = \<lparr>ix_json = \<lparr>sj_value = (\<lambda>_. Some False), sj_legacy = (\<lambda>_. case toy_sub of SubLegacy l \<Rightarrow> Some l | _ \<Rightarrow> None), sj_pipeline = (\<lambda>_. None)\<rparr>,
     ix_crypto = toy_crypto, ix_enc = (\<lambda>_. Inr (replicate 32 3)), ix_enc_pipeline = (\<lambda>_. Inr []), ix_decode = (\<lambda>_. None),
     ix_wasm = toy_wasm, ix_add_wasm = [1], ix_mul_wasm = [2]\<rparr>"

definition toy_auth :: auth_state where
  "toy_auth = \<lparr>au_registry = [(1, sample_tenant 2)], au_limiter = rl_new 0 0, au_replay = rg_new 10\<rparr>"

lemma toy_credentials: "credentials toy_ix toy_sub = Some (1, 7, toy_key, toy_key @ replicate 32 3, Inr (replicate 32 3))"
  by (simp add: toy_sub_def toy_ix_def hex_field_roundtrip tenant_parse_hex32_def tenant_hex.decode_encode toy_key_def canonical_bytes_def)

lemma toy_authentic: "authentic toy_crypto (sample_tenant c) toy_key (Inr (replicate 32 3)) (toy_key @ replicate 32 3)"
  by (simp add: authentic_def toy_crypto_def tenant_fingerprint_def verify_def toy_key_def)

lemma toy_ix_crypto [simp]: "ix_crypto toy_ix = toy_crypto"
  by (simp add: toy_ix_def)

lemma toy_checked: "snd (snd (check_submission toy_ix (5, 5, 5, 5) toy_sub (au_registry toy_auth) (au_limiter toy_auth) (au_replay toy_auth))) = AuthOk"
  unfolding check_submission_gate toy_credentials
  by (simp add: admit_gate_def toy_auth_def toy_authentic tenant_get_def rg_accept_def rg_sweep_def rg_new_def
      rl_accept_with_config_def rl_new_def tb_new_def tb_try_consume_def tb_refill_def hm_get_or_def Let_def hm_contains_def hm_retain_def
      tb_new_tokens_def sat_sub_def sat_add_def)

lemma toy_checked_eq:
  "\<exists>rl rg. check_submission toy_ix (5, 5, 5, 5) toy_sub (au_registry toy_auth) (au_limiter toy_auth) (au_replay toy_auth) = (rl, rg, AuthOk)"
  using toy_checked by (metis prod.collapse)

lemma toy_guard: "rg_inv (au_replay toy_auth)" "rg_ttl_ns (au_replay toy_auth) = 10"
  by (simp_all add: toy_auth_def rg_new_def rg_inv_def)

section \<open>Properties\<close>

text \<open>C7: With the gate on, only signed work is queued, and never more than the capacity: after any sequence
  of input lines, dequeues and registry reloads, every submission in the queue is the translation of a
  submission whose signature, over its canonical payload, verifies under a key with the fingerprint a
  tenant registered, in a registry that was in force during the run.\<close>
theorem queued_work_is_signed:
  "let st = fold (intake_step ix) evs (intake_start (Some au) cap) in
   length (in_queue st) \<le> cap \<and> list_all (queued_ok ix (registries (au_registry au) evs)) (in_queue st)"
proof -
  let ?R = "registries (au_registry au) evs"
  have "set es \<subseteq> set evs \<Longrightarrow> intake_inv ix ?R cap st \<Longrightarrow> intake_inv ix ?R cap (fold (intake_step ix) es st)" for es st
  proof (induction es arbitrary: st)
    case (Cons e es)
    have "intake_inv ix ?R cap (intake_step ix e st)"
      by (rule intake_step_inv [OF Cons.prems(2)]) (use Cons.prems(1) in \<open>auto simp: registries_def\<close>)
    then show ?case using Cons by simp
  qed simp
  moreover have "intake_inv ix ?R cap (intake_start (Some au) cap)"
    by (simp add: intake_inv_def intake_start_def registries_def)
  ultimately show ?thesis by (simp add: intake_inv_def Let_def)
qed

text \<open>A gate that admitted a submission, asked again about the same submission: inside the window it
  is a replay, after the window it is admitted again if there is a token.\<close>

lemma check_again:
  assumes ok: "check_submission ix clk sub registry rl rg = (rl1, rg1, AuthOk)"
    and rg: "rg_inv rg" "rg_ttl_ns rg \<noteq> 0"
  shows "in_window (rg_ttl_ns rg) (fst (snd (snd clk))) (fst (snd clk')) \<Longrightarrow>
      snd (snd (check_submission ix clk' sub registry rl' rg1)) = ReplayDetected"
    and "\<not> in_window (rg_ttl_ns rg) (fst (snd (snd clk))) (fst (snd clk')) \<Longrightarrow> abs_diff (fst (snd (snd clk'))) (fst clk') \<le> rg_ttl_ns rg \<Longrightarrow>
      (\<And>t rec. tenant_get registry t = Some rec \<Longrightarrow>
         snd (rl_accept_with_config (snd (snd (snd clk'))) t 1 (tn_rate_capacity rec) (tn_rate_refill_per_sec rec) rl')) \<Longrightarrow>
      snd (snd (check_submission ix clk' sub registry rl' rg1)) = AuthOk"
proof -
  obtain t nonce pk sg buf where c: "credentials ix sub = Some (t, nonce, pk, sg, buf)"
    and g: "admit_gate (tenant_get registry t) (\<lambda>rec. authentic (ix_crypto ix) rec pk buf sg) t
            (fold_replay_key (ix_crypto ix) t nonce) (fst clk) (snd clk) rl rg = (rl1, rg1, AuthOk)"
    using ok unfolding check_submission_gate by (auto split: option.splits)
  let ?key = "fold_replay_key (ix_crypto ix) t nonce"
  let ?acc = "rg_accept (fst (snd clk)) (fst (snd (snd clk))) ?key (fst clk) rg"
  obtain rec where rec: "tenant_get registry t = Some rec" "authentic (ix_crypto ix) rec pk buf sg"
    and rg1: "rg1 = fst ?acc" and acc: "snd ?acc = Inr ()"
    using admit_gate_unadmitted [OF g] by auto
  have inv: "rg_inv rg1" "rg_ttl_ns rg1 = rg_ttl_ns rg"
    using replay_step_inv [OF rg(1), of "Accept (fst (snd clk)) (fst (snd (snd clk))) ?key (fst clk)"] by (simp_all add: rg1)
  have known: "hm_get (rg_accepted rg1) ?key = Some (fst (snd (snd clk)))" using rg_accept_records [OF acc] by (simp add: rg1)
  show "snd (snd (check_submission ix clk' sub registry rl' rg1)) = ReplayDetected"
    if "in_window (rg_ttl_ns rg) (fst (snd (snd clk))) (fst (snd clk'))"
    using rg_accept_known [OF inv(1) known, of "fst (snd clk')"] that rg(2) rec c inv(2)
    by (simp add: check_submission_gate admit_gate_def)
  show "snd (snd (check_submission ix clk' sub registry rl' rg1)) = AuthOk"
    if late: "\<not> in_window (rg_ttl_ns rg) (fst (snd (snd clk))) (fst (snd clk'))"
      and fresh: "abs_diff (fst (snd (snd clk'))) (fst clk') \<le> rg_ttl_ns rg"
      and token: "\<And>t rec. tenant_get registry t = Some rec \<Longrightarrow>
         snd (rl_accept_with_config (snd (snd (snd clk'))) t 1 (tn_rate_capacity rec) (tn_rate_refill_per_sec rec) rl')"
  proof -
    have "hm_get (rg_accepted (rg_sweep (fst (snd clk')) rg1)) ?key = None"
      using known late inv by (simp add: rg_sweep_def rg_inv_def hm_get_retain in_window_iff)
    then have "snd (rg_accept (fst (snd clk')) (fst (snd (snd clk'))) ?key (fst clk') rg1) = Inr ()"
      using fresh inv(2) by (simp add: rg_accept_def Let_def hm_contains_def not_less)
    then show ?thesis using token [OF rec(1)] rec c by (simp add: check_submission_gate admit_gate_def case_prod_beta)
  qed
qed

text \<open>A submission dropped because the queue is full is lost for good inside the replay window: its nonce
  has been recorded, so when the sender repeats the line after the queue has room again, the gate calls
  it a replay and the queue stays as it is.\<close>
theorem dropped_submission_burnt:
  assumes st: "in_auth st = Some au" "in_receiver st" "length (in_queue st) = in_cap st" "utf8_valid line"
      "trim line \<noteq> []" "hd (trim line) \<noteq> 35" "parse_submission_line (ix_json ix) (trim line) = Some sub"
    and ok: "check_submission ix clk sub (au_registry au) (au_limiter au) (au_replay au) = (rl, rg, AuthOk)"
    and guard: "rg_inv (au_replay au)" "rg_ttl_ns (au_replay au) \<noteq> 0"
    and soon: "in_window (rg_ttl_ns (au_replay au)) (fst (snd (snd clk))) (fst (snd clk'))"
  shows "in_queue (read_line ix clk line st) = in_queue st \<and>
    in_queue (read_line ix clk' line (intake_step ix EvTake (read_line ix clk line st))) = tl (in_queue st)"
proof -
  let ?au = "au\<lparr>au_limiter := rl, au_replay := rg\<rparr>"
  have first: "read_line ix clk line st = st\<lparr>in_auth := Some ?au\<rparr>"
    using st ok by (auto simp: read_line_def Let_def admit_def try_send_def split: option.split)
  obtain rl2 rg2 v where again: "check_submission ix clk' sub (au_registry au) rl rg = (rl2, rg2, v)" by (metis prod_cases3)
  then have "v = ReplayDetected" using check_again(1) [OF ok guard soon, of rl] by simp
  then show ?thesis using st again unfolding first by (simp add: read_line_def Let_def admit_def)
qed

theorem dropped_submission_burnt_witness:
  "let rs = the (resolve toy_ix toy_sub);
       st = \<lparr>in_auth = Some toy_auth, in_queue = [rs], in_cap = 1, in_reading = True, in_receiver = True\<rparr>
   in in_queue (read_line toy_ix (5, 5, 5, 5) [120] st) = [rs] \<and>
      in_queue (read_line toy_ix (8, 8, 8, 8) [120] (intake_step toy_ix EvTake (read_line toy_ix (5, 5, 5, 5) [120] st))) = []"
proof -
  let ?rs = "the (resolve toy_ix toy_sub)"
  let ?st = "\<lparr>in_auth = Some toy_auth, in_queue = [?rs], in_cap = 1, in_reading = True, in_receiver = True\<rparr>"
  obtain rl rg where ok: "check_submission toy_ix (5, 5, 5, 5) toy_sub (au_registry toy_auth) (au_limiter toy_auth) (au_replay toy_auth) = (rl, rg, AuthOk)"
    using toy_checked_eq by blast
  have "in_queue (read_line toy_ix (5, 5, 5, 5) [120] ?st) = in_queue ?st \<and>
      in_queue (read_line toy_ix (8, 8, 8, 8) [120] (intake_step toy_ix EvTake (read_line toy_ix (5, 5, 5, 5) [120] ?st))) = tl (in_queue ?st)"
    by (rule dropped_submission_burnt [OF _ _ _ _ _ _ _ ok toy_guard(1)])
      (simp_all add: toy_guard in_window_def trim_def is_space_def parse_submission_line_def toy_ix_def toy_sub_def)
  then show ?thesis by (simp only: Let_def intake.simps list.sel)
qed

text \<open>A signed submission can be replayed after five minutes: the payload carries no time, the timestamp
  given to the replay guard is the coordinator's own clock, and the guard forgets a nonce when its time
  to live has passed. A recorded line is admitted again, unchanged, as soon as the window is over and the
  tenant has a token.\<close>
theorem expired_nonce_replays:
  assumes ok: "check_submission ix clk sub registry rl rg = (rl1, rg1, AuthOk)" and guard: "rg_inv rg" "rg_ttl_ns rg \<noteq> 0"
    and late: "unat (fst (snd (snd clk))) + unat (rg_ttl_ns rg) \<le> unat (fst (snd clk'))"
    and clock: "abs_diff (fst (snd (snd clk'))) (fst clk') \<le> rg_ttl_ns rg"
    and token: "\<And>t rec. tenant_get registry t = Some rec \<Longrightarrow>
         snd (rl_accept_with_config (snd (snd (snd clk'))) t 1 (tn_rate_capacity rec) (tn_rate_refill_per_sec rec) rl')"
  shows "snd (snd (check_submission ix clk' sub registry rl' rg1)) = AuthOk"
  using check_again(2) [OF ok guard _ clock token] late by (auto simp: in_window_def)

theorem expired_nonce_replays_witness:
  "let (rl, rg, v) = check_submission toy_ix (5, 5, 5, 5) toy_sub (au_registry toy_auth) (au_limiter toy_auth) (au_replay toy_auth) in
   v = AuthOk \<and> snd (snd (check_submission toy_ix (20, 20, 20, 20) toy_sub (au_registry toy_auth) (au_limiter toy_auth) rg)) = AuthOk"
proof -
  obtain rl rg where ok: "check_submission toy_ix (5, 5, 5, 5) toy_sub (au_registry toy_auth) (au_limiter toy_auth) (au_replay toy_auth) = (rl, rg, AuthOk)"
    using toy_checked_eq by blast
  have "snd (snd (check_submission toy_ix (20, 20, 20, 20) toy_sub (au_registry toy_auth) (au_limiter toy_auth) rg)) = AuthOk"
    by (rule expired_nonce_replays [OF ok toy_guard(1)])
      (auto simp: toy_auth_def rg_new_def tenant_get_def rl_accept_with_config_def rl_new_def tb_new_def tb_try_consume_def tb_refill_def
        hm_get_or_def Let_def tb_new_tokens_def sat_sub_def sat_add_def abs_diff_def split: if_splits)
  then show ?thesis using ok by simp
qed

text \<open>One byte of invalid UTF-8 on the input ends the intake: unlike a malformed line, which is skipped, it
  makes the reader stop, and no later line is read, however well formed.\<close>
theorem invalid_utf8_ends_intake:
  assumes "in_reading st" "\<not> utf8_valid line"
  shows "fold (intake_step ix) (EvLine clk line # map (\<lambda>(c, l). EvLine c l) later) st = st\<lparr>in_reading := False\<rparr>"
proof -
  have "\<not> in_reading t \<Longrightarrow> fold (intake_step ix) (map (\<lambda>(c, l). EvLine c l) later) t = t" for t
    by (induction later) auto
  then show ?thesis using assms by (simp add: read_line_def)
qed

theorem invalid_utf8_ends_intake_witness:
  "fold (intake_step toy_ix) [EvLine (5, 5, 5, 5) [255], EvLine (6, 6, 6, 6) [120]] (intake_start None 4) =
     (intake_start None 4)\<lparr>in_reading := False\<rparr>"
  using invalid_utf8_ends_intake [of "intake_start None 4" "[255]" toy_ix "(5, 5, 5, 5)" "[((6, 6, 6, 6), [120])]"]
  by (simp add: intake_start_def)

end
