(* ===== verification/Agent.thy ===== *)
theory Agent
  imports Fleet
begin

text \<open>
  The agent (\<open>cosaci-agent/src/main.rs\<close>): it registers, answers every seed with its VRF
  output, executes what it is assigned and sends back a signed attestation. Its side of the
  connection is a function from the messages it is sent to what the coordinator reads; an
  agent whose process has ended is a connection on which every further read fails.
\<close>

section \<open>Identity\<close>

text \<open>The libraries and, for each job, the machine the pipeline runs on.\<close>

record 't agent_env =
  ax_crypto :: crypto
  ax_codec :: "envelope codec"
  ax_att :: "attestation codec"
  ax_vrf :: "'t vrf_lib"
  ax_rnd :: "bytes \<Rightarrow> bytes"
  ax_exec :: "u64 \<Rightarrow> u64 \<Rightarrow> exec_env"

definition agent_signing :: "u64 \<Rightarrow> keypair" where
  "agent_signing i = \<lparr>kp_seed = le_bytes 8 i @ replicate 24 0\<rparr>"

definition agent_vrf :: "u64 \<Rightarrow> vrf_keypair" where
  "agent_vrf i = vrf_from_seed (le_bytes 8 i @ [0xff] @ replicate 23 0)"

definition agent_capabilities :: capabilities where
  "agent_capabilities = \<lparr>cap_cpu = 4, cap_memory_mb = 4096, cap_platform = LinuxX86_64, cap_runtimes = {Wasm}\<rparr>"

definition u64_to_uuid :: "u64 \<Rightarrow> bytes" where
  "u64_to_uuid i = le_bytes 8 i @ replicate 8 0"

definition agent_register :: "'t agent_env \<Rightarrow> u64 \<Rightarrow> u64 \<Rightarrow> envelope" where
  "agent_register ax i stake =
     (case vrf_evaluate (ax_vrf ax) (agent_vrf i) (ax_rnd ax VRF_REGISTRATION_CHALLENGE) VRF_REGISTRATION_CHALLENGE of
        (out, prf) \<Rightarrow> Register i (keypair_verifying_key (ax_crypto ax) (agent_signing i)) (vrf_public_key_bytes (ax_vrf ax) (agent_vrf i))
          out prf stake agent_capabilities)"

section \<open>The main loop\<close>

definition agent_claim :: "'t agent_env \<Rightarrow> u64 \<Rightarrow> u64 \<Rightarrow> bytes \<Rightarrow> envelope" where
  "agent_claim ax i job_id seed =
     (case vrf_evaluate (ax_vrf ax) (agent_vrf i) (ax_rnd ax seed) seed of (out, prf) \<Rightarrow> VrfClaim job_id out prf)"

definition agent_attestation :: "'t agent_env \<Rightarrow> u64 \<Rightarrow> u64 \<Rightarrow> int \<Rightarrow> bytes \<Rightarrow> attestation" where
  "agent_attestation ax i job_id deadline artifact =
     sign_with (ax_crypto ax) (ax_att ax) (agent_signing i)
       \<lparr>at_version = att_VERSION, at_job_id = u64_to_uuid job_id, at_commit = replicate 32 0x42, at_runner_id = i,
        at_result = APass, at_environment_hash = replicate 32 0xee, at_artifact_hash = artifact,
        at_timestamp_unix_ns = of_int deadline, at_signature = replicate 64 0\<rparr>"

text \<open>What the agent does with a message: answer, go on, or end, normally or with an error.
  \<open>None\<close>: the pipeline does not return.\<close>

datatype agent_action = Answer envelope | GoOn | Finish | Abort

fun agent_handle :: "'t agent_env \<Rightarrow> u64 \<Rightarrow> envelope \<Rightarrow> agent_action option" where
  "agent_handle ax i (JobSeed job_id seed) = Some (Answer (agent_claim ax i job_id seed))"
| "agent_handle ax i (Assign job_id p requirements deadline) =
     (case execute_pipeline (ax_exec ax i job_id) p of
        None \<Rightarrow> None
      | Some (Inl _) \<Rightarrow> Some Abort
      | Some (Inr result) \<Rightarrow>
          Some (Answer (SubmitAttestation \<lparr>ab_attestation = agent_attestation ax i job_id deadline (pr_final_artifact_hash result),
            ab_captures = pr_captures result\<rparr>)))"
| "agent_handle ax i Shutdown = Some Finish"
| "agent_handle ax i _ = Some GoOn"

fun agent_loop :: "'t agent_env \<Rightarrow> u64 \<Rightarrow> envelope list \<Rightarrow> incoming list" where
  "agent_loop ax i [] = []"
| "agent_loop ax i (m # ms) =
     (case agent_handle ax i m of
        None \<Rightarrow> []
      | Some (Answer e) \<Rightarrow>
          if MAX_ENVELOPE_BYTES_PUB < length (cd_encode (ax_codec ax) e) then replicate (Suc (length ms)) InError
          else InMsg e # agent_loop ax i ms
      | Some GoOn \<Rightarrow> agent_loop ax i ms
      | Some _ \<Rightarrow> replicate (Suc (length ms)) InError)"

text \<open>The whole process: it goes on only after the acknowledgement.\<close>

definition agent_main :: "'t agent_env \<Rightarrow> u64 \<Rightarrow> u64 \<Rightarrow> envelope list \<Rightarrow> incoming list" where
  "agent_main ax i stake ms =
     (if MAX_ENVELOPE_BYTES_PUB < length (cd_encode (ax_codec ax) (agent_register ax i stake)) then replicate (Suc (length ms)) InError
      else InMsg (agent_register ax i stake) #
        (case ms of [] \<Rightarrow> [] | m # ms' \<Rightarrow> if m = RegisterAck then agent_loop ax i ms' else replicate (length ms) InError))"

end
