(* ===== verification/Job_Runner.thy ===== *)
theory Job_Runner
  imports Fleet Read_Api Reputation Partial_Quorum Journal
begin

text \<open>
  One job from submission to anchoring, and the coordinator's job loop
  (\<open>run_one_job\<close> and \<open>main\<close> in \<open>cosaci-coordinator/src/main.rs\<close>). The state is what
  the loop mutates: the agents' connections, the stake ledger, the log, the job records,
  the journal (\<open>None\<close> when there is none) and the capture files. What differs from job to
  job in the world around - clock, file faults, the iteration order of a hash map - is a
  function of the job id in \<open>job_env\<close>. A run that waits for ever for an agent's claim, or
  panics, has the value \<open>None\<close>. A bounded read that times out is taken to have read
  nothing of the message that comes after it.
\<close>

section \<open>State and environment\<close>

record coordinator =
  cs_agents :: "agent list"
  cs_ledger :: stake_ledger
  cs_log :: log_backend
  cs_records :: "(u64, job_record) hmap"
  cs_journal :: "journal option"
  cs_files :: capture_files

record 't job_env =
  jx_crypto :: crypto
  jx_codec :: "envelope codec"
  jx_att :: "attestation codec"
  jx_captures :: "captured_output list codec"
  jx_json :: json
  jx_cbor :: "pipeline \<Rightarrow> bytes"
  jx_vrf :: "'t vrf_lib"
  jx_merkle :: merkle_lib
  jx_captures_dir :: bytes
  jx_slash_fraction :: fval
  jx_now_ns :: "u64 \<Rightarrow> int"
  jx_hash_order :: "u64 \<Rightarrow> (bytes, u32) hmap \<Rightarrow> (bytes, u32) hmap"
  jx_log_fault :: "u64 \<Rightarrow> fault"
  jx_journal_fault :: "journal_entry \<Rightarrow> fault"
  jx_dir_writable :: "u64 \<Rightarrow> u64 \<Rightarrow> bool"

text \<open>A journal that cannot be written is passed over.\<close>

definition journal_note :: "'t job_env \<Rightarrow> journal_entry \<Rightarrow> coordinator \<Rightarrow> coordinator" where
  "journal_note jx e s = s\<lparr>cs_journal :=
     map_option (\<lambda>jn. fst (journal_append (jx_json jx) (jx_journal_fault jx e) e jn)) (cs_journal s)\<rparr>"

fun outcome_to_journal :: "outcome \<Rightarrow> journal_outcome" where
  "outcome_to_journal Pass = JPass"
| "outcome_to_journal Fail = JFail"
| "outcome_to_journal Retry = JRetry"
| "outcome_to_journal Escalate = JEscalate"

definition job_seed_bytes :: "u64 \<Rightarrow> bytes" where
  "job_seed_bytes job_id = le_bytes 8 job_id @ replicate 23 0 @ [0xab]"

definition hex_lower :: "bytes \<Rightarrow> bytes" where
  "hex_lower bs = hex_encode bs"

section \<open>The VRF round\<close>

fun send_all :: "envelope codec \<Rightarrow> envelope \<Rightarrow> (agent \<Rightarrow> bool) \<Rightarrow> agent list \<Rightarrow> agent list \<times> bool" where
  "send_all c m p [] = ([], True)"
| "send_all c m p (a # as) =
     (if \<not> p a then (case send_all c m p as of (as', ok) \<Rightarrow> (a # as', ok))
      else case send c m a of
        (a', False) \<Rightarrow> (a' # as, False)
      | (a', True) \<Rightarrow> (case send_all c m p as of (as', ok) \<Rightarrow> (a' # as', ok)))"

definition claim_of :: "'t vrf_lib \<Rightarrow> u64 \<Rightarrow> bytes \<Rightarrow> agent \<Rightarrow> envelope \<Rightarrow> (u64 \<times> bytes) list" where
  "claim_of vl job_id seed a m =
     (case m of
        VrfClaim claim_job_id vrf_output vrf_proof \<Rightarrow>
          if claim_job_id \<noteq> job_id then []
          else if vrf_verify vl (ag_vrf_pk a) seed vrf_output vrf_proof \<noteq> Inr () then []
          else [(ag_runner_id a, vrf_output)]
      | _ \<Rightarrow> [])"

text \<open>\<open>None\<close>: waiting for ever. Otherwise the agents with what is left of their inboxes,
  and the claims, or \<open>None\<close> when a read failed and the job is given up.\<close>

fun collect_claims :: "'t vrf_lib \<Rightarrow> u64 \<Rightarrow> bytes \<Rightarrow> agent list \<Rightarrow> (agent list \<times> (u64 \<times> bytes) list option) option" where
  "collect_claims vl job_id seed [] = Some ([], Some [])"
| "collect_claims vl job_id seed (a # as) =
     (case await (ag_inbox a) of
        None \<Rightarrow> None
      | Some (InMsg m, rest) \<Rightarrow>
          (case collect_claims vl job_id seed as of
             None \<Rightarrow> None
           | Some (as', cs) \<Rightarrow> Some (a\<lparr>ag_inbox := rest\<rparr> # as', map_option (\<lambda>cs. claim_of vl job_id seed a m @ cs) cs))
      | Some (_, rest) \<Rightarrow> Some (a\<lparr>ag_inbox := rest\<rparr> # as, None))"

definition job_candidates :: "agent list \<Rightarrow> (u64 \<times> bytes) list \<Rightarrow> u64 candidate list" where
  "job_candidates agents claims =
     (let agent_caps = fold (\<lambda>a. hm_insert (ag_runner_id a) (ag_capabilities a)) agents [] in
      List.map_filter (\<lambda>(i, out). map_option (\<lambda>caps. \<lparr>cd_id = i, cd_capabilities = caps, cd_vrf_output = out\<rparr>) (hm_get agent_caps i)) claims)"

section \<open>Collecting attestations\<close>

definition receive_bundle :: "'t job_env \<Rightarrow> u64 \<Rightarrow> agent \<Rightarrow> attestation_bundle \<Rightarrow> coordinator \<Rightarrow> coordinator \<times> attestation option" where
  "receive_bundle jx job_id a b s =
     (let sig_ok = verify_signature (jx_crypto jx) (jx_att jx) (ab_attestation b) (ag_signing_pk a);
          s1 = (if sig_ok \<and> ab_captures b \<noteq> [] \<and> jx_captures_dir jx \<noteq> [] then
                  s\<lparr>cs_files := fst (persist_captures (jx_captures jx) (jx_dir_writable jx job_id (ag_runner_id a)) (jx_captures_dir jx) job_id (ag_runner_id a)
                      (ab_captures b) (cs_files s))\<rparr>
                else s) in
      if sig_ok then (journal_note jx (AttestationReceived job_id (ag_runner_id a)) s1, Some (ab_attestation b))
      else (s1, None))"

text \<open>The loop over the agents: the attestations accepted, the runners missing.\<close>

fun collect_attestations ::
  "'t job_env \<Rightarrow> u64 \<Rightarrow> u64 list \<Rightarrow> agent list \<Rightarrow> coordinator \<Rightarrow> agent list \<times> coordinator \<times> attestation list \<times> u64 list" where
  "collect_attestations jx job_id committee [] s = ([], s, [], [])"
| "collect_attestations jx job_id committee (a # as) s =
     (if ag_runner_id a \<notin> set committee then
        (case collect_attestations jx job_id committee as s of (as', s', atts, missing) \<Rightarrow> (a # as', s', atts, missing))
      else case await_timeout (ag_inbox a) of
        (Some (SubmitAttestation b), rest) \<Rightarrow>
          (case receive_bundle jx job_id a b s of (s1, r) \<Rightarrow>
            (case collect_attestations jx job_id committee as s1 of (as', s', atts, missing) \<Rightarrow>
               (a\<lparr>ag_inbox := rest\<rparr> # as', s',
                case r of Some att \<Rightarrow> (att # atts, missing) | None \<Rightarrow> (atts, ag_runner_id a # missing))))
      | (_, rest) \<Rightarrow>
          (case collect_attestations jx job_id committee as s of (as', s', atts, missing) \<Rightarrow>
             (a\<lparr>ag_inbox := rest\<rparr> # as', s', atts, ag_runner_id a # missing)))"

section \<open>Aggregation and anchoring\<close>

definition vote_of :: "attestation \<Rightarrow> vote" where
  "vote_of att = \<lparr>vote_runner_id = at_runner_id att, vote_result = (case at_result att of APass \<Rightarrow> VPass | AFail \<Rightarrow> VFail)\<rparr>"

definition artifact_counts :: "attestation list \<Rightarrow> (bytes, u32) hmap" where
  "artifact_counts atts = fold (\<lambda>att m. hm_insert (at_artifact_hash att) (hm_get_or 0 m (at_artifact_hash att) + 1) m) atts []"

text \<open>\<open>max_by_key\<close>: the last of the greatest.\<close>

fun max_by_count :: "(bytes \<times> u32) option \<Rightarrow> (bytes \<times> u32) list \<Rightarrow> (bytes \<times> u32) option" where
  "max_by_count best [] = best"
| "max_by_count best (x # xs) =
     max_by_count (case best of None \<Rightarrow> Some x | Some b \<Rightarrow> if snd b \<le> snd x then Some x else Some b) xs"

definition consensus_artifact :: "'t job_env \<Rightarrow> u64 \<Rightarrow> attestation list \<Rightarrow> bytes" where
  "consensus_artifact jx job_id atts =
     (case max_by_count None (jx_hash_order jx job_id (artifact_counts atts)) of Some (k, _) \<Rightarrow> k | None \<Rightarrow> replicate 32 0)"

definition committee_threshold :: "stake_map \<Rightarrow> u64 list \<Rightarrow> weight" where
  "committee_threshold stakes committee = div_ceil (sum_list (map (hm_get_or 0 stakes) committee) * 2) 3"

definition fval_positive :: "fval \<Rightarrow> bool" where
  "fval_positive f = (case f of NaN \<Rightarrow> False | NegInf \<Rightarrow> False | PosInf \<Rightarrow> True | Fin x \<Rightarrow> 0 < x)"

definition slash_step :: "'t job_env \<Rightarrow> outcome \<Rightarrow> bytes \<Rightarrow> attestation list \<Rightarrow> coordinator \<Rightarrow> coordinator" where
  "slash_step jx oc artifact atts s =
     (if (oc = Pass \<or> oc = Fail) \<and> fval_positive (jx_slash_fraction jx) then
        s\<lparr>cs_ledger := fst (slash_minority artifact atts (jx_slash_fraction jx) (cs_ledger s))\<rparr>
      else s)"

definition anchor_step ::
  "'t job_env \<Rightarrow> u64 \<Rightarrow> pipeline \<Rightarrow> bytes \<Rightarrow> attestation list \<Rightarrow> coordinator \<Rightarrow> (coordinator \<times> bool) option" where
  "anchor_step jx job_id p artifact atts s =
     (case canonical_encoding (jx_cbor jx) p of
        Inl _ \<Rightarrow> Some (s, False)
      | Inr pipeline_bytes \<Rightarrow>
     (case lb_append (jx_log_fault jx job_id) artifact (cs_log s) of
        (lg, Inl _) \<Rightarrow> Some (s\<lparr>cs_log := lg\<rparr>, False)
      | (lg, Inr pos) \<Rightarrow>
          if lb_root (jx_merkle jx) lg = None then None
          else
            Some (journal_note jx (Anchored job_id pos)
             (s\<lparr>cs_log := lg, cs_records := hm_insert job_id
                 \<lparr>jr_job_id = job_id, jr_pipeline_hash = hash_bytes (jx_crypto jx) pipeline_bytes, jr_committee_attestations = atts,
                  jr_consensus_artifact = artifact, jr_log_position = pos, jr_log_length_at_anchor = lb_len lg\<rparr> (cs_records s)\<rparr>), True)))"

definition aggregate_step ::
  "'t job_env \<Rightarrow> u64 \<Rightarrow> pipeline \<Rightarrow> u64 list \<Rightarrow> attestation list \<Rightarrow> coordinator \<Rightarrow> (coordinator \<times> bool) option" where
  "aggregate_step jx job_id p committee atts s =
     (let stakes = sl_as_stake_map (cs_ledger s);
          oc = aggregate (map vote_of atts) (committee_threshold stakes committee) stakes;
          artifact = consensus_artifact jx job_id atts;
          s1 = slash_step jx oc artifact atts (journal_note jx (Aggregated job_id (outcome_to_journal oc) (hex_lower artifact)) s) in
      if oc = Pass then anchor_step jx job_id p artifact atts s1 else Some (s1, True))"

section \<open>One job\<close>

text \<open>The flag of the result is false when the job was given up with an I/O error.\<close>

definition job_round :: "'t job_env \<Rightarrow> u64 \<Rightarrow> pipeline \<Rightarrow> job_requirements \<Rightarrow> u64 list \<Rightarrow> coordinator \<Rightarrow> (coordinator \<times> bool) option" where
  "job_round jx job_id p requirements committee s =
     (case send_all (jx_codec jx) (Assign job_id p requirements (jx_now_ns jx job_id + 60000000000)) (\<lambda>a. ag_runner_id a \<in> set committee) (cs_agents s) of
        (agents, False) \<Rightarrow> Some (s\<lparr>cs_agents := agents\<rparr>, False)
      | (agents, True) \<Rightarrow>
          (case collect_attestations jx job_id committee agents (s\<lparr>cs_agents := agents\<rparr>) of (agents', s', atts, missing) \<Rightarrow>
             aggregate_step jx job_id p committee atts (s'\<lparr>cs_agents := agents'\<rparr>)))"

definition run_one_job ::
  "'t job_env \<Rightarrow> u64 \<Rightarrow> nat \<Rightarrow> pipeline \<Rightarrow> job_requirements \<Rightarrow> coordinator \<Rightarrow> (coordinator \<times> bool) option" where
  "run_one_job jx job_id committee_size p requirements s0 =
     (let s = journal_note jx (JobSubmitted job_id) s0; seed = job_seed_bytes job_id in
      case send_all (jx_codec jx) (JobSeed job_id seed) (\<lambda>_. True) (cs_agents s) of
        (agents, False) \<Rightarrow> Some (s\<lparr>cs_agents := agents\<rparr>, False)
      | (agents, True) \<Rightarrow>
          (case collect_claims (jx_vrf jx) job_id seed agents of
             None \<Rightarrow> None
           | Some (agents', None) \<Rightarrow> Some (s\<lparr>cs_agents := agents'\<rparr>, False)
           | Some (agents', Some claims) \<Rightarrow>
               (case select_capability_aware_committee (job_candidates agents' claims) requirements committee_size of
                  None \<Rightarrow> Some (s\<lparr>cs_agents := agents'\<rparr>, True)
                | Some committee \<Rightarrow>
                    job_round jx job_id p requirements committee
                      (journal_note jx (CommitteeSelected job_id committee) (s\<lparr>cs_agents := agents'\<rparr>)))))"

section \<open>The job loop\<close>

text \<open>What one turn of the loop observes: a submission, a quarter of a second without one,
  the end of submissions, or the drain flag. Jobs are numbered from one, and the loop goes
  on after a job that was given up. The result is the state after the given turns.\<close>

datatype poll = PollJob pipeline | PollTimeout | PollClosed | PollDrain

definition shutdown_agents :: "'t job_env \<Rightarrow> coordinator \<Rightarrow> coordinator" where
  "shutdown_agents jx s = s\<lparr>cs_agents := map (\<lambda>a. fst (send (jx_codec jx) Shutdown a)) (cs_agents s)\<rparr>"

fun main_loop ::
  "'t job_env \<Rightarrow> nat \<Rightarrow> job_requirements \<Rightarrow> u64 \<Rightarrow> u64 \<Rightarrow> poll list \<Rightarrow> coordinator \<Rightarrow> (u64 \<times> coordinator) option" where
  "main_loop jx committee_size requirements max_jobs completed [] s =
     Some (completed, if completed < max_jobs then s else shutdown_agents jx s)"
| "main_loop jx committee_size requirements max_jobs completed (e # es) s =
     (if \<not> completed < max_jobs then Some (completed, shutdown_agents jx s)
      else case e of
        PollDrain \<Rightarrow> Some (completed, shutdown_agents jx s)
      | PollClosed \<Rightarrow> Some (completed, shutdown_agents jx s)
      | PollTimeout \<Rightarrow> main_loop jx committee_size requirements max_jobs completed es s
      | PollJob p \<Rightarrow>
          (case run_one_job jx (completed + 1) committee_size p requirements s of
             None \<Rightarrow> None
           | Some (s', _) \<Rightarrow> main_loop jx committee_size requirements max_jobs (completed + 1) es s'))"

text \<open>The ledger starts from the stakes the agents declared.\<close>

definition coordinator_start :: "agent list \<Rightarrow> log_backend \<Rightarrow> journal option \<Rightarrow> coordinator" where
  "coordinator_start agents lg jn =
     \<lparr>cs_agents = agents, cs_ledger = sl_from_stake_map (fold (\<lambda>a. hm_insert (ag_runner_id a) (ag_stake a)) agents []),
      cs_log = lg, cs_records = [], cs_journal = jn, cs_files = []\<rparr>"

section \<open>What a job leaves unchanged\<close>

text \<open>What the coordinator knows of an agent, without the state of its connection.\<close>

definition agent_key :: "agent \<Rightarrow> u64 \<times> bytes \<times> bytes \<times> u64 \<times> capabilities" where
  "agent_key a = (ag_runner_id a, ag_signing_pk a, ag_vrf_pk a, ag_stake a, ag_capabilities a)"

lemma agent_key_inbox [simp]: "agent_key (a\<lparr>ag_inbox := x\<rparr>) = agent_key a"
  by (simp add: agent_key_def)

lemma send_key: "send c m a = (a', ok) \<Longrightarrow> agent_key a' = agent_key a"
  by (auto simp: send_def agent_key_def split: option.splits nat.splits if_splits)

lemma send_all_keys: "map agent_key (fst (send_all c m p as)) = map agent_key as"
proof (induction as)
  case (Cons a as)
  then show ?case by (auto split: prod.splits bool.splits dest: send_key)
qed simp

lemma collect_claims_keys: "collect_claims vl j seed as = Some (as', cs) \<Longrightarrow> map agent_key as' = map agent_key as"
proof (induction as arbitrary: as' cs)
  case (Cons a as)
  then show ?case by (auto split: option.splits prod.splits incoming.splits)
qed simp

lemma journal_note_simps [simp]:
  "cs_agents (journal_note jx e s) = cs_agents s" "cs_ledger (journal_note jx e s) = cs_ledger s"
  "cs_log (journal_note jx e s) = cs_log s" "cs_records (journal_note jx e s) = cs_records s"
  "cs_files (journal_note jx e s) = cs_files s"
  by (simp_all add: journal_note_def)

lemma slash_step_simps [simp]:
  "cs_agents (slash_step jx oc x atts s) = cs_agents s" "cs_log (slash_step jx oc x atts s) = cs_log s"
  "cs_records (slash_step jx oc x atts s) = cs_records s" "cs_journal (slash_step jx oc x atts s) = cs_journal s"
  "cs_files (slash_step jx oc x atts s) = cs_files s"
  by (simp_all add: slash_step_def)

section \<open>The journal of a job\<close>

definition journals :: "'t job_env \<Rightarrow> journal_entry list \<Rightarrow> coordinator \<Rightarrow> coordinator \<Rightarrow> bool" where
  "journals jx es s s' \<longleftrightarrow> cs_journal s' =
     map_option (fold (\<lambda>e jn. fst (journal_append (jx_json jx) (jx_journal_fault jx e) e jn)) es) (cs_journal s)"

lemma journals_refl: "cs_journal s' = cs_journal s \<Longrightarrow> journals jx [] s s'"
  by (simp add: journals_def option.map_id)

lemma journals_note: "journals jx [e] s (journal_note jx e s)"
  by (simp add: journals_def journal_note_def)

lemma journals_trans: "journals jx es s s' \<Longrightarrow> journals jx es' s' s'' \<Longrightarrow> journals jx (es @ es') s s''"
  by (simp add: journals_def option.map_comp comp_def)

lemma journals_from: "cs_journal s = cs_journal t \<Longrightarrow> journals jx es s s' \<longleftrightarrow> journals jx es t s'"
  by (simp add: journals_def)

lemma journals_to: "cs_journal s' = cs_journal t \<Longrightarrow> journals jx es s s' \<longleftrightarrow> journals jx es s t"
  by (simp add: journals_def)

section \<open>Collected attestations\<close>

text \<open>An attestation the coordinator counts: signed with the key of an agent that sits on the
  committee.\<close>

definition counted :: "'t job_env \<Rightarrow> u64 list \<Rightarrow> agent list \<Rightarrow> attestation \<Rightarrow> bool" where
  "counted jx committee agents att \<longleftrightarrow>
     (\<exists>k\<in>set (map agent_key agents). fst k \<in> set committee \<and> verify_signature (jx_crypto jx) (jx_att jx) att (fst (snd k)))"

lemma receive_bundle_frame:
  assumes "receive_bundle jx j a b s = (s', r)"
  shows "cs_agents s' = cs_agents s \<and> cs_ledger s' = cs_ledger s \<and> cs_log s' = cs_log s \<and> cs_records s' = cs_records s"
    and "journals jx (case r of None \<Rightarrow> [] | Some _ \<Rightarrow> [AttestationReceived j (ag_runner_id a)]) s s'"
    and "r = (if verify_signature (jx_crypto jx) (jx_att jx) (ab_attestation b) (ag_signing_pk a) then Some (ab_attestation b) else None)"
  using assms by (auto simp: receive_bundle_def Let_def journals_def journal_note_def option.map_id split: if_splits)

lemma collect_attestations_frame:
  assumes "collect_attestations jx j committee as s = (as', s', atts, missing)"
  shows "map agent_key as' = map agent_key as \<and> cs_agents s' = cs_agents s \<and> cs_ledger s' = cs_ledger s
    \<and> cs_log s' = cs_log s \<and> cs_records s' = cs_records s
    \<and> list_all (counted jx committee as) atts
    \<and> length atts + length missing = length (filter (\<lambda>a. ag_runner_id a \<in> set committee) as)
    \<and> (\<exists>rs. journals jx (map (AttestationReceived j) rs) s s')"
  using assms
proof (induction as arbitrary: s as' s' atts missing)
  case Nil
  then show ?case using journals_refl [of s s jx] by (auto intro: exI [of _ "[]"])
next
  case (Cons a as)
  have mono: "counted jx committee as att \<Longrightarrow> counted jx committee (a # as) att" for att
    by (auto simp: counted_def)
  show ?case
  proof (cases "ag_runner_id a \<in> set committee")
    case False
    obtain ys t where rec: "collect_attestations jx j committee as s = (ys, t, atts, missing)" and "as' = a # ys" "s' = t"
      using Cons.prems False by (auto split: prod.splits)
    then show ?thesis using Cons.IH [OF rec] False mono by (auto simp: list_all_iff)
  next
    case True
    obtain got rest where got: "await_timeout (ag_inbox a) = (got, rest)" by fastforce
    show ?thesis
    proof (cases "\<exists>b. got = Some (SubmitAttestation b)")
      case True
      then obtain b s1 r ys t atts1 missing1 where b: "got = Some (SubmitAttestation b)"
        and rb: "receive_bundle jx j a b s = (s1, r)"
        and rec: "collect_attestations jx j committee as s1 = (ys, t, atts1, missing1)"
        by (metis prod_cases4 surj_pair)
      have res: "as' = a\<lparr>ag_inbox := rest\<rparr> # ys" "s' = t"
        "(atts, missing) = (case r of Some att \<Rightarrow> (att # atts1, missing1) | None \<Rightarrow> (atts1, ag_runner_id a # missing1))"
        using Cons.prems \<open>ag_runner_id a \<in> set committee\<close> got b rb rec by auto
      obtain rs where rs: "journals jx (map (AttestationReceived j) rs) s1 t" using Cons.IH [OF rec] by blast
      have "\<exists>rs. journals jx (map (AttestationReceived j) rs) s t"
        using journals_trans [OF receive_bundle_frame(2) [OF rb] rs]
        by (cases r) (auto intro: exI [of _ rs] exI [of _ "ag_runner_id a # rs"])
      moreover have "counted jx committee (a # as) att" if "r = Some att" for att
        using that receive_bundle_frame(3) [OF rb] \<open>ag_runner_id a \<in> set committee\<close>
        by (auto simp: counted_def agent_key_def split: if_splits)
      ultimately show ?thesis
        using Cons.IH [OF rec] receive_bundle_frame(1) [OF rb] res mono \<open>ag_runner_id a \<in> set committee\<close>
        by (cases r) (auto simp: list_all_iff)
    next
      case False
      obtain ys t missing1 where rec: "collect_attestations jx j committee as s = (ys, t, atts, missing1)"
        and "as' = a\<lparr>ag_inbox := rest\<rparr> # ys" "s' = t" "missing = ag_runner_id a # missing1"
        using Cons.prems \<open>ag_runner_id a \<in> set committee\<close> got False
        by (auto split: prod.splits option.splits envelope.splits)
      then show ?thesis using Cons.IH [OF rec] mono \<open>ag_runner_id a \<in> set committee\<close> by (auto simp: list_all_iff)
    qed
  qed
qed

section \<open>The consensus artifact\<close>

lemma artifact_counts_get:
  "hm_get (artifact_counts atts) h =
     (if h \<in> at_artifact_hash ` set atts then Some (of_nat (count_list (map at_artifact_hash atts) h)) else None)"
proof (induction atts arbitrary: h rule: rev_induct)
  case (snoc att atts)
  have "artifact_counts (atts @ [att]) =
      hm_insert (at_artifact_hash att) (hm_get_or 0 (artifact_counts atts) (at_artifact_hash att) + 1) (artifact_counts atts)"
    by (simp add: artifact_counts_def)
  moreover have "hm_get_or 0 (artifact_counts atts) (at_artifact_hash att) = of_nat (count_list (map at_artifact_hash atts) (at_artifact_hash att))"
    using snoc count_notin [of "at_artifact_hash att" "map at_artifact_hash atts"] by (simp add: hm_get_or_def)
  ultimately show ?case using snoc by (simp add: hm_simps)
qed (simp add: artifact_counts_def)

lemma artifact_counts_wf: "hm_wf (artifact_counts atts)"
  by (induction atts rule: rev_induct) (simp_all add: artifact_counts_def)

lemma max_by_count_greatest:
  "best \<noteq> None \<or> xs \<noteq> [] \<Longrightarrow> \<exists>m. max_by_count best xs = Some m \<and> (m \<in> set xs \<or> best = Some m)
     \<and> (\<forall>x. x \<in> set xs \<or> best = Some x \<longrightarrow> snd x \<le> snd m)"
proof (induction xs arbitrary: best)
  case (Cons x xs)
  define best' where "best' = (case best of None \<Rightarrow> Some x | Some b \<Rightarrow> if snd b \<le> snd x then Some x else Some b)"
  then have "best' \<noteq> None" by (simp split: option.split)
  then obtain m where m: "max_by_count best' xs = Some m" "m \<in> set xs \<or> best' = Some m"
    "\<And>y. y \<in> set xs \<or> best' = Some y \<Longrightarrow> snd y \<le> snd m"
    using Cons.IH by blast
  then obtain b where b: "best' = Some b" "snd b \<le> snd m" using \<open>best' \<noteq> None\<close> by blast
  have src: "b = x \<or> best = Some b" and le: "snd x \<le> snd b" "\<And>y. best = Some y \<Longrightarrow> snd y \<le> snd b"
    using b(1) by (auto simp: best'_def split: option.splits if_splits)
  have "snd x \<le> snd m" using le(1) b(2) by (rule order_trans)
  moreover have "snd y \<le> snd m" if "best = Some y" for y using le(2) [OF that] b(2) by (rule order_trans)
  moreover have "m \<in> set (x # xs) \<or> best = Some m" using m(2) b(1) src by auto
  moreover have "max_by_count best (x # xs) = Some m" using m(1) by (simp add: best'_def)
  ultimately show ?case using m(3) by (intro exI [of _ m]) (metis set_ConsD)
qed auto

text \<open>Whatever the order of the hash map: an artifact that some attestation names, and none is
  named more often.\<close>

definition hash_order_ok :: "'t job_env \<Rightarrow> bool" where
  "hash_order_ok jx \<longleftrightarrow> (\<forall>j m. mset (jx_hash_order jx j m) = mset m)"

lemma consensus_artifact_plurality:
  assumes order: "hash_order_ok jx" and ne: "atts \<noteq> []" and few: "length atts < 2 ^ 32"
  shows "consensus_artifact jx j atts \<in> at_artifact_hash ` set atts \<and>
    count_list (map at_artifact_hash atts) h \<le> count_list (map at_artifact_hash atts) (consensus_artifact jx j atts)"
proof -
  let ?m = "artifact_counts atts" and ?c = "count_list (map at_artifact_hash atts)"
  have set: "set (jx_hash_order jx j ?m) = set ?m" using order by (metis hash_order_ok_def set_mset_mset)
  have get: "(k, n) \<in> set ?m \<longleftrightarrow> k \<in> at_artifact_hash ` set atts \<and> n = of_nat (?c k)" for k n
    using artifact_counts_get [of atts k] artifact_counts_wf [of atts] map_of_eq_Some_iff [of ?m k n]
    by (auto simp: hm_wf_def split: if_splits)
  have small: "unat (of_nat (?c k) :: u32) = ?c k" for k
    using count_le_length [of "map at_artifact_hash atts" k] few by (simp add: unat_of_nat)
  have "jx_hash_order jx j ?m \<noteq> []" using set get ne by (metis empty_set ex_in_conv image_is_empty set_empty)
  then obtain k n where kn: "max_by_count None (jx_hash_order jx j ?m) = Some (k, n)" "(k, n) \<in> set ?m"
    "\<And>x. x \<in> set ?m \<Longrightarrow> snd x \<le> n"
    using max_by_count_greatest [of None "jx_hash_order jx j ?m"] set by auto
  have "?c h \<le> ?c k"
  proof (cases "h \<in> at_artifact_hash ` set atts")
    case True
    then have "of_nat (?c h) \<le> (of_nat (?c k) :: u32)" using kn(3) [of "(h, of_nat (?c h))"] kn(2) get by auto
    then show ?thesis by (simp add: word_le_nat_alt small)
  qed simp
  then show ?thesis using kn get by (simp add: consensus_artifact_def)
qed

section \<open>The log\<close>

text \<open>The position an append reports is the place of the entry, also after file faults.\<close>

fun lb_sound :: "log_backend \<Rightarrow> bool" where
  "lb_sound (LogMem l) \<longleftrightarrow> ms_entries (log_store l) = log_entries l"
| "lb_sound (LogFile l) \<longleftrightarrow> fs_len (log_store l) = of_nat (length (log_entries l))"

lemma lb_append_sound: "lb_sound lg \<Longrightarrow> lb_sound (fst (lb_append flt e lg))"
  by (cases lg; cases flt) (simp_all add: log_append_def ms_append_def flog_append_def fs_append_def)

lemma lb_append_pos: "lb_sound lg \<Longrightarrow> lb_append flt e lg = (lg', Inr pos) \<Longrightarrow> pos = of_nat (length (lb_entries lg))"
  by (cases lg; cases flt) (auto simp: log_append_def ms_append_def flog_append_def fs_append_def)

lemma lb_len_entries: "lb_len lg = of_nat (length (lb_entries lg))"
  by (cases lg) (simp_all add: log_len_def)

section \<open>The effect of a job\<close>

text \<open>A committee drawn for a job: the selection among candidates each of which proved its VRF
  output for the seed of this job with the key its agent registered.\<close>

definition proved_candidate :: "'t vrf_lib \<Rightarrow> bytes \<Rightarrow> agent list \<Rightarrow> u64 \<times> bytes \<Rightarrow> bool" where
  "proved_candidate vl seed agents c \<longleftrightarrow>
     (\<exists>k\<in>set (map agent_key agents). fst k = fst c \<and> (\<exists>prf. vrf_verify vl (fst (snd (snd k))) seed (snd c) prf = Inr ()))"

definition committee_drawn :: "'t job_env \<Rightarrow> u64 \<Rightarrow> nat \<Rightarrow> job_requirements \<Rightarrow> agent list \<Rightarrow> u64 list \<Rightarrow> bool" where
  "committee_drawn jx j n req agents committee \<longleftrightarrow>
     (\<exists>cands. select_capability_aware_committee cands req n = Some committee \<and>
        list_all (\<lambda>c. proved_candidate (jx_vrf jx) (job_seed_bytes j) agents (cd_id c, cd_vrf_output c)) cands)"

definition job_unanchored :: "coordinator \<Rightarrow> coordinator \<Rightarrow> bool" where
  "job_unanchored s s' \<longleftrightarrow> lb_entries (cs_log s') = lb_entries (cs_log s) \<and> cs_records s' = cs_records s"

definition job_anchored ::
  "'t job_env \<Rightarrow> u64 \<Rightarrow> pipeline \<Rightarrow> u64 list \<Rightarrow> attestation list \<Rightarrow> coordinator \<Rightarrow> coordinator \<Rightarrow> bool" where
  "job_anchored jx j p committee atts s s' \<longleftrightarrow>
     list_all (counted jx committee (cs_agents s)) atts \<and> length atts \<le> length (cs_agents s) \<and>
     aggregate (map vote_of atts) (committee_threshold (sl_stakes (cs_ledger s)) committee) (sl_stakes (cs_ledger s)) = Pass \<and>
     lb_entries (cs_log s') = lb_entries (cs_log s) @ [consensus_artifact jx j atts] \<and>
     cs_records s' = hm_insert j
       \<lparr>jr_job_id = j, jr_pipeline_hash = hash_bytes (jx_crypto jx) (jx_cbor jx p), jr_committee_attestations = atts,
        jr_consensus_artifact = consensus_artifact jx j atts, jr_log_position = of_nat (length (lb_entries (cs_log s))),
        jr_log_length_at_anchor = of_nat (Suc (length (lb_entries (cs_log s))))\<rparr> (cs_records s)"

lemma collect_claims_proved:
  "collect_claims vl j seed as = Some (as', Some cs) \<Longrightarrow> list_all (proved_candidate vl seed as) cs"
proof (induction as arbitrary: as' cs)
  case (Cons a as)
  obtain m as1 cs1 where "collect_claims vl j seed as = Some (as1, Some cs1)" and cs: "cs = claim_of vl j seed a m @ cs1"
    using Cons.prems by (auto split: option.splits prod.splits incoming.splits)
  then have "list_all (proved_candidate vl seed as) cs1" using Cons.IH by blast
  then have "list_all (proved_candidate vl seed (a # as)) cs1" by (auto simp: proved_candidate_def list_all_iff)
  moreover have "list_all (proved_candidate vl seed (a # as)) (claim_of vl j seed a m)"
    by (auto simp: claim_of_def proved_candidate_def agent_key_def split: envelope.split)
  ultimately show ?case by (simp add: cs)
qed simp

lemma job_candidates_claims:
  "c \<in> set (job_candidates agents claims) \<Longrightarrow> (cd_id c, cd_vrf_output c) \<in> set claims"
  by (auto simp: job_candidates_def List.map_filter_def Let_def)

lemma keys_cong:
  assumes "map agent_key as = map agent_key as'"
  shows "counted jx committee as = counted jx committee as'" "proved_candidate vl seed as = proved_candidate vl seed as'"
  unfolding counted_def proved_candidate_def fun_eq_iff assms by simp_all

lemma hex_lower_ascii: "list_all (\<lambda>b. b < 0x80) (hex_lower bs)"
proof -
  have "b < 0x80" if "0x30 \<le> b \<and> b \<le> 0x66" for b :: u8 using that by (simp add: word_nat)
  then show ?thesis using hex_encode_range [of bs] by (auto simp: hex_lower_def list_all_iff)
qed

lemma aggregate_step_effect:
  assumes step: "aggregate_step jx j p committee atts s = Some (s', ok)" and sound: "lb_sound (cs_log s)"
    and atts: "list_all (counted jx committee (cs_agents s)) atts" "length atts \<le> length (cs_agents s)"
  shows "cs_agents s' = cs_agents s \<and> lb_sound (cs_log s') \<and>
    (\<exists>oc art es. list_all (\<lambda>b. b < 0x80) art \<and> journals jx (Aggregated j oc art # es) s s' \<and>
       (es = [] \<and> job_unanchored s s' \<or>
        es = [Anchored j (of_nat (length (lb_entries (cs_log s))))] \<and> job_anchored jx j p committee atts s s'))"
proof -
  define stakes where "stakes = sl_stakes (cs_ledger s)"
  define oc where "oc = aggregate (map vote_of atts) (committee_threshold stakes committee) stakes"
  define artifact where "artifact = consensus_artifact jx j atts"
  define e where "e = Aggregated j (outcome_to_journal oc) (hex_lower artifact)"
  define s1 where "s1 = slash_step jx oc artifact atts (journal_note jx e s)"
  have j1: "journals jx [e] s s1" using journals_note [of jx e s] by (simp add: s1_def journals_def)
  have s1: "cs_agents s1 = cs_agents s" "cs_log s1 = cs_log s" "cs_records s1 = cs_records s" by (simp_all add: s1_def)
  have eq: "aggregate_step jx j p committee atts s = (if oc = Pass then anchor_step jx j p artifact atts s1 else Some (s1, True))"
    by (simp add: aggregate_step_def Let_def stakes_def oc_def artifact_def e_def s1_def sl_as_stake_map_def)
  show ?thesis
  proof (cases "oc = Pass")
    case False
    then have "s' = s1" using step eq by simp
    then show ?thesis using j1 s1 sound hex_lower_ascii [of artifact]
      by (intro conjI exI [of _ "outcome_to_journal oc"] exI [of _ "hex_lower artifact"] exI [of _ "[]"])
        (simp_all add: e_def job_unanchored_def)
  next
    case True
    obtain lg r where ap: "lb_append (jx_log_fault jx j) artifact (cs_log s) = (lg, r)" by fastforce
    have lg: "lb_sound lg" "lb_entries lg = lb_entries (cs_log s) @ (case r of Inl _ \<Rightarrow> [] | Inr _ \<Rightarrow> [artifact])"
      using lb_append_sound [OF sound, of "jx_log_fault jx j" artifact] lb_append_entries [of "jx_log_fault jx j" artifact "cs_log s"]
      by (simp_all add: ap)
    show ?thesis
    proof (cases r)
      case (Inl x)
      then have "s' = s1\<lparr>cs_log := lg\<rparr>" using step eq True ap s1 by (simp add: anchor_step_def canonical_encoding_def)
      then show ?thesis using j1 s1 lg Inl hex_lower_ascii [of artifact]
        by (intro conjI exI [of _ "outcome_to_journal oc"] exI [of _ "hex_lower artifact"] exI [of _ "[]"])
          (simp_all add: e_def job_unanchored_def journals_def)
    next
      case (Inr pos)
      define s2 where "s2 = s1\<lparr>cs_log := lg, cs_records := hm_insert j
                 \<lparr>jr_job_id = j, jr_pipeline_hash = hash_bytes (jx_crypto jx) (jx_cbor jx p), jr_committee_attestations = atts,
                  jr_consensus_artifact = artifact, jr_log_position = pos, jr_log_length_at_anchor = lb_len lg\<rparr> (cs_records s1)\<rparr>"
      have s': "s' = journal_note jx (Anchored j pos) s2"
        using step eq True ap s1 Inr by (simp add: anchor_step_def canonical_encoding_def s2_def split: if_splits)
      have pos: "pos = of_nat (length (lb_entries (cs_log s)))" using lb_append_pos [OF sound] ap Inr by blast
      have "journals jx ([e] @ [Anchored j pos]) s s'"
        using journals_trans [OF j1, of "[Anchored j pos]" s'] journals_note [of jx "Anchored j pos" s2]
        by (simp add: s' journals_def s2_def)
      moreover have "job_anchored jx j p committee atts s s'"
        using atts True s1 lg Inr pos
        by (simp add: job_anchored_def s' s2_def artifact_def oc_def stakes_def lb_len_entries)
      ultimately show ?thesis using s1 lg(1) pos hex_lower_ascii [of artifact] by (intro conjI exI [of _ "outcome_to_journal oc"] exI [of _ "hex_lower artifact"] exI [of _ "[Anchored j pos]"])
          (simp_all add: s' s2_def e_def)
    qed
  qed
qed

lemma job_effect_cong:
  assumes "cs_log t = cs_log s" "cs_records t = cs_records s" "cs_ledger t = cs_ledger s"
    "map agent_key (cs_agents t) = map agent_key (cs_agents s)"
  shows "job_anchored jx j p committee atts t s' = job_anchored jx j p committee atts s s'"
    "job_unanchored t s' = job_unanchored s s'"
  using keys_cong(1) [OF assms(4), of jx committee] assms(1-3) map_eq_imp_length_eq [OF assms(4)] by (simp_all add: job_anchored_def job_unanchored_def)

text \<open>The entries a job writes: they are about this job, can be written as a line each, and end
  with the anchoring if there is one.\<close>

definition job_journal ::
  "'t job_env \<Rightarrow> u64 \<Rightarrow> pipeline \<Rightarrow> u64 list set \<Rightarrow> coordinator \<Rightarrow> coordinator \<Rightarrow> journal_entry list \<Rightarrow> bool" where
  "job_journal jx j p committees s s' es \<longleftrightarrow>
     list_all (\<lambda>e. je_job e = j \<and> entry_ascii e) es \<and>
     (job_unanchored s s' \<and> list_all (\<lambda>e. \<forall>k pos. e \<noteq> Anchored k pos) es \<or>
      (\<exists>committee\<in>committees. \<exists>atts. job_anchored jx j p committee atts s s') \<and>
      (\<exists>es'. es = es' @ [Anchored j (of_nat (length (lb_entries (cs_log s))))]))"

lemma job_journal_prefix:
  assumes "job_journal jx j p cms s s' es" "list_all (\<lambda>e. je_job e = j \<and> entry_ascii e \<and> (\<forall>k pos. e \<noteq> Anchored k pos)) pre"
  shows "job_journal jx j p cms s s' (pre @ es)"
  using assms unfolding job_journal_def by (auto simp: list_all_iff)

lemma job_round_effect:
  assumes run: "job_round jx j p req committee s = Some (s', ok)" and sound: "lb_sound (cs_log s)"
  shows "map agent_key (cs_agents s') = map agent_key (cs_agents s) \<and> lb_sound (cs_log s') \<and>
    (\<exists>es. journals jx es s s' \<and> job_journal jx j p {committee} s s' es)"
proof -
  obtain agents sent where send: "send_all (jx_codec jx) (Assign j p req (jx_now_ns jx j + 60000000000))
      (\<lambda>a. ag_runner_id a \<in> set committee) (cs_agents s) = (agents, sent)" by fastforce
  have keys: "map agent_key agents = map agent_key (cs_agents s)"
    using send_all_keys [of "jx_codec jx" "Assign j p req (jx_now_ns jx j + 60000000000)" "\<lambda>a. ag_runner_id a \<in> set committee" "cs_agents s"]
    by (simp add: send)
  show ?thesis
  proof (cases sent)
    case False
    then have "s' = s\<lparr>cs_agents := agents\<rparr>" using run send by (simp add: job_round_def)
    then show ?thesis using keys sound journals_refl [of s' s jx]
      by (intro conjI exI [of _ "[]"]) (simp_all add: job_journal_def job_unanchored_def)
  next
    case True
    obtain agents' t atts missing where col: "collect_attestations jx j committee agents (s\<lparr>cs_agents := agents\<rparr>) = (agents', t, atts, missing)"
      by (metis prod_cases4)
    define u where "u = t\<lparr>cs_agents := agents'\<rparr>"
    note fr = collect_attestations_frame [OF col]
    have u: "cs_log u = cs_log s" "cs_records u = cs_records s" "cs_ledger u = cs_ledger s"
      "map agent_key (cs_agents u) = map agent_key (cs_agents s)" using fr keys by (simp_all add: u_def)
    obtain rs where rs: "journals jx (map (AttestationReceived j) rs) s u"
      using fr by (auto simp: u_def journals_def)
    have ag: "aggregate_step jx j p committee atts u = Some (s', ok)" using run send True col by (simp add: job_round_def u_def)
    have "list_all (counted jx committee (cs_agents u)) atts"
      using fr keys_cong(1) [of agents "cs_agents u" jx committee] u(4) keys by simp
    moreover have "length atts \<le> length (cs_agents u)"
      using fr length_filter_le [of "\<lambda>a. ag_runner_id a \<in> set committee" agents] map_eq_imp_length_eq [OF u(4)]
        map_eq_imp_length_eq [OF keys] by linarith
    ultimately have "list_all (counted jx committee (cs_agents u)) atts" "length atts \<le> length (cs_agents u)" by blast+
    from aggregate_step_effect [OF ag _ this] u(1) sound obtain oc art es where
      e: "cs_agents s' = cs_agents u" "lb_sound (cs_log s')" "list_all (\<lambda>b. b < 0x80) art" "journals jx (Aggregated j oc art # es) u s'"
      and es: "es = [] \<and> job_unanchored u s' \<or>
        es = [Anchored j (of_nat (length (lb_entries (cs_log u))))] \<and> job_anchored jx j p committee atts u s'"
      by auto
    have "job_journal jx j p {committee} s s' es"
      using es unfolding job_effect_cong [OF u] u(1) by (auto simp: job_journal_def)
    then have "job_journal jx j p {committee} s s' ((map (AttestationReceived j) rs @ [Aggregated j oc art]) @ es)"
      by (rule job_journal_prefix) (use e(3) in \<open>simp add: list_all_iff\<close>)
    moreover have "journals jx ((map (AttestationReceived j) rs @ [Aggregated j oc art]) @ es) s s'"
      using journals_trans [OF rs e(4)] by simp
    ultimately show ?thesis using e(1,2) u(4) by auto
  qed
qed

lemma run_one_job_effect:
  assumes run: "run_one_job jx j n p req s = Some (s', ok)" and sound: "lb_sound (cs_log s)"
  shows "map agent_key (cs_agents s') = map agent_key (cs_agents s) \<and> lb_sound (cs_log s') \<and>
    (\<exists>es. journals jx es s s' \<and> job_journal jx j p {c. committee_drawn jx j n req (cs_agents s) c} s s' es)"
proof -
  define t where "t = journal_note jx (JobSubmitted j) s"
  have jt: "journals jx [JobSubmitted j] s t" by (simp add: t_def journals_note)
  have given_up: ?thesis if "s' = t\<lparr>cs_agents := as\<rparr>" "map agent_key as = map agent_key (cs_agents s)" for as
    using that jt sound
    by (intro conjI exI [of _ "[JobSubmitted j]"]) (simp_all add: t_def job_journal_def job_unanchored_def journals_def)
  obtain agents sent where send: "send_all (jx_codec jx) (JobSeed j (job_seed_bytes j)) (\<lambda>_. True) (cs_agents t) = (agents, sent)"
    by fastforce
  have keys: "map agent_key agents = map agent_key (cs_agents s)"
    using send_all_keys [of "jx_codec jx" "JobSeed j (job_seed_bytes j)" "\<lambda>_. True" "cs_agents t"] unfolding send by (simp add: t_def)
  have run': "run_one_job jx j n p req s = (if \<not> sent then Some (t\<lparr>cs_agents := agents\<rparr>, False)
      else case collect_claims (jx_vrf jx) j (job_seed_bytes j) agents of None \<Rightarrow> None
        | Some (agents', None) \<Rightarrow> Some (t\<lparr>cs_agents := agents'\<rparr>, False)
        | Some (agents', Some claims) \<Rightarrow> (case select_capability_aware_committee (job_candidates agents' claims) req n of
            None \<Rightarrow> Some (t\<lparr>cs_agents := agents'\<rparr>, True)
          | Some committee \<Rightarrow> job_round jx j p req committee (journal_note jx (CommitteeSelected j committee) (t\<lparr>cs_agents := agents'\<rparr>))))"
    unfolding run_one_job_def Let_def t_def [symmetric] send by simp
  show ?thesis
  proof (cases sent)
    case False
    then show ?thesis using run run' keys given_up [of agents] by simp
  next
    case True
    then obtain agents' claims where claims: "collect_claims (jx_vrf jx) j (job_seed_bytes j) agents = Some (agents', claims)"
      using run run' by (auto split: option.splits)
    have keys': "map agent_key agents' = map agent_key (cs_agents s)" using collect_claims_keys [OF claims] keys by simp
    show ?thesis
    proof (cases "\<exists>cs committee. claims = Some cs \<and> select_capability_aware_committee (job_candidates agents' cs) req n = Some committee")
      case False
      then show ?thesis using run run' True claims keys' given_up [of agents'] by (auto split: option.splits)
    next
      case chosen: True
      then obtain cs committee where c: "claims = Some cs" "select_capability_aware_committee (job_candidates agents' cs) req n = Some committee"
        by blast
      define u where "u = journal_note jx (CommitteeSelected j committee) (t\<lparr>cs_agents := agents'\<rparr>)"
      have u: "cs_log u = cs_log s" "cs_records u = cs_records s" "cs_ledger u = cs_ledger s"
        "map agent_key (cs_agents u) = map agent_key (cs_agents s)" using keys' by (simp_all add: u_def t_def)
      have ju: "journals jx [JobSubmitted j, CommitteeSelected j committee] s u"
        using journals_trans [OF jt, of "[CommitteeSelected j committee]" u] by (simp add: u_def journals_def journal_note_def)
      have "list_all (proved_candidate (jx_vrf jx) (job_seed_bytes j) (cs_agents s)) cs"
        using collect_claims_proved [of "jx_vrf jx" j "job_seed_bytes j" agents agents' cs] claims c(1) unfolding keys_cong(2) [OF keys] by simp
      then have drawn: "committee_drawn jx j n req (cs_agents s) committee"
        unfolding committee_drawn_def using c(2) job_candidates_claims
        by (intro exI [of _ "job_candidates agents' cs"]) (auto simp: list_all_iff)
      have "job_round jx j p req committee u = Some (s', ok)" using run run' True claims c by (simp add: u_def)
      from job_round_effect [OF this] u(1) sound obtain es where
        e: "map agent_key (cs_agents s') = map agent_key (cs_agents u)" "lb_sound (cs_log s')" "journals jx es u s'"
          "job_journal jx j p {committee} u s' es" by auto
      have "job_journal jx j p {c. committee_drawn jx j n req (cs_agents s) c} s s' es"
        using e(4) drawn unfolding job_journal_def job_effect_cong [OF u] u(1) by auto
      then have "job_journal jx j p {c. committee_drawn jx j n req (cs_agents s) c} s s' ([JobSubmitted j, CommitteeSelected j committee] @ es)"
        by (rule job_journal_prefix) simp
      then show ?thesis using journals_trans [OF ju e(3)] e(1,2) u(4) by auto
    qed
  qed
qed

end
