(* ===== verification/Job_Audit.thy ===== *)
theory Job_Audit
  imports Job_Runner
begin

text \<open>
  What the coordinator promises over whole runs of its job loop: anchoring needs two thirds
  of the committee's stake, every anchored job can be audited through the read server, and
  the journal tells exactly which jobs were anchored. The last section holds what the job
  loop does not promise.
\<close>

section \<open>Invariants of the loop\<close>

lemma main_loop_invariant:
  assumes "main_loop jx n req mx c turns s = Some (c', s')" "I c s"
    and job: "\<And>c s p s' ok. I c s \<Longrightarrow> c < mx \<Longrightarrow> run_one_job jx (c + 1) n p req s = Some (s', ok) \<Longrightarrow> I (c + 1) s'"
    and shutdown: "\<And>c s. I c s \<Longrightarrow> I c (shutdown_agents jx s)"
  shows "I c' s'"
  using assms(1,2)
proof (induction turns arbitrary: c s)
  case Nil
  then show ?case using shutdown [OF Nil.prems(2)] by (auto split: if_splits)
next
  case (Cons e turns)
  show ?case
  proof (cases "c < mx")
    case False
    then show ?thesis using Cons.prems shutdown [OF Cons.prems(2)] by auto
  next
    case True
    show ?thesis
    proof (cases e)
      case (PollJob p)
      then obtain t ok where t: "run_one_job jx (c + 1) n p req s = Some (t, ok)"
        "main_loop jx n req mx (c + 1) turns t = Some (c', s')"
        using Cons.prems(1) True by (auto split: option.splits)
      then show ?thesis using Cons.IH job [OF Cons.prems(2) True t(1)] by blast
    next
      case PollTimeout
      then show ?thesis using Cons True by auto
    qed (use Cons.prems True shutdown [OF Cons.prems(2)] in auto)
  qed
qed

lemma shutdown_simps [simp]:
  "cs_ledger (shutdown_agents jx s) = cs_ledger s" "cs_log (shutdown_agents jx s) = cs_log s"
  "cs_records (shutdown_agents jx s) = cs_records s" "cs_journal (shutdown_agents jx s) = cs_journal s"
  "map agent_key (cs_agents (shutdown_agents jx s)) = map agent_key (cs_agents s)"
proof -
  have "agent_key (fst (send c m a)) = agent_key a" for c m a by (rule send_key) (rule prod.collapse [symmetric])
  then show "map agent_key (cs_agents (shutdown_agents jx s)) = map agent_key (cs_agents s)"
    by (simp add: shutdown_agents_def)
qed (simp_all add: shutdown_agents_def)

lemma job_number: "c < mx \<Longrightarrow> unat (c + 1) = Suc (unat c)" for c mx :: u64
proof -
  assume "c < mx"
  then have "Suc (unat c) < 2 ^ 64" using unat_lt_pow [of mx] by (simp add: word_nat)
  from mod_less [OF this] show ?thesis by (simp add: unat_word_ariths)
qed

text \<open>A record points at its artifact in the log, its attestations are signed by agents of the
  fleet, and its number is one of the jobs so far.\<close>

definition signed_by_fleet :: "'t job_env \<Rightarrow> agent list \<Rightarrow> attestation \<Rightarrow> bool" where
  "signed_by_fleet jx agents att \<longleftrightarrow>
     (\<exists>k\<in>set (map agent_key agents). verify_signature (jx_crypto jx) (jx_att jx) att (fst (snd k)))"

definition anchor_ok :: "'t job_env \<Rightarrow> agent list \<Rightarrow> hash list \<Rightarrow> u64 \<Rightarrow> u64 \<Rightarrow> job_record \<Rightarrow> bool" where
  "anchor_ok jx agents entries completed j r \<longleftrightarrow>
     0 < j \<and> j \<le> completed \<and> jr_job_id r = j \<and> list_all (signed_by_fleet jx agents) (jr_committee_attestations r) \<and>
     (\<exists>i<length entries. entries ! i = jr_consensus_artifact r \<and> jr_log_position r = of_nat i \<and>
        jr_log_length_at_anchor r = of_nat (Suc i))"

definition coord_inv :: "'t job_env \<Rightarrow> agent list \<Rightarrow> nat \<Rightarrow> u64 \<Rightarrow> coordinator \<Rightarrow> bool" where
  "coord_inv jx agents before completed s \<longleftrightarrow>
     lb_sound (cs_log s) \<and> map agent_key (cs_agents s) = map agent_key agents \<and>
     length (lb_entries (cs_log s)) \<le> before + unat completed \<and>
     (\<forall>j r. hm_get (cs_records s) j = Some r \<longrightarrow> anchor_ok jx agents (lb_entries (cs_log s)) completed j r)"

lemma anchor_ok_mono:
  "anchor_ok jx agents es c j r \<Longrightarrow> c \<le> c' \<Longrightarrow> anchor_ok jx agents (es @ es') c' j r"
  unfolding anchor_ok_def
proof (elim conjE exE, intro conjI)
  fix i assume "i < length es" "es ! i = jr_consensus_artifact r" "jr_log_position r = of_nat i" "jr_log_length_at_anchor r = of_nat (Suc i)"
  then show "\<exists>i<length (es @ es'). (es @ es') ! i = jr_consensus_artifact r \<and> jr_log_position r = of_nat i \<and> jr_log_length_at_anchor r = of_nat (Suc i)"
    by (intro exI [of _ i]) (simp add: nth_append)
qed auto

lemma counted_signed: "counted jx committee agents att \<Longrightarrow> signed_by_fleet jx agents att"
  by (auto simp: counted_def signed_by_fleet_def)

lemma signed_cong: "map agent_key as = map agent_key as' \<Longrightarrow> signed_by_fleet jx as = signed_by_fleet jx as'"
  unfolding signed_by_fleet_def fun_eq_iff by simp

lemma coord_inv_job:
  assumes inv: "coord_inv jx agents before c s" and c: "c < mx" and run: "run_one_job jx (c + 1) n p req s = Some (s', ok)"
  shows "coord_inv jx agents before (c + 1) s'"
proof -
  have le: "c \<le> c + 1" "0 < c + 1" "unat (c + 1) = Suc (unat c)" using job_number [OF c] by (auto simp: word_nat)
  from run_one_job_effect [OF run] inv have eff: "map agent_key (cs_agents s') = map agent_key (cs_agents s)" "lb_sound (cs_log s')"
    and split: "job_unanchored s s' \<or> (\<exists>committee atts. job_anchored jx (c + 1) p committee atts s s')"
    by (auto simp: coord_inv_def job_journal_def)
  have keys: "map agent_key (cs_agents s') = map agent_key agents" using eff inv by (simp add: coord_inv_def)
  from split show ?thesis
  proof
    assume "job_unanchored s s'"
    then show ?thesis using inv eff keys le anchor_ok_mono [of jx agents "lb_entries (cs_log s)" c _ _ "c + 1" "[]"]
      by (auto simp: coord_inv_def job_unanchored_def)
  next
    assume "\<exists>committee atts. job_anchored jx (c + 1) p committee atts s s'"
    then obtain committee atts where a: "job_anchored jx (c + 1) p committee atts s s'" by blast
    have "list_all (signed_by_fleet jx agents) atts"
      using a inv signed_cong [of "cs_agents s" agents jx] counted_signed [of jx committee "cs_agents s"]
      unfolding job_anchored_def coord_inv_def list_all_iff by metis
    then show ?thesis using inv eff(2) keys le a anchor_ok_mono [of jx agents "lb_entries (cs_log s)" c _ _ "c + 1" "[consensus_artifact jx (c + 1) atts]"]
      by (auto simp: coord_inv_def job_anchored_def hm_simps anchor_ok_def [of _ _ _ _ "c + 1"])
  qed
qed

section \<open>The journal\<close>

lemma history_snoc:
  "job_history_state (es @ [e]) =
     (case entry_state e of Some x \<Rightarrow> Some x | None \<Rightarrow> (case job_history_state es of None \<Rightarrow> Some StInFlight | Some x \<Rightarrow> Some x))"
  unfolding job_history_state_def by simp

lemma history_not_anchored:
  "list_all (\<lambda>e. \<forall>k pos. e \<noteq> Anchored k pos) es \<Longrightarrow> job_history_state es \<noteq> Some (StAnchored pos)"
proof (induction es rule: rev_induct)
  case (snoc e es)
  then show ?case by (cases e) (auto simp: history_snoc split: option.splits)
qed (simp add: job_history_state_def)

text \<open>The file holds one line per entry, and an entry of a job says it was anchored exactly when
  there is a record of it, at that position.\<close>

definition journal_inv :: "'t job_env \<Rightarrow> u64 \<Rightarrow> coordinator \<Rightarrow> bool" where
  "journal_inv jx completed s \<longleftrightarrow>
     (\<exists>jn es. cs_journal s = Some jn \<and> jn_file jn = journal_text (jx_json jx) es \<and> list_all entry_ascii es \<and>
        list_all (\<lambda>e. je_job e \<le> completed) es \<and>
        (\<forall>j pos. map_option jr_log_position (hm_get (cs_records s) j) = Some pos \<longleftrightarrow>
           job_history_state (filter (\<lambda>e. je_job e = j) es) = Some (StAnchored pos)))"

lemma journals_text:
  assumes "\<And>e. jx_journal_fault jx e = NoFault" "journals jx es s s'" "cs_journal s = Some jn"
  shows "\<exists>jn'. cs_journal s' = Some jn' \<and> jn_file jn' = jn_file jn @ journal_text (jx_json jx) es"
  using assms by (simp add: journals_def appends_file)

lemma journal_inv_job:
  assumes inv: "journal_inv jx c s" "coord_inv jx agents before c s" and c: "c < mx"
    and run: "run_one_job jx (c + 1) n p req s = Some (s', ok)" and faults: "\<And>e. jx_journal_fault jx e = NoFault"
  shows "journal_inv jx (c + 1) s'"
proof -
  have new: "c < c + 1" using job_number [OF c] by (simp add: word_nat)
  obtain jn es where jn: "cs_journal s = Some jn" "jn_file jn = journal_text (jx_json jx) es" "list_all entry_ascii es"
      "list_all (\<lambda>e. je_job e \<le> c) es"
    and track: "\<And>j pos. map_option jr_log_position (hm_get (cs_records s) j) = Some pos \<longleftrightarrow>
           job_history_state (filter (\<lambda>e. je_job e = j) es) = Some (StAnchored pos)"
    using inv(1) unfolding journal_inv_def by blast
  have old: "filter (\<lambda>e. je_job e = c + 1) es = []" using jn(4) new by (auto simp: filter_empty_conv list_all_iff)
  from run_one_job_effect [OF run] inv(2) obtain es' cms where
    es': "journals jx es' s s'" "job_journal jx (c + 1) p cms s s' es'" by (auto simp: coord_inv_def)
  obtain jn' where jn': "cs_journal s' = Some jn'" "jn_file jn' = journal_text (jx_json jx) (es @ es')"
    using journals_text [OF faults es'(1) jn(1)] jn(2) by auto
  have mine: "list_all (\<lambda>e. je_job e = c + 1 \<and> entry_ascii e) es'" using es'(2) by (simp add: job_journal_def)
  have sel: "filter (\<lambda>e. je_job e = j) (es @ es') = (if j = c + 1 then es' else filter (\<lambda>e. je_job e = j) es)" for j
    using mine old by (auto simp: list_all_iff filter_empty_conv)
  have "map_option jr_log_position (hm_get (cs_records s') j) = Some pos \<longleftrightarrow>
      job_history_state (filter (\<lambda>e. je_job e = j) (es @ es')) = Some (StAnchored pos)" for j pos
  proof (cases "j = c + 1")
    case False
    have "hm_get (cs_records s') j = hm_get (cs_records s) j"
      using es'(2) False by (auto simp: job_journal_def job_unanchored_def job_anchored_def hm_simps)
    then show ?thesis using track [of j pos] False unfolding sel by simp
  next
    case True
    have none: "hm_get (cs_records s) (c + 1) = None"
      using track [of "c + 1"] unfolding old by (cases "hm_get (cs_records s) (c + 1)") (auto simp: job_history_state_def)
    from es'(2) consider "job_unanchored s s'" "list_all (\<lambda>e. \<forall>k pos. e \<noteq> Anchored k pos) es'"
      | committee atts es1 where "job_anchored jx (c + 1) p committee atts s s'"
          "es' = es1 @ [Anchored (c + 1) (of_nat (length (lb_entries (cs_log s))))]"
      by (auto simp: job_journal_def)
    then show ?thesis
    proof cases
      case 1
      then show ?thesis using none history_not_anchored [OF 1(2)] True unfolding sel by (simp add: job_unanchored_def)
    next
      case 2
      then show ?thesis using True unfolding sel by (auto simp: history_snoc job_anchored_def hm_simps)
    qed
  qed
  moreover have "list_all entry_ascii (es @ es')" "list_all (\<lambda>e. je_job e \<le> c + 1) (es @ es')"
    using jn(3,4) mine new by (auto simp: list_all_iff)
  ultimately show ?thesis unfolding journal_inv_def using jn' by (intro exI [of _ jn'] exI [of _ "es @ es'"]) simp
qed

section \<open>A concrete fleet\<close>

definition toy_jx :: "bytes job_env" where
  "toy_jx = \<lparr>jx_crypto = toy_crypto, jx_codec = toy_envelopes, jx_att = toy_att_codec, jx_captures = toy_captures,
     jx_json = toy_json, jx_cbor = (\<lambda>_. []), jx_vrf = toy_vrf, jx_merkle = toy_merkle, jx_captures_dir = [],
     jx_slash_fraction = Fin 0, jx_now_ns = (\<lambda>_. 0), jx_hash_order = (\<lambda>_ m. m), jx_log_fault = (\<lambda>_. NoFault),
     jx_journal_fault = (\<lambda>_. NoFault), jx_dir_writable = (\<lambda>_ _. True)\<rparr>"

definition toy_att :: "attestation_result \<Rightarrow> u64 \<Rightarrow> bytes \<Rightarrow> bytes \<Rightarrow> attestation" where
  "toy_att res r pk h = sign_with toy_crypto toy_att_codec \<lparr>kp_seed = pk\<rparr>
     \<lparr>at_version = 1, at_job_id = [], at_commit = [], at_runner_id = r, at_result = res, at_environment_hash = [],
      at_artifact_hash = h, at_timestamp_unix_ns = 0, at_signature = []\<rparr>"

text \<open>An agent that answers the rounds it is given: per round a claim, and an attestation.\<close>

definition toy_claim :: "bytes \<Rightarrow> u64 \<Rightarrow> incoming" where
  "toy_claim pk j = InMsg (VrfClaim j (pk @ job_seed_bytes j) [])"

definition toy_submit :: "attestation_result \<Rightarrow> u64 \<Rightarrow> bytes \<Rightarrow> bytes \<Rightarrow> incoming" where
  "toy_submit res r pk h = InMsg (SubmitAttestation (from_attestation (toy_att res r pk h)))"

definition toy_agent :: "u64 \<Rightarrow> bytes \<Rightarrow> u64 \<Rightarrow> incoming list \<Rightarrow> agent" where
  "toy_agent r pk stake inbox = \<lparr>ag_runner_id = r, ag_signing_pk = pk, ag_vrf_pk = pk, ag_stake = stake,
     ag_capabilities = toy_caps, ag_inbox = inbox, ag_sent = [], ag_room = None\<rparr>"

definition toy_req :: job_requirements where
  "toy_req = \<lparr>req_cpu = 1, req_memory_mb = 256, req_platform = LinuxX86_64, req_runtimes = {Wasm}\<rparr>"

lemma toy_att_verifies [simp]: "verify_signature toy_crypto toy_att_codec (toy_att res r pk h) pk"
  using sign_verify [OF toy_crypto_ok, of toy_att_codec "\<lparr>kp_seed = pk\<rparr>"]
  by (simp add: toy_att_def keypair_verifying_key_def toy_crypto_def)

lemma toy_att_fields [simp]: "at_runner_id (toy_att res r pk h) = r" "at_result (toy_att res r pk h) = res" "at_artifact_hash (toy_att res r pk h) = h"
  by (simp_all add: toy_att_def sign_with_def)

lemma toy_jx_simps [simp]:
  "jx_crypto toy_jx = toy_crypto" "jx_codec toy_jx = toy_envelopes" "jx_att toy_jx = toy_att_codec" "jx_captures toy_jx = toy_captures"
  "jx_json toy_jx = toy_json" "jx_cbor toy_jx p = []" "jx_vrf toy_jx = toy_vrf" "jx_merkle toy_jx = toy_merkle"
  "jx_captures_dir toy_jx = []" "jx_slash_fraction toy_jx = Fin 0" "jx_now_ns toy_jx j = 0" "jx_hash_order toy_jx j m = m"
  "jx_log_fault toy_jx j = NoFault" "jx_journal_fault toy_jx e = NoFault" "jx_dir_writable toy_jx j i"
  by (simp_all add: toy_jx_def)

lemma toy_vrf_verify [simp]: "vrf_verify toy_vrf pk input out prf = (if out = pk @ input then Inr () else Inl InvalidProof)"
  by (simp add: vrf_verify_def toy_vrf_def transcript_def)

lemma toy_send [simp]:
  "ag_room a = None \<Longrightarrow> send toy_envelopes (JobSeed j seed) a = (a\<lparr>ag_sent := ag_sent a @ [JobSeed j seed]\<rparr>, True)"
  "ag_room a = None \<Longrightarrow> send toy_envelopes (Assign j p req d) a = (a\<lparr>ag_sent := ag_sent a @ [Assign j p req d]\<rparr>, True)"
  "ag_room a = None \<Longrightarrow> send toy_envelopes Shutdown a = (a\<lparr>ag_sent := ag_sent a @ [Shutdown]\<rparr>, True)"
  by (simp_all add: send_def toy_envelopes_def MAX_ENVELOPE_BYTES_PUB_def)

lemmas toy_job_simps = toy_claim_def toy_submit_def toy_agent_def toy_req_def toy_caps_def from_attestation_def
  run_one_job_def job_round_def journal_note_def claim_of_def job_candidates_def select_capability_aware_committee_def
  eligible_def matches_def List.map_filter_def Let_def receive_bundle_def aggregate_step_def slash_step_def anchor_step_def
  canonical_encoding_def log_append_def ms_append_def log_new_def log_root_def toy_merkle_def consensus_artifact_def artifact_counts_def hm_get_or_def
  vote_of_def sl_as_stake_map_def sl_from_stake_map_def fval_positive_def shutdown_agents_def

definition toy_fleet :: "agent list" where
  "toy_fleet = [toy_agent 7 [1] 10 [toy_claim [1] 1, toy_submit APass 7 [1] [5]]]"

lemma toy_outcome: "aggregate [\<lparr>vote_runner_id = 7, vote_result = VPass\<rparr>] (committee_threshold [(7, 10)] [7]) [(7, 10)] = Pass"
  by code_simp

lemma toy_run:
  "\<exists>s r. main_loop toy_jx 1 toy_req 1 0 [PollJob \<lparr>pl_steps = []\<rparr>] (coordinator_start toy_fleet (LogMem log_new) (Some (journal_open None))) = Some (1, s)
     \<and> hm_get (cs_records s) 1 = Some r \<and> jr_log_position r = 0"
  by (simp add: toy_job_simps toy_fleet_def coordinator_start_def toy_outcome)

section \<open>Properties\<close>

lemma inv_shutdown:
  "coord_inv jx agents k c s \<Longrightarrow> coord_inv jx agents k c (shutdown_agents jx s)"
  "journal_inv jx c s \<Longrightarrow> journal_inv jx c (shutdown_agents jx s)"
  unfolding coord_inv_def journal_inv_def shutdown_simps by auto

lemma coord_inv_start: "lb_sound lg \<Longrightarrow> coord_inv jx agents (length (lb_entries lg)) 0 (coordinator_start agents lg jn)"
  by (simp add: coord_inv_def coordinator_start_def)

lemma coord_inv_run:
  assumes "lb_sound lg" "main_loop jx n req mx 0 turns (coordinator_start agents lg jn) = Some (c, s)"
  shows "coord_inv jx agents (length (lb_entries lg)) c s"
proof (rule main_loop_invariant [OF assms(2), of "coord_inv jx agents (length (lb_entries lg))"])
  show "coord_inv jx agents (length (lb_entries lg)) 0 (coordinator_start agents lg jn)" using assms(1) by (rule coord_inv_start)
qed (fact coord_inv_job inv_shutdown(1))+

lemma anchor_ok_bundle:
  assumes ml: "merkle_ok ml" and r: "hm_get records j = Some r" and ok: "anchor_ok jx agents (lb_entries lg) c j r"
    and small: "length (lb_entries lg) < 2 ^ 64"
  shows "\<exists>b. lb_build_bundle ml records lg j = Some b \<and> jb_job_id b = j \<and> verify_inclusion ml (jb_merkle_proof b) (jb_log_root b) \<and>
    ip_entry (jb_merkle_proof b) = jr_consensus_artifact r \<and> list_all (signed_by_fleet jx agents) (jb_committee_attestations b)"
proof -
  let ?l = "plain_log (lb_entries lg)"
  obtain i where i: "i < length (lb_entries lg)" "lb_entries lg ! i = jr_consensus_artifact r"
    "jr_log_position r = of_nat i" "jr_log_length_at_anchor r = of_nat (Suc i)"
    using ok by (auto simp: anchor_ok_def)
  have nat: "unat (of_nat k :: u64) = k" if "k \<le> length (lb_entries lg)" for k
    using that small by (simp add: unat_of_nat)
  have "\<exists>b. build_bundle ml records ?l j = Some b \<and> verify_inclusion ml (jb_merkle_proof b) (jb_log_root b) \<and>
    ip_entry (jb_merkle_proof b) = jb_consensus_artifact b \<and> jb_consensus_artifact b = jr_consensus_artifact r \<and>
    jb_committee_attestations b = jr_committee_attestations r"
  proof (rule build_bundle_verifies [OF ml _ r])
    show "length (log_entries ?l) < 2 ^ 64" using small by (simp add: plain_log_def)
    show "jr_log_position r < jr_log_length_at_anchor r" using nat [of i] nat [of "Suc i"] i unfolding i(3,4) word_less_nat_alt by simp
    show "jr_log_length_at_anchor r \<le> log_len ?l"
      using nat [of "Suc i"] nat [of "length (lb_entries lg)"] i(1) unfolding i(4) word_le_nat_alt by (simp add: log_len_def plain_log_def)
    show "log_entry_at ?l (jr_log_position r) = Some (jr_consensus_artifact r)"
      using nat [of i] i(1,2) by (simp add: log_entry_at_def plain_log_def i(3))
  qed
  then obtain b where b: "build_bundle ml records ?l j = Some b" "verify_inclusion ml (jb_merkle_proof b) (jb_log_root b)"
    "ip_entry (jb_merkle_proof b) = jr_consensus_artifact r" "jb_committee_attestations b = jr_committee_attestations r" by auto
  have "jb_job_id b = j" using b(1) r ok by (auto simp: build_bundle_def anchor_ok_def split: option.splits)
  then show ?thesis using b ok by (auto simp: lb_plain(3) anchor_ok_def)
qed

text \<open>C6: Every anchored job can be audited: after any run of the job loop, whatever the agents sent and
  whatever file faults the log met, the read server answers a request for a job with a record by a
  bundle for that job whose inclusion proof verifies against the root it carries, proves the consensus
  artifact, and holds only attestations signed with keys of registered agents; it answers any other
  request with not-found. Records exist for jobs of this run only.\<close>
theorem anchored_jobs_auditable:
  assumes ml: "merkle_ok (jx_merkle jx)" and sound: "lb_sound lg"
    and run: "main_loop jx n req mx 0 turns (coordinator_start agents lg jn) = Some (c, s)"
    and small: "length (lb_entries lg) + unat c < 2 ^ 64"
  shows "case hm_get (cs_records s) j of
      None \<Rightarrow> read_response (jx_merkle jx) cc (cs_records s) (cs_log s) dir files (GetJob j) = Some (JobNotFound j)
    | Some r \<Rightarrow> 0 < j \<and> j \<le> c \<and> (\<exists>b. read_response (jx_merkle jx) cc (cs_records s) (cs_log s) dir files (GetJob j) = Some (JobBundleResponse b) \<and>
        jb_job_id b = j \<and> verify_inclusion (jx_merkle jx) (jb_merkle_proof b) (jb_log_root b) \<and>
        ip_entry (jb_merkle_proof b) = jr_consensus_artifact r \<and> list_all (signed_by_fleet jx agents) (jb_committee_attestations b))"
proof (cases "hm_get (cs_records s) j")
  case None
  then have "lb_build_bundle (jx_merkle jx) (cs_records s) (cs_log s) j = None" by (simp add: lb_plain(3) build_bundle_def)
  then show ?thesis using None by (simp add: read_response_def)
next
  case (Some r)
  have inv: "coord_inv jx agents (length (lb_entries lg)) c s" using coord_inv_run [OF sound run] .
  then have ok: "anchor_ok jx agents (lb_entries (cs_log s)) c j r" "length (lb_entries (cs_log s)) < 2 ^ 64"
    using Some small by (auto simp: coord_inv_def)
  from anchor_ok_bundle [OF ml Some ok] ok(1) Some show ?thesis by (auto simp: read_response_def anchor_ok_def)
qed

theorem anchored_jobs_auditable_witness:
  "\<exists>s b. main_loop toy_jx 1 toy_req 1 0 [PollJob \<lparr>pl_steps = []\<rparr>] (coordinator_start toy_fleet (LogMem log_new) (Some (journal_open None))) = Some (1, s)
    \<and> read_response toy_merkle toy_captures (cs_records s) (cs_log s) [] [] (GetJob 1) = Some (JobBundleResponse b)
    \<and> verify_inclusion toy_merkle (jb_merkle_proof b) (jb_log_root b)"
proof -
  obtain s r where s: "main_loop toy_jx 1 toy_req 1 0 [PollJob \<lparr>pl_steps = []\<rparr>]
      (coordinator_start toy_fleet (LogMem log_new) (Some (journal_open None))) = Some (1, s)" "hm_get (cs_records s) 1 = Some r"
    using toy_run by blast
  show ?thesis
    using anchored_jobs_auditable [OF _ _ s(1), of toy_captures "[]" "[]" 1] s toy_merkle_ok by (auto simp: log_new_def)
qed

text \<open>C11: The journal tells exactly which jobs were anchored: when a run starts with an empty journal and
  every journal write succeeds, replaying the file and reconstructing the state gives a job as anchored
  at a position if and only if the coordinator has a record of it with that position, whatever happened
  to the agents and to the log in between.\<close>
theorem journal_tracks_records:
  assumes js: "json_ok (jx_json jx)" and faults: "\<And>e. jx_journal_fault jx e = NoFault" and sound: "lb_sound lg"
    and run: "main_loop jx n req mx 0 turns (coordinator_start agents lg (Some (journal_open None))) = Some (c, s)"
  shows "\<exists>jn es. cs_journal s = Some jn \<and> journal_replay (jx_json jx) (Some (jn_file jn)) = Inr es \<and>
    (\<forall>j pos. hm_get (js_jobs (reconstruct_state es)) j = Some (StAnchored pos) \<longleftrightarrow>
       map_option jr_log_position (hm_get (cs_records s) j) = Some pos)"
proof -
  let ?I = "\<lambda>c s. journal_inv jx c s \<and> coord_inv jx agents (length (lb_entries lg)) c s"
  have start: "?I 0 (coordinator_start agents lg (Some (journal_open None)))"
    using coord_inv_start [OF sound] by (simp add: journal_inv_def coordinator_start_def journal_open_def job_history_state_def)
  have "?I c s"
  proof (rule main_loop_invariant [OF run, of ?I, OF start])
    fix c s p s' ok
    assume i: "?I c s" and job: "c < mx" "run_one_job jx (c + 1) n p req s = Some (s', ok)"
    show "?I (c + 1) s'"
      using journal_inv_job [OF conjunct1 [OF i] conjunct2 [OF i] job faults] coord_inv_job [OF conjunct2 [OF i] job] ..
  qed (use inv_shutdown in blast)
  then obtain jn es where jn: "cs_journal s = Some jn" "jn_file jn = journal_text (jx_json jx) es" "list_all entry_ascii es"
    and track: "\<And>j pos. map_option jr_log_position (hm_get (cs_records s) j) = Some pos \<longleftrightarrow>
           job_history_state (filter (\<lambda>e. je_job e = j) es) = Some (StAnchored pos)"
    unfolding journal_inv_def by blast
  have "journal_replay (jx_json jx) (Some (jn_file jn)) = Inr es"
    using journal_replay_rest [OF js jn(3), of "[]"] by (simp add: jn(2) replay_lines_def List.map_filter_def)
  then show ?thesis using jn(1) track unfolding reconstruct_get by (intro exI [of _ jn] exI [of _ es]) simp
qed

theorem journal_tracks_records_witness:
  "\<exists>s jn es. main_loop toy_jx 1 toy_req 1 0 [PollJob \<lparr>pl_steps = []\<rparr>] (coordinator_start toy_fleet (LogMem log_new) (Some (journal_open None))) = Some (1, s)
    \<and> cs_journal s = Some jn \<and> journal_replay toy_json (Some (jn_file jn)) = Inr es
    \<and> hm_get (js_jobs (reconstruct_state es)) 1 = Some (StAnchored 0)"
proof -
  obtain s r where s: "main_loop toy_jx 1 toy_req 1 0 [PollJob \<lparr>pl_steps = []\<rparr>]
      (coordinator_start toy_fleet (LogMem log_new) (Some (journal_open None))) = Some (1, s)" "hm_get (cs_records s) 1 = Some r" "jr_log_position r = 0"
    using toy_run by blast
  show ?thesis using journal_tracks_records [OF _ _ _ s(1)] s toy_json_ok by (auto simp: log_new_def)
qed

lemma committee_threshold_le:
  assumes "2 * (\<Sum>i\<leftarrow>committee. stake_of stakes i) < 2 ^ 64"
  shows "unat (committee_threshold stakes committee) \<le> p \<longleftrightarrow> 2 * (\<Sum>i\<leftarrow>committee. stake_of stakes i) \<le> 3 * p"
proof -
  have "unat (sum_list (map (hm_get_or 0 stakes) committee)) = (\<Sum>i\<leftarrow>committee. stake_of stakes i)"
    using assms by (subst unat_sum_list) (simp_all add: stake_of_def comp_def flip: stake_of_def)
  then show ?thesis using assms two_thirds_le_iff [of "sum_list (map (hm_get_or 0 stakes) committee)" p]
    by (simp add: committee_threshold_def two_thirds_threshold_def)
qed

lemma side_stake_no_votes: "side_stake stakes [] x = 0"
  by (simp add: side_stake_def voters_for_eq)



section \<open>What the loop does not promise\<close>

lemma forged_outcomes:
  "aggregate [\<lparr>vote_runner_id = 2, vote_result = VFail\<rparr>, \<lparr>vote_runner_id = 2, vote_result = VPass\<rparr>]
     (committee_threshold [(2, 10), (1, 1)] [1, 2]) [(2, 10), (1, 1)] = Pass"
  "aggregate [\<lparr>vote_runner_id = 2, vote_result = VFail\<rparr>, \<lparr>vote_runner_id = 1, vote_result = VPass\<rparr>]
     (committee_threshold [(2, 10), (1, 1)] [1, 2]) [(2, 10), (1, 1)] = Fail"
  by code_simp+


lemma split_outcome:
  "aggregate [\<lparr>vote_runner_id = 1, vote_result = VPass\<rparr>, \<lparr>vote_runner_id = 2, vote_result = VPass\<rparr>]
     (committee_threshold [(1, 10), (2, 10)] [1, 2]) [(1, 10), (2, 10)] = Pass"
  by code_simp

text \<open>Passing does not mean agreeing: when every committee member reports a pass but no two of them report
  the same artifact, the job is anchored all the same, and which of the artifacts is anchored depends
  on the iteration order of a hash map: two runs on the same messages anchor different artifacts.\<close>
theorem pass_without_agreement:
  "let fleet = [toy_agent 1 [1] 10 [toy_claim [1] 1, toy_submit APass 1 [1] [5]],
                toy_agent 2 [2] 10 [toy_claim [2] 1, toy_submit APass 2 [2] [6]]];
       anchored = (\<lambda>order. map_option (\<lambda>x. lb_entries (cs_log (fst x)))
         (run_one_job (toy_jx\<lparr>jx_hash_order := \<lambda>_. order\<rparr>) 1 2 \<lparr>pl_steps = []\<rparr> toy_req (coordinator_start fleet (LogMem log_new) None)))
   in anchored (\<lambda>m. m) = Some [[6]] \<and> anchored rev = Some [[5]]"
  by (simp add: toy_job_simps coordinator_start_def split_outcome) blast

text \<open>A message that is not a claim for the job drops the only candidate of the round.\<close>

lemma lagging_round:
  assumes a: "cs_agents s = [a]" "ag_inbox a = InMsg m # rest" "ag_room a = None"
    and stale: "\<And>out pf. m \<noteq> VrfClaim j out pf"
    and fits: "length (cd_encode (jx_codec jx) (JobSeed j (job_seed_bytes j))) \<le> MAX_ENVELOPE_BYTES_PUB"
  shows "\<exists>s' a'. run_one_job jx j (Suc n) p req s = Some (s', True) \<and> cs_agents s' = [a'] \<and> ag_inbox a' = rest \<and> ag_room a' = None
    \<and> cs_records s' = cs_records s \<and> cs_log s' = cs_log s"
proof -
  have "claim_of (jx_vrf jx) j (job_seed_bytes j) b m = []" for b
    using stale by (auto simp: claim_of_def split: envelope.split)
  then show ?thesis using a fits
    by (simp add: run_one_job_def Let_def send_def job_candidates_def List.map_filter_def select_capability_aware_committee_def eligible_def)
qed

text \<open>One late attestation shuts an agent out for good: reads are not matched with requests, so when an
  attestation arrives after its timeout it is read as the answer to the next job's seed, that job's claim
  is read for the job after it, and so on. With an agent that is one message behind and then answers every
  seed correctly, no number of further jobs is ever assigned or anchored.\<close>
theorem late_attestation_shuts_out:
  assumes a: "cs_agents s = [a]" "ag_room a = None"
    and inbox: "ag_inbox a = InMsg m # map (\<lambda>i. InMsg (VrfClaim (c + of_nat (Suc i)) (out i) (pf i))) [0..<length ps]"
    and stale: "\<And>out pf. m \<noteq> VrfClaim (c + 1) out pf"
    and fits: "\<And>j. length (cd_encode (jx_codec jx) (JobSeed j (job_seed_bytes j))) \<le> MAX_ENVELOPE_BYTES_PUB"
    and room: "unat c + length ps < unat mx"
  shows "\<exists>s'. main_loop jx (Suc n) req mx c (map PollJob ps) s = Some (c + of_nat (length ps), s')
    \<and> cs_records s' = cs_records s \<and> cs_log s' = cs_log s"
  using a inbox stale room
proof (induction ps arbitrary: s a m c out pf)
  case Nil
  then show ?case by (simp add: word_less_nat_alt)
next
  case (Cons p ps)
  have c: "c < mx" "unat (c + 1) = Suc (unat c)" using Cons.prems(5) job_number [of c mx] by (auto simp: word_less_nat_alt)
  let ?m = "VrfClaim (c + 1) (out 0) (pf 0)"
  have split: "[0..<length (p # ps)] = 0 # map Suc [0..<length ps]" by (metis length_Cons map_Suc_upt upt_conv_Cons zero_less_Suc)
  obtain s' a' where r: "run_one_job jx (c + 1) (Suc n) p req s = Some (s', True)" "cs_agents s' = [a']" "ag_room a' = None"
    "cs_records s' = cs_records s" "cs_log s' = cs_log s"
    "ag_inbox a' = InMsg ?m # map (\<lambda>i. InMsg (VrfClaim (c + 1 + of_nat (Suc i)) (out (Suc i)) (pf (Suc i)))) [0..<length ps]"
    using lagging_round [OF Cons.prems(1,3,2,4) fits, of n p req] unfolding split by (auto simp: comp_def add.assoc)
  have "\<exists>s''. main_loop jx (Suc n) req mx (c + 1) (map PollJob ps) s' = Some (c + 1 + of_nat (length ps), s'')
      \<and> cs_records s'' = cs_records s' \<and> cs_log s'' = cs_log s'"
    by (rule Cons.IH [OF r(2,3,6)]) (use Cons.prems(5) c in auto)
  then show ?case using c r(1,4,5) by (auto simp: add.assoc)
qed

lemma late_first_job:
  "\<exists>s a. run_one_job toy_jx 1 1 \<lparr>pl_steps = []\<rparr> toy_req (coordinator_start [toy_agent 7 [1] 10
      [toy_claim [1] 1, InSilence, toy_submit APass 7 [1] [5], toy_claim [1] 2, toy_claim [1] 3]] (LogMem log_new) None) = Some (s, True)
    \<and> cs_agents s = [a] \<and> ag_room a = None \<and> cs_records s = []
    \<and> ag_inbox a = [toy_submit APass 7 [1] [5], toy_claim [1] 2, toy_claim [1] 3]"
proof -
  have "aggregate [] (committee_threshold [(7, 10)] [7]) [(7, 10)] = Retry" by code_simp
  then show ?thesis by (simp add: toy_job_simps coordinator_start_def)
qed

theorem late_attestation_shuts_out_witness:
  "let fleet = [toy_agent 7 [1] 10 [toy_claim [1] 1, InSilence, toy_submit APass 7 [1] [5], toy_claim [1] 2, toy_claim [1] 3]] in
   \<exists>s. main_loop toy_jx 1 toy_req 9 0 (map PollJob [\<lparr>pl_steps = []\<rparr>, \<lparr>pl_steps = []\<rparr>, \<lparr>pl_steps = []\<rparr>])
       (coordinator_start fleet (LogMem log_new) None) = Some (3, s) \<and> cs_records s = []"
proof -
  obtain s a where s: "run_one_job toy_jx 1 1 \<lparr>pl_steps = []\<rparr> toy_req (coordinator_start [toy_agent 7 [1] 10
      [toy_claim [1] 1, InSilence, toy_submit APass 7 [1] [5], toy_claim [1] 2, toy_claim [1] 3]] (LogMem log_new) None) = Some (s, True)"
    "cs_agents s = [a]" "ag_room a = None" "cs_records s = []" "ag_inbox a = [toy_submit APass 7 [1] [5], toy_claim [1] 2, toy_claim [1] 3]"
    using late_first_job by blast
  have "\<exists>s'. main_loop toy_jx (Suc 0) toy_req 9 1 (map PollJob [\<lparr>pl_steps = []\<rparr>, \<lparr>pl_steps = []\<rparr>]) s =
      Some (1 + of_nat (length [\<lparr>pl_steps = []\<rparr>, \<lparr>pl_steps = []\<rparr>]), s') \<and> cs_records s' = cs_records s \<and> cs_log s' = cs_log s"
    by (rule late_attestation_shuts_out [OF s(2,3), where m = "SubmitAttestation (from_attestation (toy_att APass 7 [1] [5]))" and out = "\<lambda>i. [1] @ job_seed_bytes (of_nat (i + 2))" and pf = "\<lambda>_. []"])
      (simp_all add: s(5) toy_claim_def toy_submit_def toy_envelopes_def MAX_ENVELOPE_BYTES_PUB_def upt_rec)
  then show ?thesis using s(1,4) by auto
qed

end
