(* ===== verification/Honest_Fleet.thy ===== *)
theory Honest_Fleet
  imports Agent Job_Audit
begin

text \<open>
  Agents and coordinator together: agents that run the agent program are accepted into the
  fleet, and a job given to a committee of them is anchored; and what a pipeline that makes
  the executor fail does to such a fleet.
\<close>

section \<open>Rounds in which every agent answers\<close>

lemma send_all_sent:
  assumes "\<And>a. a \<in> set as \<Longrightarrow> ag_room a = None" "length (cd_encode c m) \<le> MAX_ENVELOPE_BYTES_PUB"
  shows "send_all c m p as = (map (\<lambda>a. if p a then a\<lparr>ag_sent := ag_sent a @ [m]\<rparr> else a) as, True)"
  using assms by (induction as) (simp_all add: send_def)

lemma collect_claims_all:
  assumes "\<And>a. a \<in> set as \<Longrightarrow> ag_inbox a = InMsg (VrfClaim j (out (ag_runner_id a)) (pf (ag_runner_id a))) # rest a"
    "\<And>a. a \<in> set as \<Longrightarrow> vrf_verify vl (ag_vrf_pk a) seed (out (ag_runner_id a)) (pf (ag_runner_id a)) = Inr ()"
  shows "collect_claims vl j seed as =
    Some (map (\<lambda>a. a\<lparr>ag_inbox := rest a\<rparr>) as, Some (map (\<lambda>a. (ag_runner_id a, out (ag_runner_id a))) as))"
  using assms by (induction as) (simp_all add: claim_of_def)

lemma fold_insert_get:
  "distinct (map f as) \<Longrightarrow> a \<in> set as \<Longrightarrow> hm_get (fold (\<lambda>a. hm_insert (f a) (g a)) as m) (f a) = Some (g a)"
proof (induction as rule: rev_induct)
  case (snoc b as)
  then show ?case by (auto simp: hm_simps image_iff)
qed simp

lemma job_candidates_all:
  assumes "distinct (map ag_runner_id as)"
  shows "job_candidates as (map (\<lambda>a. (ag_runner_id a, out (ag_runner_id a))) as) =
    map (\<lambda>a. \<lparr>cd_id = ag_runner_id a, cd_capabilities = ag_capabilities a, cd_vrf_output = out (ag_runner_id a)\<rparr>) as"
proof -
  let ?caps = "fold (\<lambda>a. hm_insert (ag_runner_id a) (ag_capabilities a)) as []"
  have "hm_get ?caps (ag_runner_id a) = Some (ag_capabilities a)" if "a \<in> set as" for a
    using fold_insert_get [OF assms that] .
  then have "List.map_filter (\<lambda>(i, out). map_option (\<lambda>caps. \<lparr>cd_id = i, cd_capabilities = caps, cd_vrf_output = out\<rparr>) (hm_get ?caps i))
      (map (\<lambda>a. (ag_runner_id a, out (ag_runner_id a))) bs) =
    map (\<lambda>a. \<lparr>cd_id = ag_runner_id a, cd_capabilities = ag_capabilities a, cd_vrf_output = out (ag_runner_id a)\<rparr>) bs"
    if "set bs \<subseteq> set as" for bs
    using that by (induction bs) (auto simp: List.map_filter_def)
  then show ?thesis by (simp add: job_candidates_def Let_def)
qed

lemma select_all:
  assumes "list_all (\<lambda>c. matches (cd_capabilities c) req) cands"
  shows "\<exists>committee. select_capability_aware_committee cands req (length cands) = Some committee \<and> mset committee = mset (map cd_id cands)"
proof -
  have "eligible req cands = cands" using assms by (simp add: eligible_def list_all_iff)
  then show ?thesis by (simp add: select_capability_aware_committee_def Let_def)
qed

lemma collect_attestations_all:
  assumes "\<And>a. a \<in> set as \<Longrightarrow> ag_inbox a = InMsg (SubmitAttestation (b (ag_runner_id a))) # rest a"
    "\<And>a. a \<in> set as \<Longrightarrow> verify_signature (jx_crypto jx) (jx_att jx) (ab_attestation (b (ag_runner_id a))) (ag_signing_pk a)"
    "\<And>a. a \<in> set as \<Longrightarrow> ag_runner_id a \<in> set committee"
  shows "\<exists>as' s'. collect_attestations jx j committee as s = (as', s', map (\<lambda>a. ab_attestation (b (ag_runner_id a))) as, [])"
  using assms
proof (induction as arbitrary: s)
  case (Cons a as)
  obtain s1 where s1: "receive_bundle jx j a (b (ag_runner_id a)) s = (s1, Some (ab_attestation (b (ag_runner_id a))))"
    using Cons.prems(2) [of a] by (cases "receive_bundle jx j a (b (ag_runner_id a)) s") (auto dest: receive_bundle_frame(3))
  obtain as' s' where "collect_attestations jx j committee as s1 = (as', s', map (\<lambda>a. ab_attestation (b (ag_runner_id a))) as, [])"
    using Cons.IH [of s1] Cons.prems by auto
  then show ?case using Cons.prems(1,3) [of a] s1 by simp
qed simp

section \<open>Agreement\<close>

lemma slash_none:
  assumes "\<And>att. att \<in> set atts \<Longrightarrow> at_artifact_hash att = h"
  shows "slash_minority h atts f l = (l, [])"
proof -
  have "(\<And>att. att \<in> set atts \<Longrightarrow> at_artifact_hash att = h) \<Longrightarrow> fold (slash_one h g) atts p = p" for g p
    by (induction atts arbitrary: p) (auto simp: slash_one_def)
  then show ?thesis using assms by (simp add: slash_minority_def)
qed

lemma consensus_unanimous:
  assumes "hash_order_ok jx" "atts \<noteq> []" "length atts < 2 ^ 32" "\<And>att. att \<in> set atts \<Longrightarrow> at_artifact_hash att = h"
  shows "consensus_artifact jx j atts = h"
  using consensus_artifact_plurality [OF assms(1-3), of j] assms(4) by auto

text \<open>A committee all of whose members vote to pass.\<close>

lemma aggregate_unanimous:
  assumes ok: "stake_ok stakes" and votes: "\<And>v. v \<in> set votes \<Longrightarrow> vote_result v = VPass"
    and ids: "distinct committee" "set (map vote_runner_id votes) = set committee"
    and small: "2 * total_stake stakes < 2 ^ 64" and pos: "\<exists>i\<in>set committee. 0 < stake_of stakes i"
  shows "aggregate votes (committee_threshold stakes committee) stakes = Pass"
proof -
  have last: "last_vote votes r = (if r \<in> set committee then Some VPass else None)" for r
  proof (cases "r \<in> set committee")
    case True
    then obtain x where x: "last_vote votes r = Some x" using ids(2) last_vote_None [of votes r] by (auto simp: voters_def)
    then have "(r, x) \<in> set (map (\<lambda>v. (vote_runner_id v, vote_result v)) votes)"
      using map_of_SomeD by (fastforce simp: last_vote_def)
    then show ?thesis using votes True x by auto
  next
    case False
    then show ?thesis using ids(2) last_vote_None [of votes r] by (auto simp: voters_def)
  qed
  have side: "side_stake stakes votes VPass = (\<Sum>i\<in>set committee. stake_of stakes i)" "side_stake stakes votes VFail = 0"
    by (simp_all add: side_stake_def voters_for_eq last)
  let ?S = "\<Sum>i\<leftarrow>committee. stake_of stakes i"
  have S: "?S = (\<Sum>i\<in>set committee. stake_of stakes i)" using ids(1) by (simp add: sum_list_distinct_conv_sum_set)
  have "?S \<le> total_stake stakes" using ok sum_stake_le_total [of stakes "set committee"] by (simp add: S stake_ok_def)
  then have thr: "unat (committee_threshold stakes committee) \<le> q \<longleftrightarrow> 2 * ?S \<le> 3 * q" for q
    using small by (intro committee_threshold_le) simp
  obtain i where "i \<in> set committee" "0 < stake_of stakes i" using pos by blast
  then have "0 < ?S" unfolding S using sum_pos2 [of "set committee" i "stake_of stakes"] by simp
  then show ?thesis using thr [of ?S] thr [of 0] side S pos by (simp add: aggregate_spec [OF ok] spec_outcome_def)
qed

section \<open>Agents that run the agent program\<close>

text \<open>Agents and coordinator link the same libraries.\<close>

definition same_libs :: "'t agent_env \<Rightarrow> 't job_env \<Rightarrow> bool" where
  "same_libs ax jx \<longleftrightarrow> jx_crypto jx = ax_crypto ax \<and> jx_codec jx = ax_codec ax \<and> jx_att jx = ax_att ax \<and> jx_vrf jx = ax_vrf ax"

text \<open>An agent as registered by the agent program, whose connection carries that program's answers
  to the messages of a round, and whose run of the pipeline gives the artifact \<open>h\<close>.\<close>

abbreviation round_deadline :: "'t job_env \<Rightarrow> u64 \<Rightarrow> int" where
  "round_deadline jx j \<equiv> jx_now_ns jx j + 60000000000"

definition honest :: "'t agent_env \<Rightarrow> 't job_env \<Rightarrow> u64 \<Rightarrow> pipeline \<Rightarrow> job_requirements \<Rightarrow> agent \<Rightarrow> bool" where
  "honest ax jx j p req a \<longleftrightarrow>
     ag_signing_pk a = keypair_verifying_key (ax_crypto ax) (agent_signing (ag_runner_id a)) \<and>
     ag_vrf_pk a = vrf_public_key_bytes (ax_vrf ax) (agent_vrf (ag_runner_id a)) \<and>
     ag_capabilities a = agent_capabilities \<and> ag_room a = None \<and>
     ag_inbox a = agent_loop ax (ag_runner_id a) [JobSeed j (job_seed_bytes j), Assign j p req (round_deadline jx j)]"

definition produces :: "'t agent_env \<Rightarrow> 't job_env \<Rightarrow> u64 \<Rightarrow> pipeline \<Rightarrow> bytes \<Rightarrow> u64 \<Rightarrow> pipeline_result \<Rightarrow> bool" where
  "produces ax jx j p h i res \<longleftrightarrow>
     execute_pipeline (ax_exec ax i j) p = Some (Inr res) \<and> pr_final_artifact_hash res = h \<and>
     length (cd_encode (ax_codec ax) (agent_claim ax i j (job_seed_bytes j))) \<le> MAX_ENVELOPE_BYTES_PUB \<and>
     length (cd_encode (ax_codec ax) (SubmitAttestation \<lparr>ab_attestation = agent_attestation ax i j (round_deadline jx j) h,
        ab_captures = pr_captures res\<rparr>)) \<le> MAX_ENVELOPE_BYTES_PUB"

definition agent_bundle :: "'t agent_env \<Rightarrow> 't job_env \<Rightarrow> u64 \<Rightarrow> bytes \<Rightarrow> (u64 \<Rightarrow> pipeline_result) \<Rightarrow> u64 \<Rightarrow> attestation_bundle" where
  "agent_bundle ax jx j h res i = \<lparr>ab_attestation = agent_attestation ax i j (round_deadline jx j) h, ab_captures = pr_captures (res i)\<rparr>"

lemma agent_attestation_fields [simp]:
  "at_runner_id (agent_attestation ax i j d h) = i" "at_result (agent_attestation ax i j d h) = APass"
  "at_artifact_hash (agent_attestation ax i j d h) = h"
  by (simp_all add: agent_attestation_def sign_with_def)

definition vrf_round :: "'t agent_env \<Rightarrow> u64 \<Rightarrow> u64 \<Rightarrow> bytes \<times> bytes" where
  "vrf_round ax j i = vrf_evaluate (ax_vrf ax) (agent_vrf i) (ax_rnd ax (job_seed_bytes j)) (job_seed_bytes j)"

lemma agent_claim_round: "agent_claim ax i j (job_seed_bytes j) = VrfClaim j (fst (vrf_round ax j i)) (snd (vrf_round ax j i))"
  by (simp add: agent_claim_def vrf_round_def case_prod_beta)

lemma honest_inbox:
  assumes "honest ax jx j p req a" "produces ax jx j p h (ag_runner_id a) (res (ag_runner_id a))"
  shows "ag_inbox a = [InMsg (VrfClaim j (fst (vrf_round ax j (ag_runner_id a))) (snd (vrf_round ax j (ag_runner_id a)))),
    InMsg (SubmitAttestation (agent_bundle ax jx j h res (ag_runner_id a)))]"
  using assms by (simp add: honest_def produces_def agent_bundle_def agent_claim_round not_less)

lemma honest_vrf:
  "vrf_ok (ax_vrf ax) \<Longrightarrow> honest ax jx j p req a \<Longrightarrow>
    vrf_verify (ax_vrf ax) (ag_vrf_pk a) (job_seed_bytes j) (fst (vrf_round ax j (ag_runner_id a))) (snd (vrf_round ax j (ag_runner_id a))) = Inr ()"
  using vrf_evaluate_verifies [of "ax_vrf ax" "agent_vrf (ag_runner_id a)" "ax_rnd ax (job_seed_bytes j)" "job_seed_bytes j"]
  by (simp add: honest_def vrf_round_def)

lemma honest_signed:
  "crypto_ok (ax_crypto ax) \<Longrightarrow> honest ax jx j p req a \<Longrightarrow>
    verify_signature (ax_crypto ax) (ax_att ax) (agent_attestation ax (ag_runner_id a) j d h) (ag_signing_pk a)"
  unfolding agent_attestation_def honest_def by (simp add: sign_verify)

text \<open>The first round ends with the whole fleet as committee.\<close>

lemma honest_first_round:
  assumes libs: "same_libs ax jx" "vrf_ok (ax_vrf ax)"
    and fleet: "distinct (map ag_runner_id (cs_agents s))"
      "\<And>a. a \<in> set (cs_agents s) \<Longrightarrow> honest ax jx j p req a \<and> produces ax jx j p h (ag_runner_id a) (res (ag_runner_id a))"
    and req: "matches agent_capabilities req"
    and fits: "length (cd_encode (jx_codec jx) (JobSeed j (job_seed_bytes j))) \<le> MAX_ENVELOPE_BYTES_PUB"
  shows "\<exists>committee t. run_one_job jx j (length (cs_agents s)) p req s = job_round jx j p req committee t \<and>
    distinct committee \<and> set committee = set (map ag_runner_id (cs_agents s)) \<and>
    cs_log t = cs_log s \<and> cs_records t = cs_records s \<and> cs_ledger t = cs_ledger s \<and>
    map agent_key (cs_agents t) = map agent_key (cs_agents s) \<and>
    list_all (\<lambda>a. ag_room a = None \<and> ag_inbox a = [InMsg (SubmitAttestation (agent_bundle ax jx j h res (ag_runner_id a)))]) (cs_agents t)"
proof -
  let ?out = "\<lambda>i. fst (vrf_round ax j i)" and ?pf = "\<lambda>i. snd (vrf_round ax j i)"
  define t0 where "t0 = journal_note jx (JobSubmitted j) s"
  define as where "as = map (\<lambda>a. a\<lparr>ag_sent := ag_sent a @ [JobSeed j (job_seed_bytes j)]\<rparr>) (cs_agents s)"
  define as' where "as' = map (\<lambda>a. a\<lparr>ag_inbox := [InMsg (SubmitAttestation (agent_bundle ax jx j h res (ag_runner_id a)))]\<rparr>) as"
  have sent: "send_all (jx_codec jx) (JobSeed j (job_seed_bytes j)) (\<lambda>_. True) (cs_agents t0) = (as, True)"
    using send_all_sent [of "cs_agents s" "jx_codec jx"] fleet(2) fits by (simp add: as_def t0_def honest_def)
  have ids: "map ag_runner_id as' = map ag_runner_id (cs_agents s)" "map agent_key as' = map agent_key (cs_agents s)"
    by (simp_all add: as'_def as_def comp_def agent_key_def)
  have claims: "collect_claims (jx_vrf jx) j (job_seed_bytes j) as = Some (as', Some (map (\<lambda>a. (ag_runner_id a, ?out (ag_runner_id a))) as))"
    unfolding as'_def
  proof (rule collect_claims_all)
    fix a assume "a \<in> set as"
    then obtain b where b: "b \<in> set (cs_agents s)" "a = b\<lparr>ag_sent := ag_sent b @ [JobSeed j (job_seed_bytes j)]\<rparr>" by (auto simp: as_def)
    then show "ag_inbox a = InMsg (VrfClaim j (?out (ag_runner_id a)) (?pf (ag_runner_id a))) #
        [InMsg (SubmitAttestation (agent_bundle ax jx j h res (ag_runner_id a)))]"
      using honest_inbox [of ax jx j p req b h res] fleet(2) [of b] by simp
    show "vrf_verify (jx_vrf jx) (ag_vrf_pk a) (job_seed_bytes j) (?out (ag_runner_id a)) (?pf (ag_runner_id a)) = Inr ()"
      using honest_vrf [OF libs(2), of jx j p req b] fleet(2) [of b] b libs(1) by (simp add: same_libs_def)
  qed
  let ?cands = "job_candidates as' (map (\<lambda>a. (ag_runner_id a, ?out (ag_runner_id a))) as)"
  have "map (\<lambda>a. (ag_runner_id a, ?out (ag_runner_id a))) as = map (\<lambda>a. (ag_runner_id a, ?out (ag_runner_id a))) as'"
    by (simp add: as'_def comp_def)
  then have cands: "?cands = map (\<lambda>a. \<lparr>cd_id = ag_runner_id a, cd_capabilities = ag_capabilities a, cd_vrf_output = ?out (ag_runner_id a)\<rparr>) as'"
    using job_candidates_all [of as' ?out] fleet(1) ids(1) by simp
  have "list_all (\<lambda>c. matches (cd_capabilities c) req) ?cands"
    unfolding cands using fleet(2) req by (auto simp: list_all_iff as'_def as_def honest_def)
  from select_all [OF this] obtain committee where
    c: "select_capability_aware_committee ?cands req (length ?cands) = Some committee" "mset committee = mset (map cd_id ?cands)" by blast
  have cm: "mset committee = mset (map ag_runner_id (cs_agents s))"
    using c(2) ids(1) unfolding cands by (simp add: comp_def del: mset_map)
  have len: "length ?cands = length (cs_agents s)" unfolding cands by (simp add: as'_def as_def)
  let ?t = "journal_note jx (CommitteeSelected j committee) (t0\<lparr>cs_agents := as'\<rparr>)"
  have "run_one_job jx j (length (cs_agents s)) p req s = job_round jx j p req committee ?t"
    unfolding run_one_job_def Let_def t0_def [symmetric] sent using claims c(1) len by simp
  moreover have "distinct committee" "set committee = set (map ag_runner_id (cs_agents s))"
    using cm fleet(1) by (metis mset_eq_imp_distinct_iff, metis mset_eq_setD)
  moreover have "list_all (\<lambda>a. ag_room a = None \<and> ag_inbox a = [InMsg (SubmitAttestation (agent_bundle ax jx j h res (ag_runner_id a)))]) as'"
    using fleet(2) by (auto simp: as'_def as_def list_all_iff honest_def)
  ultimately show ?thesis using ids(2) by (intro exI [of _ committee] exI [of _ ?t]) (simp add: t0_def)
qed

text \<open>The second round: every attestation arrives, all agree, and the artifact is anchored.\<close>

lemma honest_second_round:
  assumes libs: "same_libs ax jx" "crypto_ok (ax_crypto ax)" "merkle_ok (jx_merkle jx)" "hash_order_ok jx"
    and t: "list_all (\<lambda>a. ag_room a = None \<and> ag_inbox a = [InMsg (SubmitAttestation (agent_bundle ax jx j h res (ag_runner_id a)))]) (cs_agents t)"
      "\<And>a. a \<in> set (cs_agents t) \<Longrightarrow> ag_signing_pk a = keypair_verifying_key (ax_crypto ax) (agent_signing (ag_runner_id a))"
    and committee: "distinct committee" "set committee = set (map ag_runner_id (cs_agents t))" "length (cs_agents t) < 2 ^ 32"
    and stakes: "stake_ok (sl_stakes (cs_ledger t))" "2 * total_stake (sl_stakes (cs_ledger t)) < 2 ^ 64"
      "\<exists>i\<in>set committee. 0 < stake_of (sl_stakes (cs_ledger t)) i"
    and log: "lb_append (jx_log_fault jx j) h (cs_log t) = (lg, Inr pos)"
    and fits: "length (cd_encode (jx_codec jx) (Assign j p req (round_deadline jx j))) \<le> MAX_ENVELOPE_BYTES_PUB"
  shows "\<exists>s' r. job_round jx j p req committee t = Some (s', True) \<and> cs_records s' = hm_insert j r (cs_records t) \<and>
    jr_consensus_artifact r = h \<and> jr_log_position r = pos \<and> cs_log s' = lg \<and> cs_ledger s' = cs_ledger t"
proof -
  define as where "as = map (\<lambda>a. if ag_runner_id a \<in> set committee then a\<lparr>ag_sent := ag_sent a @ [Assign j p req (round_deadline jx j)]\<rparr> else a) (cs_agents t)"
  define atts where "atts = map (\<lambda>a. agent_attestation ax (ag_runner_id a) j (round_deadline jx j) h) (cs_agents t)"
  have sent: "send_all (jx_codec jx) (Assign j p req (round_deadline jx j)) (\<lambda>a. ag_runner_id a \<in> set committee) (cs_agents t) = (as, True)"
    unfolding as_def using t(1) fits by (intro send_all_sent) (auto simp: list_all_iff)
  have ids: "map ag_runner_id as = map ag_runner_id (cs_agents t)" by (simp add: as_def comp_def if_distrib cong: if_cong)
  have "\<exists>as' s1. collect_attestations jx j committee as (t\<lparr>cs_agents := as\<rparr>) =
      (as', s1, map (\<lambda>a. ab_attestation (agent_bundle ax jx j h res (ag_runner_id a))) as, [])"
  proof (rule collect_attestations_all)
    fix a assume "a \<in> set as"
    then obtain b where b: "b \<in> set (cs_agents t)" "ag_inbox a = ag_inbox b" "ag_runner_id a = ag_runner_id b" "ag_signing_pk a = ag_signing_pk b"
      by (auto simp: as_def split: if_splits)
    then show "ag_inbox a = InMsg (SubmitAttestation (agent_bundle ax jx j h res (ag_runner_id a))) # []" using t(1) by (simp add: list_all_iff)
    show "verify_signature (jx_crypto jx) (jx_att jx) (ab_attestation (agent_bundle ax jx j h res (ag_runner_id a))) (ag_signing_pk a)"
      using b t(2) [OF b(1)] libs(1,2) sign_verify by (simp add: same_libs_def agent_bundle_def agent_attestation_def)
    show "ag_runner_id a \<in> set committee" using b committee(2) by simp
  qed
  moreover have "map (\<lambda>a. ab_attestation (agent_bundle ax jx j h res (ag_runner_id a))) as = atts"
    using ids unfolding atts_def agent_bundle_def by (simp add: list_eq_iff_nth_eq)
  ultimately obtain as' s1 where col: "collect_attestations jx j committee as (t\<lparr>cs_agents := as\<rparr>) = (as', s1, atts, [])" by auto
  define u where "u = s1\<lparr>cs_agents := as'\<rparr>"
  have u: "cs_log u = cs_log t" "cs_records u = cs_records t" "cs_ledger u = cs_ledger t"
    using collect_attestations_frame [OF col] by (simp_all add: u_def)
  have round: "job_round jx j p req committee t = aggregate_step jx j p committee atts u"
    using sent col by (simp add: job_round_def u_def)
  have pass: "aggregate (map vote_of atts) (committee_threshold (sl_stakes (cs_ledger t)) committee) (sl_stakes (cs_ledger t)) = Pass"
  proof (rule aggregate_unanimous [OF stakes(1) _ committee(1) _ stakes(2,3)])
    show "set (map vote_runner_id (map vote_of atts)) = set committee"
      using committee(2) by (simp add: atts_def vote_of_def image_image)
  qed (auto simp: atts_def vote_of_def)
  have "atts \<noteq> []" using stakes(3) committee(2) by (auto simp: atts_def)
  then have art: "consensus_artifact jx j atts = h"
    by (rule consensus_unanimous [OF libs(4)]) (use committee(3) in \<open>auto simp: atts_def\<close>)
  have slash: "slash_minority h atts f l = (l, [])" for f l by (rule slash_none) (auto simp: atts_def)
  have "lb_entries lg = lb_entries (cs_log t) @ [h]"
    using lb_append_entries [of "jx_log_fault jx j" h "cs_log t"] by (simp add: log)
  then have "lb_root (jx_merkle jx) lg \<noteq> None"
    using libs(3) by (simp add: lb_plain(1) log_root_def plain_log_def merkle_ok_def)
  then obtain y where root: "lb_root (jx_merkle jx) lg = Some y" by blast
  show ?thesis unfolding round
    using pass root log by (simp add: aggregate_step_def Let_def u sl_as_stake_map_def art slash slash_step_def anchor_step_def canonical_encoding_def)
      (metis job_record.select_convs(4,5))
qed

text \<open>The agent program passes the registration checks, as the agent it says it is, and its
  connection goes on with its main loop.\<close>

lemma agent_program_accepted:
  assumes libs: "crypto_ok (ax_crypto ax)" "vrf_ok (ax_vrf ax)"
    and fits: "length (cd_encode (ax_codec ax) (agent_register ax i stake)) \<le> MAX_ENVELOPE_BYTES_PUB"
      "length (cd_encode (ax_codec ax) RegisterAck) \<le> MAX_ENVELOPE_BYTES_PUB"
    and enrolled: "\<And>es. en = Some es \<Longrightarrow> is_enrolled es i
      (enroll_fingerprint (ax_crypto ax) (keypair_verifying_key (ax_crypto ax) (agent_signing i)))
      (enroll_fingerprint (ax_crypto ax) (vrf_public_key_bytes (ax_vrf ax) (agent_vrf i)))"
  shows "accept_one (ax_codec ax) (ax_crypto ax) (ax_vrf ax) en
      \<lparr>cn_accept_ok = True, cn_config_ok = True, cn_inbox = agent_main ax i stake (RegisterAck # ms), cn_room = None\<rparr> =
    Some (Some \<lparr>ag_runner_id = i, ag_signing_pk = keypair_verifying_key (ax_crypto ax) (agent_signing i),
      ag_vrf_pk = vrf_public_key_bytes (ax_vrf ax) (agent_vrf i), ag_stake = stake, ag_capabilities = agent_capabilities,
      ag_inbox = agent_loop ax i ms, ag_sent = [RegisterAck], ag_room = None\<rparr>)"
proof -
  obtain out pf where ev: "vrf_evaluate (ax_vrf ax) (agent_vrf i) (ax_rnd ax VRF_REGISTRATION_CHALLENGE) VRF_REGISTRATION_CHALLENGE = (out, pf)"
    by fastforce
  have "vrf_verify (ax_vrf ax) (vrf_public_key_bytes (ax_vrf ax) (agent_vrf i)) VRF_REGISTRATION_CHALLENGE out pf = Inr ()"
    using vrf_evaluate_verifies [OF libs(2) ev] .
  moreover have "cr_key_valid (ax_crypto ax) (keypair_verifying_key (ax_crypto ax) (agent_signing i))" using key_valid [OF libs(1)] .
  moreover have "(case en of None \<Rightarrow> False | Some es \<Rightarrow> \<not> is_enrolled es i
      (enroll_fingerprint (ax_crypto ax) (keypair_verifying_key (ax_crypto ax) (agent_signing i)))
      (enroll_fingerprint (ax_crypto ax) (vrf_public_key_bytes (ax_vrf ax) (agent_vrf i)))) = False"
    using enrolled by (auto split: option.split)
  ultimately show ?thesis using fits
    by (simp add: accept_one_def agent_main_def agent_register_def ev send_def)
qed

section \<open>Properties\<close>


definition toy_ax :: "exec_env \<Rightarrow> bytes agent_env" where
  "toy_ax env = \<lparr>ax_crypto = toy_crypto, ax_codec = toy_envelopes, ax_att = toy_att_codec, ax_vrf = toy_vrf, ax_rnd = (\<lambda>x. x), ax_exec = (\<lambda>_ _. env)\<rparr>"

definition toy_honest :: "exec_env \<Rightarrow> u64 \<Rightarrow> u64 \<Rightarrow> agent" where
  "toy_honest env i stake = \<lparr>ag_runner_id = i, ag_signing_pk = keypair_verifying_key toy_crypto (agent_signing i),
     ag_vrf_pk = vrf_public_key_bytes toy_vrf (agent_vrf i), ag_stake = stake, ag_capabilities = agent_capabilities,
     ag_inbox = agent_loop (toy_ax env) i [JobSeed 1 (job_seed_bytes 1), Assign 1 \<lparr>pl_steps = []\<rparr> toy_req 60000000000],
     ag_sent = [], ag_room = None\<rparr>"


text \<open>A fleet whose first connection has failed gives up every job.\<close>

lemma dead_agent_job:
  assumes "cs_agents s = a # as" "ag_inbox a = replicate (Suc m) InError"
  shows "\<exists>s' a' as' m'. run_one_job jx j n p req s = Some (s', False) \<and> cs_agents s' = a' # as' \<and> ag_inbox a' = replicate m' InError \<and>
    m \<le> m' \<and> cs_records s' = cs_records s \<and> cs_log s' = cs_log s"
proof -
  obtain b ok where b: "send (jx_codec jx) (JobSeed j (job_seed_bytes j)) a = (b, ok)" by fastforce
  obtain bs ok' where bs: "send_all (jx_codec jx) (JobSeed j (job_seed_bytes j)) (\<lambda>_. True) as = (bs, ok')" by fastforce
  have "ag_inbox b = replicate (Suc m) InError"
    using b assms(2) by (auto simp: send_def split: if_splits option.splits nat.splits)
  then show ?thesis using assms(1) b bs
    by (cases ok; cases ok') (auto simp: run_one_job_def Let_def intro: exI [of _ "Suc m"])
qed

text \<open>C40: A pipeline the executor rejects takes the fleet down: an execution error (a module that is malformed or
  traps) ends the agent's process instead of being attested. With such an agent first in the fleet, every
  further job is given up at its first failed read, whatever the other agents do, and nothing is anchored
  any more.\<close>
theorem rejected_pipeline_stops_fleet:
  assumes fail: "execute_pipeline (ax_exec ax i j) p = Some (Inl e)"
    and a: "cs_agents s = a # as" "ag_inbox a = agent_loop ax i (Assign j p req d # ms)"
    and jobs: "length ps \<le> length ms" "unat c + length ps < unat mx"
  shows "\<exists>s'. main_loop jx n req' mx c (map PollJob ps) s = Some (c + of_nat (length ps), s') \<and>
    cs_records s' = cs_records s \<and> cs_log s' = cs_log s"
proof -
  have "\<exists>s'. main_loop jx n req' mx c (map PollJob ps) s = Some (c + of_nat (length ps), s') \<and>
      cs_records s' = cs_records s \<and> cs_log s' = cs_log s"
    if "cs_agents s = a # as" "ag_inbox a = replicate m InError" "length ps \<le> m" "unat c + length ps < unat mx" for m c s a as
    using that
  proof (induction ps arbitrary: s a as m c)
    case Nil
    then show ?case by (simp add: word_less_nat_alt)
  next
    case (Cons q ps)
    have c: "c < mx" "unat (c + 1) = Suc (unat c)" using Cons.prems(4) job_number [of c mx] by (auto simp: word_less_nat_alt)
    obtain m0 where m0: "m = Suc m0" "length ps \<le> m0" using Cons.prems(3) by (cases m) auto
    obtain t b bs k where t: "run_one_job jx (c + 1) n q req' s = Some (t, False)" "cs_agents t = b # bs" "ag_inbox b = replicate k InError"
      "m0 \<le> k" "cs_records t = cs_records s" "cs_log t = cs_log s"
      using dead_agent_job [OF Cons.prems(1), of m0 jx "c + 1" n q req'] Cons.prems(2) m0(1) by blast
    have "\<exists>s'. main_loop jx n req' mx (c + 1) (map PollJob ps) t = Some (c + 1 + of_nat (length ps), s') \<and> cs_records s' = cs_records t \<and> cs_log s' = cs_log t"
      by (rule Cons.IH [OF t(2,3)]) (use t(4) m0(2) c Cons.prems(4) in auto)
    then show ?case using c t(1,5,6) by (auto simp: add.assoc)
  qed
  from this [OF a(1), of "Suc (length ms)" c] show ?thesis using fail a(2) jobs by simp
qed

theorem rejected_pipeline_stops_fleet_witness:
  "let env = (toy_env (toy_run []))\<lparr>ee_wasm := toy_wasm\<lparr>wl_module := \<lambda>_. False\<rparr>\<rparr>; bad = \<lparr>pl_steps = [ExecWasm [0] [] no_limits]\<rparr>;
       a = toy_agent 3 [1] 10 (agent_loop (toy_ax env) 3 [Assign 1 bad toy_req 0, JobSeed 2 [], JobSeed 3 []]) in
   \<exists>s'. main_loop toy_jx 1 toy_req 9 1 (map PollJob [\<lparr>pl_steps = []\<rparr>, \<lparr>pl_steps = []\<rparr>]) (coordinator_start [a] (LogMem log_new) None) = Some (3, s')
     \<and> cs_records s' = []"
proof -
  let ?env = "(toy_env (toy_run []))\<lparr>ee_wasm := toy_wasm\<lparr>wl_module := \<lambda>_. False\<rparr>\<rparr>"
  let ?bad = "\<lparr>pl_steps = [ExecWasm [0] [] no_limits]\<rparr>"
  let ?a = "toy_agent 3 [1] 10 (agent_loop (toy_ax ?env) 3 [Assign 1 ?bad toy_req 0, JobSeed 2 [], JobSeed 3 []])"
  have fail: "\<exists>e. execute_pipeline (ax_exec (toy_ax ?env) 3 1) ?bad = Some (Inl e)"
    by (simp add: toy_ax_def execute_pipeline_def execute_wasm_step_def execute_with_limits_def toy_env_def toy_wasm_def exec_limits_of_def no_limits_def Let_def)
  then obtain e where "execute_pipeline (ax_exec (toy_ax ?env) 3 1) ?bad = Some (Inl e)" ..
  from rejected_pipeline_stops_fleet [OF this, of "coordinator_start [?a] (LogMem log_new) None" ?a "[]" toy_req 0 "[JobSeed 2 [], JobSeed 3 []]"
      "[\<lparr>pl_steps = []\<rparr>, \<lparr>pl_steps = []\<rparr>]" 1 9 toy_jx 1 toy_req]
  show ?thesis by (simp add: Let_def coordinator_start_def toy_agent_def del: agent_loop.simps list.map) blast
qed

end
