(* ===== verification/Webhook.thy ===== *)
theory Webhook
  imports Wasm_Runtime Crypto
begin

text \<open>
  The layer below the webhook listener (\<open>cosaci-webhook\<close>): the two authentication schemes
  of \<open>signature.rs\<close>, the manifest of \<open>manifest.rs\<close>, and \<open>translate.rs\<close>, which matches an
  event against the manifest and resolves its placeholders. HMAC-SHA-256, the TOML parser
  and printer and the printing of JSON numbers are parameters; a JSON value keeps the
  number type of its parser as the type variable.
\<close>

unbundle bit_operations_syntax

section \<open>Signatures\<close>

definition GITHUB_SIGNATURE_HEADER :: bytes where
  "GITHUB_SIGNATURE_HEADER = ascii ''X-Hub-Signature-256''"

definition GITLAB_TOKEN_HEADER :: bytes where
  "GITLAB_TOKEN_HEADER = ascii ''X-Gitlab-Token''"

datatype signature_error = SigMalformed | SigBadSignature | SigStale

fun strip_prefix :: "bytes \<Rightarrow> bytes \<Rightarrow> bytes option" where
  "strip_prefix [] s = Some s"
| "strip_prefix (p # ps) [] = None"
| "strip_prefix (p # ps) (b # s) = (if p = b then strip_prefix ps s else None)"

definition webhook_hex_nibble :: "u8 \<Rightarrow> u8 option" where
  "webhook_hex_nibble b =
     (if 48 \<le> b \<and> b \<le> 57 then Some (b - 48)
      else if 97 \<le> b \<and> b \<le> 102 then Some (b - 97 + 10)
      else if 65 \<le> b \<and> b \<le> 70 then Some (b - 65 + 10)
      else None)"

definition webhook_parse_hex32 :: "bytes \<Rightarrow> bytes option" where
  "webhook_parse_hex32 s = (if length s \<noteq> 64 then None else hex_pairs webhook_hex_nibble s)"

text \<open>\<open>Hmac::new_from_slice\<close> on a key, then \<open>update\<close> and \<open>finalize\<close>.\<close>

type_synonym hmac = "bytes \<Rightarrow> (bytes \<Rightarrow> bytes) option"

definition verify_github_signature :: "hmac \<Rightarrow> bytes \<Rightarrow> bytes \<Rightarrow> bytes \<Rightarrow> signature_error + unit" where
  "verify_github_signature hm body header_value secret =
     (case strip_prefix (ascii ''sha256='') header_value of
        None \<Rightarrow> Inl SigMalformed
      | Some hex \<Rightarrow>
          (case webhook_parse_hex32 hex of
             None \<Rightarrow> Inl SigMalformed
           | Some provided \<Rightarrow>
               (case hm secret of
                  None \<Rightarrow> Inl SigMalformed
                | Some mac \<Rightarrow> if mac body = provided then Inr () else Inl SigBadSignature)))"

definition constant_time_eq :: "bytes \<Rightarrow> bytes \<Rightarrow> bool" where
  "constant_time_eq a b \<longleftrightarrow>
     (if length a \<noteq> length b then False else fold (\<lambda>(x, y) acc. acc OR (x XOR y)) (zip a b) 0 = 0)"

definition verify_gitlab_token :: "bytes \<Rightarrow> bytes \<Rightarrow> signature_error + unit" where
  "verify_gitlab_token header_value expected_token =
     (if header_value = [] \<or> expected_token = [] then Inl SigMalformed
      else if constant_time_eq header_value expected_token then Inr () else Inl SigBadSignature)"

definition is_fresh :: "u64 \<Rightarrow> u64 \<Rightarrow> u64 \<Rightarrow> bool" where
  "is_fresh event_unix_secs now_unix_secs window_secs \<longleftrightarrow> abs_diff event_unix_secs now_unix_secs \<le> window_secs"

section \<open>The manifest\<close>

datatype step_section = SecSourceFetch (sec_url: bytes) (sec_reference: bytes) | SecExecWasm (sec_module_path: bytes) (sec_args: bytes)

record pipeline_section =
  psc_name :: bytes
  psc_on_events :: "bytes list"
  psc_steps :: "step_section list"

record cosaci_toml =
  ct_tenant_id :: u64
  ct_pipelines :: "pipeline_section list"

datatype manifest_error = ManifestToml bytes | ManifestSchema bytes

definition parse_manifest :: "(bytes \<Rightarrow> bytes + cosaci_toml) \<Rightarrow> bytes \<Rightarrow> manifest_error + cosaci_toml" where
  "parse_manifest toml input =
     (case toml input of
        Inr m \<Rightarrow> Inr m
      | Inl msg \<Rightarrow> if contains_bytes (ascii ''unknown variant'') msg then Inl (ManifestSchema msg) else Inl (ManifestToml msg))"

definition emit_manifest :: "(cosaci_toml \<Rightarrow> bytes + bytes) \<Rightarrow> cosaci_toml \<Rightarrow> manifest_error + bytes" where
  "emit_manifest toml m = (case toml m of Inl e \<Rightarrow> Inl (ManifestToml e) | Inr s \<Rightarrow> Inr s)"

section \<open>Events\<close>

datatype 'n json_value = JNull | JBool bool | JNumber 'n | JString bytes | JArray "'n json_value list" | JObject "(bytes \<times> 'n json_value) list"

fun json_get :: "'n json_value \<Rightarrow> bytes \<Rightarrow> 'n json_value option" where
  "json_get (JObject m) k = map_of m k"
| "json_get _ k = None"

fun json_as_str :: "'n json_value \<Rightarrow> bytes option" where
  "json_as_str (JString s) = Some s"
| "json_as_str _ = None"

fun split_char :: "u8 \<Rightarrow> bytes \<Rightarrow> bytes \<Rightarrow> bytes list" where
  "split_char c cur [] = [rev cur]"
| "split_char c cur (b # bs) = (if b = c then rev cur # split_char c [] bs else split_char c (b # cur) bs)"

fun walk_segments :: "'n json_value \<Rightarrow> bytes list \<Rightarrow> 'n json_value option" where
  "walk_segments current [] = Some current"
| "walk_segments current (segment # segments) =
     (case json_get current segment of None \<Rightarrow> None | Some v \<Rightarrow> walk_segments v segments)"

definition walk_path :: "'n json_value \<Rightarrow> bytes \<Rightarrow> 'n json_value option" where
  "walk_path root path = walk_segments root (split_char 46 [] path)"

section \<open>Translation\<close>

datatype translate_error = PlaceholderUnresolved bytes bytes | UnsupportedNamespace bytes | PlaceholderInLiteralField bytes bytes

datatype resolved_step = ResSourceFetch bytes bytes | ResExecWasm bytes bytes

record resolved_pipeline =
  rp_name :: bytes
  rp_steps :: "resolved_step list"

text \<open>\<open>find\<close> and the two slices around the first occurrence of a pattern.\<close>

fun split_at :: "bytes \<Rightarrow> bytes \<Rightarrow> (bytes \<times> bytes) option" where
  "split_at pat s =
     (case strip_prefix pat s of
        Some rest \<Rightarrow> Some ([], rest)
      | None \<Rightarrow> (case s of [] \<Rightarrow> None | b # s' \<Rightarrow> map_option (\<lambda>(pre, rest). (b # pre, rest)) (split_at pat s')))"

declare split_at.simps [simp del]

definition OPEN :: bytes where
  "OPEN = [123, 123]"

definition CLOSE :: bytes where
  "CLOSE = [125, 125]"

definition has_placeholder :: "bytes \<Rightarrow> bool" where
  "has_placeholder s = contains_bytes OPEN s"

definition resolve_inner :: "('n \<Rightarrow> bytes) \<Rightarrow> bytes \<Rightarrow> bytes \<Rightarrow> 'n json_value \<Rightarrow> translate_error + bytes" where
  "resolve_inner num inner template event =
     (case strip_prefix (ascii ''event.'') inner of
        None \<Rightarrow> Inl (UnsupportedNamespace inner)
      | Some path \<Rightarrow>
          (case walk_path event path of
             None \<Rightarrow> Inl (PlaceholderUnresolved template path)
           | Some (JString s) \<Rightarrow> Inr s
           | Some (JNumber n) \<Rightarrow> Inr (num n)
           | Some (JBool b) \<Rightarrow> Inr (ascii (if b then ''true'' else ''false''))
           | Some _ \<Rightarrow> Inl (PlaceholderUnresolved template (path @ ascii '' (non-scalar)''))))"

lemma strip_prefix_Some: "strip_prefix p s = Some r \<longleftrightarrow> s = p @ r"
  by (induction p s rule: strip_prefix.induct) auto

lemma strip_prefix_append [simp]: "strip_prefix p (p @ r) = Some r"
  by (simp add: strip_prefix_Some)

lemma split_at_append: "split_at pat s = Some (pre, rest) \<Longrightarrow> s = pre @ pat @ rest"
proof (induction s arbitrary: pre)
  case Nil
  then show ?case by (subst (asm) split_at.simps) (auto simp: strip_prefix_Some split: option.splits)
next
  case (Cons b s)
  from Cons.prems show ?case
    by (subst (asm) split_at.simps) (auto simp: strip_prefix_Some dest: Cons.IH split: option.splits)
qed

function resolve_loop :: "('n \<Rightarrow> bytes) \<Rightarrow> bytes \<Rightarrow> 'n json_value \<Rightarrow> bytes \<Rightarrow> bytes \<Rightarrow> translate_error + bytes" where
  "resolve_loop num template event out rest =
     (case split_at OPEN rest of
        None \<Rightarrow> Inr (out @ rest)
      | Some (pre, after_open) \<Rightarrow>
          (case split_at CLOSE after_open of
             None \<Rightarrow> Inl (PlaceholderUnresolved template (ascii ''(unterminated `{{`)''))
           | Some (inner, rest') \<Rightarrow>
               (case resolve_inner num (trim inner) template event of
                  Inl e \<Rightarrow> Inl e
                | Inr resolved \<Rightarrow> resolve_loop num template event (out @ pre @ resolved) rest')))"
  by pat_completeness auto
termination
  by (relation "measure (\<lambda>(_, _, _, _, rest). length rest)") (auto dest!: split_at_append simp: OPEN_def CLOSE_def)

declare resolve_loop.simps [simp del]

definition resolve_template :: "('n \<Rightarrow> bytes) \<Rightarrow> bytes \<Rightarrow> 'n json_value \<Rightarrow> translate_error + bytes" where
  "resolve_template num template event = resolve_loop num template event [] template"

fun resolve_step :: "('n \<Rightarrow> bytes) \<Rightarrow> step_section \<Rightarrow> 'n json_value \<Rightarrow> translate_error + resolved_step" where
  "resolve_step num (SecSourceFetch url reference) event =
     (case resolve_template num url event of Inl e \<Rightarrow> Inl e
      | Inr url' \<Rightarrow> (case resolve_template num reference event of Inl e \<Rightarrow> Inl e
          | Inr reference' \<Rightarrow> Inr (ResSourceFetch url' reference')))"
| "resolve_step num (SecExecWasm module_path args) event =
     (if has_placeholder module_path then Inl (PlaceholderInLiteralField (ascii ''exec-wasm'') (ascii ''module_path''))
      else if has_placeholder args then Inl (PlaceholderInLiteralField (ascii ''exec-wasm'') (ascii ''args_cbor_hex''))
      else Inr (ResExecWasm module_path args))"

fun resolve_steps :: "('n \<Rightarrow> bytes) \<Rightarrow> step_section list \<Rightarrow> 'n json_value \<Rightarrow> translate_error + resolved_step list" where
  "resolve_steps num [] event = Inr []"
| "resolve_steps num (s # ss) event =
     (case resolve_step num s event of Inl e \<Rightarrow> Inl e
      | Inr r \<Rightarrow> (case resolve_steps num ss event of Inl e \<Rightarrow> Inl e | Inr rs \<Rightarrow> Inr (r # rs)))"

definition resolve_pipeline :: "('n \<Rightarrow> bytes) \<Rightarrow> pipeline_section \<Rightarrow> 'n json_value \<Rightarrow> translate_error + resolved_pipeline" where
  "resolve_pipeline num p event =
     (case resolve_steps num (psc_steps p) event of Inl e \<Rightarrow> Inl e | Inr steps \<Rightarrow> Inr \<lparr>rp_name = psc_name p, rp_steps = steps\<rparr>)"

definition pipeline_matches :: "pipeline_section \<Rightarrow> bytes \<Rightarrow> bool" where
  "pipeline_matches p event_name \<longleftrightarrow> list_ex (\<lambda>e. e = event_name) (psc_on_events p)"

fun translate_pipelines :: "('n \<Rightarrow> bytes) \<Rightarrow> pipeline_section list \<Rightarrow> bytes \<Rightarrow> 'n json_value \<Rightarrow> translate_error + resolved_pipeline list" where
  "translate_pipelines num [] event_name event = Inr []"
| "translate_pipelines num (p # ps) event_name event =
     (if pipeline_matches p event_name
      then (case resolve_pipeline num p event of Inl e \<Rightarrow> Inl e
            | Inr r \<Rightarrow> (case translate_pipelines num ps event_name event of Inl e \<Rightarrow> Inl e | Inr rs \<Rightarrow> Inr (r # rs)))
      else translate_pipelines num ps event_name event)"

definition translate :: "('n \<Rightarrow> bytes) \<Rightarrow> cosaci_toml \<Rightarrow> bytes \<Rightarrow> 'n json_value \<Rightarrow> translate_error + resolved_pipeline list" where
  "translate num manifest event_name event_body = translate_pipelines num (ct_pipelines manifest) event_name event_body"

section \<open>Authentication\<close>

interpretation webhook_hex: hex_reader webhook_hex_nibble
proof
  fix n :: u8
  assume "n < 16"
  moreover have "\<forall>n\<in>set (map of_nat [0..<16]). webhook_hex_nibble (hex_char n) = Some n" by code_simp
  ultimately show "webhook_hex_nibble (hex_char n) = Some n" using u8_less_16 by blast
qed

lemma or_zero_iff: "x OR y = 0 \<longleftrightarrow> x = 0 \<and> y = 0" for x y :: "'a::len word"
  by (auto simp: bit_eq_iff bit_or_iff)

lemma xor_zero_iff: "x XOR y = 0 \<longleftrightarrow> x = y" for x y :: "'a::len word"
  by (auto simp: bit_eq_iff bit_xor_iff)

lemma fold_diff_zero:
  assumes "length a = length b"
  shows "fold (\<lambda>(x, y) acc. acc OR (x XOR y)) (zip a b) acc = 0 \<longleftrightarrow> acc = (0 :: u8) \<and> a = b"
  using assms by (induction a b arbitrary: acc rule: list_induct2) (auto simp: or_zero_iff xor_zero_iff)

text \<open>The constant-time comparison is equality, for any two lengths.\<close>

theorem constant_time_eq_exact: "constant_time_eq a b \<longleftrightarrow> a = b"
  by (auto simp: constant_time_eq_def fold_diff_zero)

lemma verify_gitlab_token_ok: "verify_gitlab_token header_value expected = Inr () \<longleftrightarrow> header_value = expected \<and> expected \<noteq> []"
  by (auto simp: verify_gitlab_token_def constant_time_eq_exact)

lemma verify_github_signature_ok:
  "verify_github_signature hm body header_value secret = Inr () \<longleftrightarrow>
     (\<exists>mac hex. hm secret = Some mac \<and> header_value = ascii ''sha256='' @ hex \<and> webhook_parse_hex32 hex = Some (mac body))"
  by (auto simp: verify_github_signature_def strip_prefix_Some split: option.splits if_splits)

lemma verify_github_signature_complete:
  assumes "hm secret = Some mac" "length (mac body) = 32"
  shows "verify_github_signature hm body (ascii ''sha256='' @ hex_encode (mac body)) secret = Inr ()"
  using assms by (auto simp: verify_github_signature_ok webhook_parse_hex32_def webhook_hex.decode_encode)

lemma is_fresh_iff: "is_fresh event now window \<longleftrightarrow> unat event \<le> unat now + unat window \<and> unat now \<le> unat event + unat window"
  by (auto simp: is_fresh_def word_le_nat_alt unat_abs_diff)

section \<open>Templates\<close>

text \<open>A template as literal texts, each followed by a placeholder, and a last literal text.\<close>

type_synonym segments = "(bytes \<times> bytes) list"

definition template_text :: "segments \<Rightarrow> bytes \<Rightarrow> bytes" where
  "template_text segs rst = concat (map (\<lambda>(lit, hole). lit @ OPEN @ hole @ CLOSE) segs) @ rst"

text \<open>The literal texts do not run into the opening braces, nor the placeholders into the closing ones.\<close>

definition segments_ok :: "segments \<Rightarrow> bool" where
  "segments_ok segs \<longleftrightarrow> list_all (\<lambda>(lit, hole). \<not> contains_bytes OPEN (lit @ [123]) \<and> \<not> contains_bytes CLOSE (hole @ [125])) segs"

fun fill :: "('n \<Rightarrow> bytes) \<Rightarrow> bytes \<Rightarrow> 'n json_value \<Rightarrow> segments \<Rightarrow> translate_error + bytes" where
  "fill num template event [] = Inr []"
| "fill num template event ((lit, hole) # segs) =
     (case resolve_inner num (trim hole) template event of
        Inl e \<Rightarrow> Inl e
      | Inr v \<Rightarrow> (case fill num template event segs of Inl e \<Rightarrow> Inl e | Inr s \<Rightarrow> Inr (lit @ v @ s)))"

lemma split_at_first:
  "\<not> contains_bytes [c, c] (lit @ [c]) \<Longrightarrow> split_at [c, c] (lit @ c # c # rest) = Some (lit, rest)"
proof (induction lit)
  case Nil
  show ?case by (subst split_at.simps) simp
next
  case (Cons b lit)
  have "strip_prefix [c, c] (b # lit @ c # c # rest) = None"
    using Cons.prems by (cases lit) (auto split: if_splits)
  then show ?case using Cons by (subst split_at.simps) simp
qed

lemma split_at_none: "\<not> contains_bytes [c, c] s \<Longrightarrow> split_at [c, c] s = None"
proof (induction s)
  case (Cons b s)
  have "strip_prefix [c, c] (b # s) = None" using Cons.prems by (cases s) (auto split: if_splits)
  then show ?case using Cons by (subst split_at.simps) simp
qed (simp add: split_at.simps)

lemma resolve_loop_fill:
  assumes "segments_ok segs"
  shows "resolve_loop num template event out (template_text segs rst) =
    (case fill num template event segs of Inl e \<Rightarrow> Inl e | Inr s \<Rightarrow> resolve_loop num template event (out @ s) rst)"
  using assms
proof (induction segs arbitrary: out)
  case (Cons seg segs)
  obtain lit hole where seg: "seg = (lit, hole)" by fastforce
  have form: "template_text (seg # segs) rst = lit @ OPEN @ hole @ CLOSE @ template_text segs rst" by (simp add: template_text_def seg)
  have "split_at OPEN (template_text (seg # segs) rst) = Some (lit, hole @ CLOSE @ template_text segs rst)"
    "split_at CLOSE (hole @ CLOSE @ template_text segs rst) = Some (hole, template_text segs rst)"
    using Cons.prems unfolding form by (simp_all add: segments_ok_def seg OPEN_def CLOSE_def split_at_first)
  moreover have "segments_ok segs" using Cons.prems by (simp add: segments_ok_def)
  ultimately show ?case using Cons.IH
    by (subst resolve_loop.simps) (auto simp: seg split: sum.splits)
qed (simp add: template_text_def)

lemma split_at_parts:
  "split_at [c, c] s = Some (pre, rest) \<Longrightarrow> s = pre @ c # c # rest \<and> \<not> contains_bytes [c, c] (pre @ [c])"
proof (induction s arbitrary: pre)
  case (Cons b s)
  show ?case
  proof (cases "strip_prefix [c, c] (b # s)")
    case (Some r)
    with Cons.prems have "pre = [] \<and> rest = r" by (subst (asm) split_at.simps) simp
    then show ?thesis using Some by (simp only: strip_prefix_Some) simp
  next
    case None
    then obtain pre' where pre: "pre = b # pre'" "split_at [c, c] s = Some (pre', rest)"
      using Cons.prems by (subst (asm) split_at.simps) auto
    with Cons.IH have "s = pre' @ c # c # rest" "\<not> contains_bytes [c, c] (pre' @ [c])" by blast+
    moreover from this None have "take 2 (b # pre' @ [c]) \<noteq> [c, c]" by (cases pre') (auto split: if_splits)
    ultimately show ?thesis by (simp add: pre)
  qed
qed (simp add: split_at.simps)

lemma split_at_absent: "split_at [c, c] s = None \<Longrightarrow> \<not> contains_bytes [c, c] s"
proof (induction s)
  case (Cons b s)
  from Cons.prems have "strip_prefix [c, c] (b # s) = None"
    by (subst (asm) split_at.simps) (auto split: option.splits)
  moreover from Cons.prems this have "split_at [c, c] s = None"
    by (subst (asm) split_at.simps) (simp split: option.splits)
  ultimately show ?case using Cons.IH by (cases s) (auto split: if_splits)
qed simp

lemma template_shape:
  "\<exists>segs rst. segments_ok segs \<and> s = template_text segs rst \<and> (split_at OPEN rst = None \<or>
     (\<exists>lit hole. rst = lit @ OPEN @ hole \<and> \<not> contains_bytes OPEN (lit @ [123]) \<and> split_at CLOSE hole = None))"
proof (induction s rule: length_induct)
  case (1 s)
  note IH = this
  show ?case
  proof (cases "split_at OPEN s")
    case None
    then show ?thesis by (intro exI [of _ "[]"] exI [of _ s]) (simp add: segments_ok_def template_text_def)
  next
    case (Some pa)
    then obtain pre aft where pre: "s = pre @ OPEN @ aft" "\<not> contains_bytes OPEN (pre @ [123])"
      using split_at_parts [of 123 s] by (cases pa) (auto simp: OPEN_def)
    show ?thesis
    proof (cases "split_at CLOSE aft")
      case None
      then show ?thesis using pre by (intro exI [of _ "[]"] exI [of _ s]) (auto simp: segments_ok_def template_text_def)
    next
      case (Some ir)
      then obtain inner rest where inner: "aft = inner @ CLOSE @ rest" "\<not> contains_bytes CLOSE (inner @ [125])"
        using split_at_parts [of 125 aft] by (cases ir) (auto simp: CLOSE_def)
      have "length rest < length s" by (simp add: pre inner OPEN_def)
      then obtain segs rst where rec: "segments_ok segs" "rest = template_text segs rst" "split_at OPEN rst = None \<or>
          (\<exists>lit hole. rst = lit @ OPEN @ hole \<and> \<not> contains_bytes OPEN (lit @ [123]) \<and> split_at CLOSE hole = None)"
        using IH by blast
      have "segments_ok ((pre, inner) # segs)" "s = template_text ((pre, inner) # segs) rst"
        using rec pre inner by (simp_all add: segments_ok_def template_text_def)
      then show ?thesis using rec(3) by blast
    qed
  qed
qed

section \<open>Pipelines\<close>

lemma resolve_steps_ok: "resolve_steps num ss event = Inr rs \<longleftrightarrow> list_all2 (\<lambda>s r. resolve_step num s event = Inr r) ss rs"
  by (induction num ss event arbitrary: rs rule: resolve_steps.induct)
    (auto simp: list_all2_Cons1 split: sum.splits)

lemma translate_pipelines_ok:
  "translate_pipelines num ps name event = Inr rs \<longleftrightarrow>
     list_all2 (\<lambda>p r. resolve_pipeline num p event = Inr r) (filter (\<lambda>p. pipeline_matches p name) ps) rs"
  by (induction num ps name event arbitrary: rs rule: translate_pipelines.induct)
    (auto simp: list_all2_Cons1 split: sum.splits)

text \<open>All or nothing: a translation succeeds exactly when every pipeline that matches the event
  resolves, and then gives exactly those, in the order of the manifest.\<close>

theorem translate_exact:
  "translate num manifest name event = Inr rs \<longleftrightarrow>
     list_all2 (\<lambda>p r. rp_name r = psc_name p \<and> list_all2 (\<lambda>s r. resolve_step num s event = Inr r) (psc_steps p) (rp_steps r))
       (filter (\<lambda>p. name \<in> set (psc_on_events p)) (ct_pipelines manifest)) rs"
proof -
  have "resolve_pipeline num p event = Inr r \<longleftrightarrow>
      rp_name r = psc_name p \<and> list_all2 (\<lambda>s r. resolve_step num s event = Inr r) (psc_steps p) (rp_steps r)" for p r
    by (cases r) (auto simp: resolve_pipeline_def resolve_steps_ok [symmetric] split: sum.splits)
  moreover have "(\<lambda>p. pipeline_matches p name) = (\<lambda>p. name \<in> set (psc_on_events p))"
    by (auto simp: pipeline_matches_def list_ex_iff fun_eq_iff)
  ultimately show ?thesis by (simp add: translate_def translate_pipelines_ok)
qed

section \<open>Properties\<close>


end
