(* ===== verification/Webhook_Listener.thy ===== *)
theory Webhook_Listener
  imports Webhook Intake Journal
begin

text \<open>
  The webhook listener (\<open>cosaci-webhook-listener/src/main.rs\<close>): a delivery is authenticated,
  matched against the manifest, and each matching pipeline becomes one signed submission,
  written as a line to standard output, which is the coordinator's standard input. The HTTP
  server is a sequence of requests, each with the wall clock at its handling; standard
  output breaks after a number of lines, or never. The JSON, CBOR and HMAC libraries are
  parameters.
\<close>

section \<open>State\<close>

record 'n listener_env =
  lx_json :: "bytes \<Rightarrow> bytes + 'n json_value"
  lx_num :: "'n \<Rightarrow> bytes"
  lx_hmac :: hmac
  lx_toml :: "bytes \<Rightarrow> bytes + cosaci_toml"
  lx_cbor_args :: "bytes \<Rightarrow> (i32 \<times> i32) option"
  lx_enc :: "job_submission_payload \<Rightarrow> string + bytes"
  lx_crypto :: crypto

record listener =
  ls_tenant_kp :: keypair
  ls_manifest :: cosaci_toml
  ls_github_secret :: bytes
  ls_gitlab_token :: bytes

definition ROUTE_GITHUB :: bytes where
  "ROUTE_GITHUB = ascii ''/webhook/github''"

definition ROUTE_GITLAB :: bytes where
  "ROUTE_GITLAB = ascii ''/webhook/gitlab''"

record request =
  rq_method :: bytes
  rq_url :: bytes
  rq_headers :: "(bytes \<times> bytes) list"
  rq_body :: "bytes option"
  rq_now :: u128

section \<open>Start\<close>

text \<open>The value after the first occurrence of a flag.\<close>

fun arg_or :: "bytes list \<Rightarrow> bytes \<Rightarrow> bytes \<Rightarrow> bytes" where
  "arg_or [] flag dflt = dflt"
| "arg_or (a # as) flag dflt = (if a = flag then (case as of [] \<Rightarrow> dflt | v # _ \<Rightarrow> v) else arg_or as flag dflt)"

definition trim_end_inplace :: "bytes \<Rightarrow> bytes" where
  "trim_end_inplace v = rev (dropWhile (\<lambda>b. b \<in> {32, 9, 10, 13}) (rev v))"

datatype setup_error = BadTenantId | MissingTenantId | MissingTenantKey | MissingManifest | MissingSecrets
  | ReadFailed bytes | ShortTenantKey | BadManifest manifest_error | TenantMismatch u64 u64 | EmptyGithubSecret | EmptyGitlabToken

type_synonym files = "bytes \<Rightarrow> bytes option"

definition read_to_string :: "files \<Rightarrow> bytes \<Rightarrow> setup_error + bytes" where
  "read_to_string fs path =
     (case fs path of None \<Rightarrow> Inl (ReadFailed path) | Some s \<Rightarrow> if utf8_valid s then Inr s else Inl (ReadFailed path))"

definition load_github_secret :: "files \<Rightarrow> bytes \<Rightarrow> setup_error + bytes" where
  "load_github_secret fs path =
     (if path = [] then Inr []
      else case fs path of None \<Rightarrow> Inl (ReadFailed path)
        | Some s \<Rightarrow> if trim_end_inplace s = [] then Inl EmptyGithubSecret else Inr (trim_end_inplace s))"

definition load_gitlab_token :: "files \<Rightarrow> bytes \<Rightarrow> setup_error + bytes" where
  "load_gitlab_token fs path =
     (if path = [] then Inr []
      else case read_to_string fs path of Inl e \<Rightarrow> Inl e
        | Inr s \<Rightarrow> if trim s = [] then Inl EmptyGitlabToken else Inr (trim s))"

definition listener_setup :: "'n listener_env \<Rightarrow> files \<Rightarrow> bytes list \<Rightarrow> setup_error + listener" where
  "listener_setup lx fs args =
     (let github_secret_path = arg_or args (ascii ''--github-secret'') [];
          gitlab_token_path = arg_or args (ascii ''--gitlab-token'') [];
          tenant_key_path = arg_or args (ascii ''--tenant-key'') [];
          manifest_path = arg_or args (ascii ''--manifest'') [] in
      case parse_u64 (arg_or args (ascii ''--tenant-id'') (ascii ''0'')) of
        None \<Rightarrow> Inl BadTenantId
      | Some tenant_id \<Rightarrow>
          if tenant_id = 0 then Inl MissingTenantId
          else if tenant_key_path = [] then Inl MissingTenantKey
          else if manifest_path = [] then Inl MissingManifest
          else if github_secret_path = [] \<and> gitlab_token_path = [] then Inl MissingSecrets
          else (case fs tenant_key_path of None \<Rightarrow> Inl (ReadFailed tenant_key_path)
          | Some seed \<Rightarrow>
              if length seed < 32 then Inl ShortTenantKey
              else (case read_to_string fs manifest_path of Inl e \<Rightarrow> Inl e
              | Inr manifest_text \<Rightarrow> (case parse_manifest (lx_toml lx) manifest_text of Inl e \<Rightarrow> Inl (BadManifest e)
              | Inr manifest \<Rightarrow>
                  if ct_tenant_id manifest \<noteq> tenant_id then Inl (TenantMismatch (ct_tenant_id manifest) tenant_id)
                  else (case load_github_secret fs github_secret_path of Inl e \<Rightarrow> Inl e
                  | Inr github_secret \<Rightarrow> (case load_gitlab_token fs gitlab_token_path of Inl e \<Rightarrow> Inl e
                  | Inr gitlab_token \<Rightarrow>
                      Inr \<lparr>ls_tenant_kp = keypair_from_seed (take 32 seed), ls_manifest = manifest,
                           ls_github_secret = github_secret, ls_gitlab_token = gitlab_token\<rparr>))))))"

section \<open>Events\<close>

definition ascii_lower :: "u8 \<Rightarrow> u8" where
  "ascii_lower b = (if 65 \<le> b \<and> b \<le> 90 then b + 32 else b)"

definition header :: "(bytes \<times> bytes) list \<Rightarrow> bytes \<Rightarrow> bytes option" where
  "header headers name = map_option snd (find (\<lambda>(k, _). map ascii_lower k = map ascii_lower name) headers)"

definition compose_event_name :: "bytes \<Rightarrow> 'n json_value \<Rightarrow> bytes" where
  "compose_event_name kind body =
     (case Option.bind (json_get body (ascii ''action'')) json_as_str of
        Some action \<Rightarrow> kind @ ascii ''.'' @ action
      | None \<Rightarrow>
          (case Option.bind (json_get body (ascii ''object_kind'')) json_as_str of
             Some object_kind \<Rightarrow> if object_kind \<noteq> kind then kind @ ascii ''.'' @ object_kind else kind
           | None \<Rightarrow> kind))"

definition seed_paths :: "bytes list" where
  "seed_paths = [ascii ''head_commit.id'', ascii ''pull_request.head.sha'', ascii ''checkout_sha'', ascii ''id'']"

definition fold_u128 :: "bytes \<Rightarrow> u128" where
  "fold_u128 s = from_le_bytes (take 16 s @ replicate (16 - length s) 0)"

fun first_seed :: "'n json_value \<Rightarrow> bytes list \<Rightarrow> bytes option" where
  "first_seed event [] = None"
| "first_seed event (path # paths) =
     (case Option.bind (walk_path event path) json_as_str of Some s \<Rightarrow> Some s | None \<Rightarrow> first_seed event paths)"

definition nonce_seed :: "'n json_value \<Rightarrow> u128 \<Rightarrow> u128" where
  "nonce_seed event now = (case first_seed event seed_paths of Some s \<Rightarrow> fold_u128 s | None \<Rightarrow> now)"

section \<open>Submissions\<close>

definition hex_to_bytes :: "bytes \<Rightarrow> bytes option" where
  "hex_to_bytes s = (if length s mod 2 \<noteq> 0 then None else hex_pairs webhook_hex_nibble s)"

definition decode_args_cbor_hex :: "'n listener_env \<Rightarrow> bytes \<Rightarrow> (i32 \<times> i32) option" where
  "decode_args_cbor_hex lx hex = (case hex_to_bytes hex of None \<Rightarrow> None | Some bs \<Rightarrow> lx_cbor_args lx bs)"

fun first_canned_args :: "'n listener_env \<Rightarrow> resolved_step list \<Rightarrow> (bytes \<times> i32 \<times> i32) option" where
  "first_canned_args lx [] = None"
| "first_canned_args lx (ResSourceFetch url reference # steps) = first_canned_args lx steps"
| "first_canned_args lx (ResExecWasm module_path args # steps) =
     Some (if contains_bytes (ascii ''mul'') module_path then ascii ''mul'' else ascii ''add'',
           case decode_args_cbor_hex lx args of Some ab \<Rightarrow> ab | None \<Rightarrow> (0, 0))"

definition payload_of :: "'n listener_env \<Rightarrow> cosaci_toml \<Rightarrow> u128 \<Rightarrow> nat \<times> resolved_pipeline \<Rightarrow> job_submission_payload" where
  "payload_of lx manifest nonce_base ip =
     (let (kind, a, b) = (case first_canned_args lx (rp_steps (snd ip)) of Some kab \<Rightarrow> kab | None \<Rightarrow> (ascii ''add'', 0, 0)) in
      \<lparr>js_tenant_id = ct_tenant_id manifest, js_kind = kind, js_a = a, js_b = b, js_deadline_secs = 60,
       js_nonce = nonce_base + of_nat (fst ip)\<rparr>)"

datatype handle_error = HandleBadSignature | HandleBadRequest bytes | HandleInternal translate_error

definition build_payloads :: "'n listener_env \<Rightarrow> cosaci_toml \<Rightarrow> bytes \<Rightarrow> 'n json_value \<Rightarrow> u128 \<Rightarrow> handle_error + job_submission_payload list" where
  "build_payloads lx manifest event_name event now =
     (case translate (lx_num lx) manifest event_name event of
        Inl e \<Rightarrow> Inl (HandleInternal e)
      | Inr resolved \<Rightarrow> Inr (map (payload_of lx manifest (nonce_seed event now)) (List.enumerate 0 resolved)))"

definition handle_event :: "'n listener_env \<Rightarrow> listener \<Rightarrow> bytes \<Rightarrow> (bytes \<times> bytes) list \<Rightarrow> bytes \<Rightarrow> bytes \<Rightarrow> u128 \<Rightarrow> handle_error + job_submission_payload list" where
  "handle_event lx ls body headers event_header missing now =
     (case header headers event_header of
        None \<Rightarrow> Inl (HandleBadRequest missing)
      | Some event_kind \<Rightarrow>
          (case lx_json lx body of
             Inl e \<Rightarrow> Inl (HandleBadRequest (ascii ''invalid JSON body: '' @ e))
           | Inr event \<Rightarrow> build_payloads lx (ls_manifest ls) (compose_event_name event_kind event) event now))"

definition handle_github :: "'n listener_env \<Rightarrow> listener \<Rightarrow> bytes \<Rightarrow> (bytes \<times> bytes) list \<Rightarrow> u128 \<Rightarrow> handle_error + job_submission_payload list" where
  "handle_github lx ls body headers now =
     (if ls_github_secret ls = []
      then Inl (HandleBadRequest (ascii ''github webhook delivered but --github-secret not configured''))
      else case header headers (ascii ''x-hub-signature-256'') of
        None \<Rightarrow> Inl HandleBadSignature
      | Some sig \<Rightarrow>
          (case verify_github_signature (lx_hmac lx) body sig (ls_github_secret ls) of
             Inl _ \<Rightarrow> Inl HandleBadSignature
           | Inr _ \<Rightarrow> handle_event lx ls body headers (ascii ''x-github-event'') (ascii ''missing X-GitHub-Event'') now))"

definition handle_gitlab :: "'n listener_env \<Rightarrow> listener \<Rightarrow> bytes \<Rightarrow> (bytes \<times> bytes) list \<Rightarrow> u128 \<Rightarrow> handle_error + job_submission_payload list" where
  "handle_gitlab lx ls body headers now =
     (if ls_gitlab_token ls = []
      then Inl (HandleBadRequest (ascii ''gitlab webhook delivered but --gitlab-token not configured''))
      else case header headers (ascii ''x-gitlab-token'') of
        None \<Rightarrow> Inl HandleBadSignature
      | Some provided \<Rightarrow>
          (case verify_gitlab_token provided (ls_gitlab_token ls) of
             Inl _ \<Rightarrow> Inl HandleBadSignature
           | Inr _ \<Rightarrow> handle_event lx ls body headers (ascii ''x-gitlab-event'') (ascii ''missing X-Gitlab-Event'') now))"

section \<open>Lines\<close>

definition show_i32 :: "i32 \<Rightarrow> bytes" where
  "show_i32 n = (if sint n < 0 then 45 # dec_digits (nat (- sint n)) else dec_digits (nat (sint n)))"

text \<open>The text of a submission, from the fields that are written without escaping.\<close>

definition submission_text :: "job_submission_payload \<Rightarrow> bytes \<Rightarrow> bytes \<Rightarrow> bytes" where
  \<open>submission_text p pk sig =
     ascii ''{"kind":"'' @ js_kind p @ ascii ''","a":'' @ show_i32 (js_a p) @ ascii '',"b":'' @ show_i32 (js_b p) @
     ascii '',"deadline_secs":'' @ dec_digits (unat (js_deadline_secs p)) @ ascii '',"tenant_id":'' @ show_u64 (js_tenant_id p) @
     ascii '',"nonce":'' @ dec_digits (unat (js_nonce p)) @ ascii '',"pubkey_hex":"'' @ hex_encode pk @
     ascii ''","signature_hex":"'' @ hex_encode sig @ ascii ''"}''\<close>

text \<open>\<open>None\<close> when encoding the payload panics.\<close>

definition sign_and_serialize :: "'n listener_env \<Rightarrow> job_submission_payload \<Rightarrow> keypair \<Rightarrow> bytes option" where
  "sign_and_serialize lx p kp =
     (case canonical_bytes (lx_enc lx) p of
        Inl _ \<Rightarrow> None
      | Inr buf \<Rightarrow> Some (submission_text p (keypair_verifying_key (lx_crypto lx) kp) (keypair_sign (lx_crypto lx) kp buf)))"

section \<open>The server\<close>

text \<open>What has been answered and written, how many more lines standard output takes, and
  whether the process is still up.\<close>

record server =
  sv_replies :: "(nat \<times> bytes) list"
  sv_out :: "bytes list"
  sv_room :: "nat option"
  sv_up :: bool

definition respond :: "nat \<Rightarrow> bytes \<Rightarrow> server \<Rightarrow> server" where
  "respond code body sv = sv\<lparr>sv_replies := sv_replies sv @ [(code, body)]\<rparr>"

definition write_line :: "bytes \<Rightarrow> server \<Rightarrow> server" where
  "write_line line sv =
     (if sv_room sv = Some 0 then sv\<lparr>sv_up := False\<rparr>
      else sv\<lparr>sv_out := sv_out sv @ [line], sv_room := map_option (\<lambda>n. n - 1) (sv_room sv)\<rparr>)"

fun write_submissions :: "'n listener_env \<Rightarrow> keypair \<Rightarrow> job_submission_payload list \<Rightarrow> server \<Rightarrow> server" where
  "write_submissions lx kp [] sv = sv"
| "write_submissions lx kp (p # ps) sv =
     (case sign_and_serialize lx p kp of
        None \<Rightarrow> sv\<lparr>sv_up := False\<rparr>
      | Some line \<Rightarrow> if sv_up (write_line line sv) then write_submissions lx kp ps (write_line line sv) else write_line line sv)"

definition route_of :: "request \<Rightarrow> bytes" where
  "route_of rq = takeWhile (\<lambda>b. b \<noteq> 63) (rq_url rq)"

definition finish_request :: "'n listener_env \<Rightarrow> listener \<Rightarrow> handle_error + job_submission_payload list \<Rightarrow> server \<Rightarrow> server" where
  "finish_request lx ls outcome sv =
     (case outcome of
        Inr ps \<Rightarrow>
          (let sv' = write_submissions lx (ls_tenant_kp ls) ps sv in
           if sv_up sv' then respond 202 (ascii ''accepted ('' @ dec_digits (length ps) @ ascii '' submission(s))'') sv' else sv')
      | Inl HandleBadSignature \<Rightarrow> respond 401 (ascii ''unauthorized'') sv
      | Inl (HandleBadRequest s) \<Rightarrow> respond 400 s sv
      | Inl (HandleInternal _) \<Rightarrow> respond 500 (ascii ''internal error'') sv)"

definition serve_request :: "'n listener_env \<Rightarrow> listener \<Rightarrow> request \<Rightarrow> server \<Rightarrow> server" where
  "serve_request lx ls rq sv =
     (if \<not> sv_up sv then sv
      else if rq_method rq \<noteq> ascii ''POST'' then respond 405 (ascii ''method not allowed'') sv
      else case rq_body rq of
        None \<Rightarrow> respond 400 (ascii ''bad request'') sv
      | Some body \<Rightarrow>
          if route_of rq = ROUTE_GITHUB then finish_request lx ls (handle_github lx ls body (rq_headers rq) (rq_now rq)) sv
          else if route_of rq = ROUTE_GITLAB then finish_request lx ls (handle_gitlab lx ls body (rq_headers rq) (rq_now rq)) sv
          else respond 404 (ascii ''no such route'') sv)"

definition server_start :: "nat option \<Rightarrow> server" where
  "server_start room = \<lparr>sv_replies = [], sv_out = [], sv_room = room, sv_up = True\<rparr>"

text \<open>A listener that starts serves one tenant, with a key of full length, and accepts at least one
  provider; a provider whose secret is not configured is refused on every request.\<close>

theorem listener_setup_ok:
  assumes "listener_setup lx fs args = Inr ls"
  shows "ct_tenant_id (ls_manifest ls) \<noteq> 0 \<and> length (kp_seed (ls_tenant_kp ls)) = 32 \<and> (ls_github_secret ls \<noteq> [] \<or> ls_gitlab_token ls \<noteq> [])"
  using assms unfolding listener_setup_def Let_def
  by (auto simp: keypair_from_seed_def load_github_secret_def load_gitlab_token_def min_def split: option.splits sum.splits if_splits)

section \<open>Deliveries\<close>

text \<open>A delivery that carries the secret of its provider, and the submissions it stands for.\<close>

definition authenticated :: "'n listener_env \<Rightarrow> listener \<Rightarrow> request \<Rightarrow> bytes \<Rightarrow> bytes \<Rightarrow> bool" where
  "authenticated lx ls rq body event_header \<longleftrightarrow> rq_method rq = ascii ''POST'' \<and> rq_body rq = Some body \<and>
     (route_of rq = ROUTE_GITHUB \<and> event_header = ascii ''x-github-event'' \<and> ls_github_secret ls \<noteq> [] \<and>
        (\<exists>mac hex. lx_hmac lx (ls_github_secret ls) = Some mac \<and> webhook_parse_hex32 hex = Some (mac body) \<and>
           header (rq_headers rq) (ascii ''x-hub-signature-256'') = Some (ascii ''sha256='' @ hex)) \<or>
      route_of rq = ROUTE_GITLAB \<and> event_header = ascii ''x-gitlab-event'' \<and> ls_gitlab_token ls \<noteq> [] \<and>
        header (rq_headers rq) (ascii ''x-gitlab-token'') = Some (ls_gitlab_token ls))"

definition delivered :: "'n listener_env \<Rightarrow> listener \<Rightarrow> request \<Rightarrow> job_submission_payload list \<Rightarrow> bool" where
  "delivered lx ls rq ps \<longleftrightarrow>
     (\<exists>body event_header kind event. authenticated lx ls rq body event_header \<and> header (rq_headers rq) event_header = Some kind \<and>
        lx_json lx body = Inr event \<and>
        build_payloads lx (ls_manifest ls) (compose_event_name kind event) event (rq_now rq) = Inr ps)"

lemma handle_event_ok:
  "handle_event lx ls body headers eh missing now = Inr ps \<longleftrightarrow>
     (\<exists>kind event. header headers eh = Some kind \<and> lx_json lx body = Inr event \<and>
        build_payloads lx (ls_manifest ls) (compose_event_name kind event) event now = Inr ps)"
  by (auto simp: handle_event_def split: option.splits sum.splits)

lemma case_verified: "(case x of Inl _ \<Rightarrow> a | Inr (_ :: unit) \<Rightarrow> b) = (if x = Inr () then b else a)"
  by (auto split: sum.split)

lemma handle_github_ok:
  "handle_github lx ls body headers now = Inr ps \<longleftrightarrow> ls_github_secret ls \<noteq> [] \<and>
     (\<exists>mac hex. lx_hmac lx (ls_github_secret ls) = Some mac \<and> webhook_parse_hex32 hex = Some (mac body) \<and>
           header headers (ascii ''x-hub-signature-256'') = Some (ascii ''sha256='' @ hex)) \<and>
     handle_event lx ls body headers (ascii ''x-github-event'') (ascii ''missing X-GitHub-Event'') now = Inr ps"
  unfolding handle_github_def
  by (cases "header headers (ascii ''x-hub-signature-256'')") (auto simp: case_verified verify_github_signature_ok)

lemma handle_gitlab_ok:
  "handle_gitlab lx ls body headers now = Inr ps \<longleftrightarrow> ls_gitlab_token ls \<noteq> [] \<and>
     header headers (ascii ''x-gitlab-token'') = Some (ls_gitlab_token ls) \<and>
     handle_event lx ls body headers (ascii ''x-gitlab-event'') (ascii ''missing X-Gitlab-Event'') now = Inr ps"
  unfolding handle_gitlab_def
  by (cases "header headers (ascii ''x-gitlab-token'')") (auto simp: case_verified verify_gitlab_token_ok)

lemma routes_differ: "ROUTE_GITHUB \<noteq> ROUTE_GITLAB"
  by (simp add: ROUTE_GITHUB_def ROUTE_GITLAB_def ascii_def)

text \<open>A request is answered without output, or it is a delivery and its submissions are written.\<close>

definition outcome_of :: "'n listener_env \<Rightarrow> listener \<Rightarrow> request \<Rightarrow> (handle_error + job_submission_payload list) option" where
  "outcome_of lx ls rq =
     (if rq_method rq \<noteq> ascii ''POST'' then None
      else case rq_body rq of
        None \<Rightarrow> None
      | Some body \<Rightarrow>
          if route_of rq = ROUTE_GITHUB then Some (handle_github lx ls body (rq_headers rq) (rq_now rq))
          else if route_of rq = ROUTE_GITLAB then Some (handle_gitlab lx ls body (rq_headers rq) (rq_now rq))
          else None)"

lemma outcome_delivered: "outcome_of lx ls rq = Some (Inr ps) \<longleftrightarrow> delivered lx ls rq ps"
proof (cases "rq_body rq")
  case (Some body)
  have d: "delivered lx ls rq ps \<longleftrightarrow> (\<exists>eh. authenticated lx ls rq body eh \<and> handle_event lx ls body (rq_headers rq) eh m (rq_now rq) = Inr ps)" for m
    using Some unfolding delivered_def handle_event_ok authenticated_def by auto
  show ?thesis
  proof (cases "rq_method rq = ascii ''POST''")
    case True
    consider "route_of rq = ROUTE_GITHUB" | "route_of rq = ROUTE_GITLAB" | "route_of rq \<noteq> ROUTE_GITHUB" "route_of rq \<noteq> ROUTE_GITLAB" by blast
    then show ?thesis
    proof cases
      case 1
      then show ?thesis using Some True routes_differ
        unfolding d [of "ascii ''missing X-GitHub-Event''"] outcome_of_def authenticated_def by (simp add: handle_github_ok)
    next
      case 2
      then show ?thesis using Some True routes_differ [symmetric]
        unfolding d [of "ascii ''missing X-Gitlab-Event''"] outcome_of_def authenticated_def by (simp add: handle_gitlab_ok)
    next
      case 3
      then show ?thesis using Some by (simp add: d [of "[]"] outcome_of_def authenticated_def)
    qed
  qed (simp add: d [of "[]"] outcome_of_def authenticated_def)
qed (simp add: delivered_def outcome_of_def authenticated_def)

lemma finish_error: "\<exists>code body. finish_request lx ls (Inl e) sv = respond code body sv"
  by (cases e) (auto simp: finish_request_def)

lemma serve_outcome:
  assumes "sv_up sv"
  shows "case outcome_of lx ls rq of
      None \<Rightarrow> \<exists>code body. serve_request lx ls rq sv = respond code body sv
    | Some out \<Rightarrow> serve_request lx ls rq sv = finish_request lx ls out sv"
  using assms by (cases "rq_body rq") (auto simp: serve_request_def outcome_of_def)

lemma serve_request_cases:
  assumes "sv_up sv"
  obtains (quiet) code body where "serve_request lx ls rq sv = respond code body sv"
    | (delivery) ps where "delivered lx ls rq ps" "serve_request lx ls rq sv = finish_request lx ls (Inr ps) sv"
proof (cases "outcome_of lx ls rq")
  case None
  then show thesis using serve_outcome [OF assms, of lx ls rq] quiet by auto
next
  case (Some out)
  then have eq: "serve_request lx ls rq sv = finish_request lx ls out sv" using serve_outcome [OF assms, of lx ls rq] by simp
  show thesis
  proof (cases out)
    case (Inl e)
    then show thesis using finish_error [of lx ls e sv] eq quiet by auto
  next
    case (Inr ps)
    then show thesis using eq Some by (intro delivery [of ps]) (simp_all add: outcome_delivered [symmetric])
  qed
qed

lemma serve_delivered:
  assumes "sv_up sv" "delivered lx ls rq ps"
  shows "serve_request lx ls rq sv = finish_request lx ls (Inr ps) sv"
  using serve_outcome [OF assms(1), of lx ls rq] assms(2) by (simp add: outcome_delivered [symmetric])

lemma write_line_frame: "sv_replies (write_line line sv) = sv_replies sv"
    "sv_out (write_line line sv) = sv_out sv \<or> sv_out (write_line line sv) = sv_out sv @ [line]"
  by (simp_all add: write_line_def)

lemma write_submissions_out:
  "sv_replies (write_submissions lx kp ps sv) = sv_replies sv \<and>
   (\<exists>new. sv_out (write_submissions lx kp ps sv) = sv_out sv @ new \<and> list_all (\<lambda>line. \<exists>p\<in>set ps. sign_and_serialize lx p kp = Some line) new)"
proof (induction ps arbitrary: sv)
  case (Cons p ps)
  show ?case
  proof (cases "sign_and_serialize lx p kp")
    case (Some line)
    obtain new where "sv_out (write_submissions lx kp ps (write_line line sv)) = sv_out (write_line line sv) @ new"
      "list_all (\<lambda>line. \<exists>p\<in>set ps. sign_and_serialize lx p kp = Some line) new"
      using Cons.IH by blast
    moreover have "list_all (\<lambda>line. \<exists>p\<in>set (p # ps). sign_and_serialize lx p kp = Some line) new"
      using calculation(2) by (auto simp: list_all_iff)
    ultimately show ?thesis using Cons.IH [of "write_line line sv"] write_line_frame [of line sv] Some
      by (cases "sv_up (write_line line sv)"; force)
  qed (simp add: exI [of _ "[]"])
qed simp

lemma write_submissions_unbounded:
  assumes "sv_room sv = None" "sv_up sv" "list_all (\<lambda>p. sign_and_serialize lx p kp = Some (f p)) ps"
  shows "write_submissions lx kp ps sv = sv\<lparr>sv_out := sv_out sv @ map f ps\<rparr>"
  using assms by (induction ps arbitrary: sv) (simp_all add: write_line_def)

section \<open>From the listener to the queue\<close>

definition payload_ok :: "cosaci_toml \<Rightarrow> job_submission_payload \<Rightarrow> bool" where
  "payload_ok manifest p \<longleftrightarrow> js_tenant_id p = ct_tenant_id manifest \<and> js_kind p \<in> {ascii ''add'', ascii ''mul''} \<and> js_deadline_secs p = 60"

lemma first_canned_kind: "first_canned_args lx steps = Some (kind, a, b) \<Longrightarrow> kind \<in> {ascii ''add'', ascii ''mul''}"
  by (induction lx steps rule: first_canned_args.induct) (auto split: if_splits)

lemma build_payloads_nth:
  assumes "build_payloads lx manifest name event now = Inr ps" "i < length ps"
  shows "js_nonce (ps ! i) = nonce_seed event now + of_nat i" "payload_ok manifest (ps ! i)"
proof -
  obtain rs where rs: "ps = map (payload_of lx manifest (nonce_seed event now)) (List.enumerate 0 rs)"
    using assms(1) by (auto simp: build_payloads_def split: sum.splits)
  then have p: "ps ! i = payload_of lx manifest (nonce_seed event now) (i, rs ! i)" using assms(2) by (simp add: nth_enumerate_eq)
  show "js_nonce (ps ! i) = nonce_seed event now + of_nat i" by (simp add: p payload_of_def split: prod.split)
  show "payload_ok manifest (ps ! i)" unfolding p payload_ok_def payload_of_def
    using first_canned_kind [of lx "rp_steps (rs ! i)"] by (auto split: option.split prod.split)
qed

lemma delivered_payload_ok:
  assumes "delivered lx ls rq ps" "p \<in> set ps"
  shows "payload_ok (ls_manifest ls) p"
  using assms build_payloads_nth(2) unfolding delivered_def in_set_conv_nth by metis

text \<open>The submission a line stands for, and that the coordinator's JSON parser reads it back from the text.\<close>

definition wire_of :: "job_submission_payload \<Rightarrow> bytes \<Rightarrow> bytes \<Rightarrow> legacy_job_submission" where
  "wire_of p pk sig =
     \<lparr>lj_kind = (if js_kind p = ascii ''mul'' then Mul else Add), lj_a = js_a p, lj_b = js_b p, lj_deadline_secs = js_deadline_secs p,
      lj_tenant_id = Some (js_tenant_id p), lj_nonce = Some (js_nonce p), lj_pubkey_hex = Some (hex_encode pk),
      lj_signature_hex = Some (hex_encode sig)\<rparr>"

definition reads_back :: "submission_json \<Rightarrow> job_submission_payload \<Rightarrow> bytes \<Rightarrow> bytes \<Rightarrow> bool" where
  "reads_back sj p pk sig \<longleftrightarrow>
     sj_value sj (submission_text p pk sig) = Some False \<and> sj_legacy sj (submission_text p pk sig) = Some (wire_of p pk sig)"

lemma wire_credentials:
  assumes "payload_ok manifest p" "length pk = 32" "length sig = 64"
  shows "credentials ix (SubLegacy (wire_of p pk sig)) = Some (js_tenant_id p, js_nonce p, pk, sig, canonical_bytes (ix_enc ix) p)"
proof -
  have "as_wire (if js_kind p = ascii ''mul'' then Mul else Add) = js_kind p" using assms(1) by (auto simp: payload_ok_def)
  then have "\<lparr>js_tenant_id = js_tenant_id p, js_kind = as_wire (if js_kind p = ascii ''mul'' then Mul else Add), js_a = js_a p, js_b = js_b p,
      js_deadline_secs = js_deadline_secs p, js_nonce = js_nonce p\<rparr> = p" by simp
  then show ?thesis using assms
    by (simp add: wire_of_def hex_field_roundtrip tenant_parse_hex32_def tenant_hex.decode_encode)
qed

lemma digits_ascii: "list_all (\<lambda>b. b < 128) (dec_digits n)"
  by (auto simp: list_all_iff word_less_nat_alt word_le_nat_alt dest!: dec_digits_range)

lemma submission_text_ascii:
  assumes "payload_ok manifest p"
  shows "list_all (\<lambda>b. b < 0x80) (submission_text p pk sig)"
proof -
  have "list_all (\<lambda>b. b < 0x80) (hex_encode bs)" for bs
    using hex_encode_range [of bs] by (auto simp: list_all_iff word_less_nat_alt word_le_nat_alt)
  moreover have "list_all (\<lambda>b. b < 0x80) (show_i32 n)" for n using digits_ascii by (simp add: show_i32_def)
  moreover have "list_all (\<lambda>b. b < 0x80) (js_kind p)" using assms by (auto simp: payload_ok_def ascii_def)
  ultimately show ?thesis using digits_ascii by (simp add: submission_text_def show_u64_def ascii_def)
qed

lemma submission_text_plain:
  assumes "payload_ok manifest p"
  shows "utf8_valid (submission_text p pk sig)" "trim (submission_text p pk sig) = submission_text p pk sig"
    "submission_text p pk sig \<noteq> []" "hd (submission_text p pk sig) = 123"
proof -
  show ne: "submission_text p pk sig \<noteq> []" and h: "hd (submission_text p pk sig) = 123"
    by (simp_all add: submission_text_def ascii_def)
  have "last (submission_text p pk sig) = 125" by (simp add: submission_text_def ascii_def)
  then show "trim (submission_text p pk sig) = submission_text p pk sig" using ne h by (intro trim_id) (simp_all add: is_space_def)
  show "utf8_valid (submission_text p pk sig)" by (rule utf8_valid_ascii, rule submission_text_ascii [OF assms])
qed

text \<open>What the listener and the coordinator agree on: the signature scheme, the encoding of a payload,
  and the sizes of keys and signatures.\<close>

definition same_scheme :: "'n listener_env \<Rightarrow> keypair \<Rightarrow> intake_env \<Rightarrow> bool" where
  "same_scheme lx kp ix \<longleftrightarrow> crypto_ok (lx_crypto lx) \<and> ix_crypto ix = lx_crypto lx \<and> ix_enc ix = lx_enc lx \<and>
     length (keypair_verifying_key (lx_crypto lx) kp) = 32"

text \<open>A submission of the listener at the gate: only the replay guard and the limiter decide.\<close>

lemma signed_submission_gate:
  assumes scheme: "same_scheme lx kp ix" and p: "payload_ok manifest p" "lx_enc lx p = Inr buf"
    and sig: "length (keypair_sign (lx_crypto lx) kp buf) = 64"
    and tenant: "tenant_get registry (ct_tenant_id manifest) = Some rec" "tn_signing_fp rec = cr_sha256 (lx_crypto lx) (keypair_verifying_key (lx_crypto lx) kp)"
  shows "check_submission ix clk (SubLegacy (wire_of p (keypair_verifying_key (lx_crypto lx) kp) (keypair_sign (lx_crypto lx) kp buf))) registry rl rg =
    admit_gate (Some rec) (\<lambda>_. True) (js_tenant_id p) (fold_replay_key (ix_crypto ix) (js_tenant_id p) (js_nonce p)) (fst clk) (snd clk) rl rg"
proof -
  have "authentic (ix_crypto ix) rec (keypair_verifying_key (lx_crypto lx) kp) (canonical_bytes (ix_enc ix) p) (keypair_sign (lx_crypto lx) kp buf)"
    using scheme p(2) tenant(2) by (simp add: same_scheme_def authentic_def tenant_fingerprint_def canonical_bytes_def key_valid verify_sign)
  moreover have len: "length (keypair_verifying_key (lx_crypto lx) kp) = 32" using scheme by (simp add: same_scheme_def)
  ultimately show ?thesis using tenant(1) p(1)
    unfolding check_submission_gate wire_credentials [OF p(1) len sig] by (simp add: payload_ok_def admit_gate_def)
qed

lemma admit_gate_passes:
  assumes "snd (rg_accept (fst reads) (fst (snd reads)) key now rg) = Inr ()"
    and "snd (rl_accept_with_config (snd (snd reads)) t 1 (tn_rate_capacity rec) (tn_rate_refill_per_sec rec) rl)"
  shows "\<exists>rl' rg'. admit_gate (Some rec) (\<lambda>_. True) t key now reads rl rg = (rl', rg', AuthOk)"
  using assms by (auto simp: admit_gate_def case_prod_beta)

lemma nonce_seed_commit:
  assumes "walk_path push (ascii ''head_commit.id'') = Some (JString commit)"
    and "walk_path pull (ascii ''head_commit.id'') = None" "walk_path pull (ascii ''pull_request.head.sha'') = Some (JString commit)"
  shows "nonce_seed push now = nonce_seed pull now'"
  using assms by (simp add: nonce_seed_def seed_paths_def)

section \<open>An example\<close>

text \<open>A GitHub delivery to a listener whose tenant is the one of the coordinator's example. Every body is the
  same event.\<close>

definition toy_lx :: "unit json_value \<Rightarrow> unit listener_env" where
  "toy_lx event = \<lparr>lx_json = (\<lambda>_. Inr event), lx_num = (\<lambda>_. []), lx_hmac = (\<lambda>_. Some (\<lambda>_. replicate 32 0)), lx_toml = (\<lambda>_. Inl []),
     lx_cbor_args = (\<lambda>_. Some (1, 2)), lx_enc = (\<lambda>_. Inr (replicate 32 3)), lx_crypto = toy_crypto\<rparr>"

definition toy_manifest :: cosaci_toml where
  "toy_manifest = \<lparr>ct_tenant_id = 1, ct_pipelines = [\<lparr>psc_name = [], psc_on_events = [ascii ''push'', ascii ''pull_request''], psc_steps = [SecExecWasm [] []]\<rparr>]\<rparr>"

definition toy_ls :: listener where
  "toy_ls = \<lparr>ls_tenant_kp = keypair_from_seed toy_key, ls_manifest = toy_manifest, ls_github_secret = [1], ls_gitlab_token = []\<rparr>"

definition toy_rq :: "bytes \<Rightarrow> u128 \<Rightarrow> request" where
  "toy_rq kind now = \<lparr>rq_method = ascii ''POST'', rq_url = ascii ''/webhook/github'',
     rq_headers = [(ascii ''X-Hub-Signature-256'', ascii ''sha256='' @ hex_encode (replicate 32 0)), (ascii ''X-GitHub-Event'', kind)],
     rq_body = Some [], rq_now = now\<rparr>"

definition toy_delivery :: "u128 \<Rightarrow> job_submission_payload" where
  "toy_delivery nonce = \<lparr>js_tenant_id = 1, js_kind = ascii ''add'', js_a = 1, js_b = 2, js_deadline_secs = 60, js_nonce = nonce\<rparr>"

lemma toy_build:
  "name \<in> {ascii ''push'', ascii ''pull_request''} \<Longrightarrow>
    build_payloads (toy_lx e) (ls_manifest toy_ls) name event now = Inr [toy_delivery (nonce_seed event now)]"
  by (auto simp: build_payloads_def toy_ls_def toy_manifest_def translate_def pipeline_matches_def resolve_pipeline_def
      has_placeholder_def OPEN_def payload_of_def toy_delivery_def decode_args_cbor_hex_def hex_to_bytes_def toy_lx_def ascii_def)

lemma toy_delivered: "delivered (toy_lx (JObject [])) toy_ls (toy_rq (ascii ''push'') 7) [toy_delivery 7]"
proof -
  have "authenticated (toy_lx (JObject [])) toy_ls (toy_rq (ascii ''push'') 7) [] (ascii ''x-github-event'')"
    by (auto simp: authenticated_def toy_rq_def toy_ls_def toy_lx_def route_of_def ROUTE_GITHUB_def ascii_def header_def ascii_lower_def
        webhook_parse_hex32_def webhook_hex.decode_encode)
  moreover have "header (rq_headers (toy_rq (ascii ''push'') 7)) (ascii ''x-github-event'') = Some (ascii ''push'')"
    by (simp add: toy_rq_def header_def ascii_def ascii_lower_def)
  moreover have "nonce_seed (JObject [] :: unit json_value) 7 = 7" by (simp add: nonce_seed_def seed_paths_def walk_path_def ascii_def)
  ultimately show ?thesis unfolding delivered_def
    by (intro exI [of _ "[]"] exI [of _ "ascii ''x-github-event''"] exI [of _ "ascii ''push''"] exI [of _ "JObject []"])
      (simp add: toy_build compose_event_name_def toy_rq_def toy_lx_def [of "JObject []", THEN arg_cong, of lx_json])
qed

lemma toy_keys [simp]: "keypair_verifying_key toy_crypto (ls_tenant_kp toy_ls) = toy_key"
    "keypair_sign toy_crypto (ls_tenant_kp toy_ls) m = toy_key @ m" "length toy_key = 32" "cr_sha256 toy_crypto toy_key = toy_key"
  by (simp_all add: toy_ls_def keypair_verifying_key_def keypair_sign_def keypair_from_seed_def toy_crypto_def toy_key_def)

lemma toy_lx_simps [simp]: "lx_crypto (toy_lx e) = toy_crypto" "lx_enc (toy_lx e) p = Inr (replicate 32 3)"
  by (simp_all add: toy_lx_def)

lemma toy_scheme: "same_scheme (toy_lx e) (ls_tenant_kp toy_ls) toy_ix"
  by (simp add: same_scheme_def toy_crypto_ok) (simp add: toy_lx_def toy_ix_def)

lemma toy_tenant: "tenant_get (au_registry toy_auth) (ct_tenant_id (ls_manifest toy_ls)) = Some (sample_tenant 2)" "toy_key = 9 # replicate 31 0"
  by (simp_all add: toy_auth_def toy_ls_def toy_manifest_def tenant_get_def toy_key_def)

lemma toy_gate:
  "snd (rg_accept 5 5 key 5 (au_replay toy_auth)) = Inr ()"
  "snd (rl_accept_with_config 5 t 1 2 0 (au_limiter toy_auth))"
  by (simp_all add: toy_auth_def rg_accept_def rg_sweep_def rg_new_def rl_accept_with_config_def rl_new_def tb_new_def tb_try_consume_def
      tb_refill_def hm_get_or_def Let_def hm_contains_def hm_retain_def tb_new_tokens_def sat_sub_def sat_add_def)

definition toy_push :: "unit json_value" where
  "toy_push = JObject [(ascii ''head_commit'', JObject [(ascii ''id'', JString [97])])]"

definition toy_pull :: "unit json_value" where
  "toy_pull = JObject [(ascii ''pull_request'', JObject [(ascii ''head'', JObject [(ascii ''sha'', JString [97])])])]"

lemma toy_events: "walk_path toy_push (ascii ''head_commit.id'') = Some (JString [97])"
    "walk_path toy_pull (ascii ''head_commit.id'') = None" "walk_path toy_pull (ascii ''pull_request.head.sha'') = Some (JString [97])"
  by (simp_all add: toy_push_def toy_pull_def walk_path_def ascii_def)

section \<open>Properties\<close>

text \<open>C9: The listener writes only what an authenticated delivery asks for: whatever requests arrive, and
  whenever standard output breaks, every line written is the signed form of a submission of a request whose
  body carries the HMAC of the configured GitHub secret, or which carries the configured GitLab token, and
  whose event matched a pipeline of the manifest. As long as the listener runs, every request is answered.\<close>
theorem webhook_output_authenticated:
  "let sv = fold (serve_request lx ls) rqs (server_start room) in
   list_all (\<lambda>line. \<exists>rq\<in>set rqs. \<exists>ps. delivered lx ls rq ps \<and> (\<exists>p\<in>set ps. sign_and_serialize lx p (ls_tenant_kp ls) = Some line)) (sv_out sv) \<and>
   (if sv_up sv then length (sv_replies sv) = length rqs else length (sv_replies sv) < length rqs)"
proof (induction rqs rule: rev_induct)
  case Nil
  show ?case by (simp add: server_start_def)
next
  case (snoc rq rqs)
  let ?sv = "fold (serve_request lx ls) rqs (server_start room)"
  let ?ok = "\<lambda>rqs line. \<exists>rq\<in>set rqs. \<exists>ps. delivered lx ls rq ps \<and> (\<exists>p\<in>set ps. sign_and_serialize lx p (ls_tenant_kp ls) = Some line)"
  have IH: "list_all (?ok (rqs @ [rq])) (sv_out ?sv)" "if sv_up ?sv then length (sv_replies ?sv) = length rqs else length (sv_replies ?sv) < length rqs"
    using snoc by (auto simp: Let_def list_all_iff)
  show ?case
  proof (cases "sv_up ?sv")
    case False
    then have "serve_request lx ls rq ?sv = ?sv" by (simp add: serve_request_def)
    then show ?thesis using IH False by (simp add: Let_def)
  next
    case True
    show ?thesis
    proof (cases rule: serve_request_cases [OF True, of lx ls rq])
      case (1 code body)
      then show ?thesis using IH True by (simp add: Let_def respond_def)
    next
      case (2 ps)
      obtain new where w: "sv_replies (write_submissions lx (ls_tenant_kp ls) ps ?sv) = sv_replies ?sv"
        "sv_out (write_submissions lx (ls_tenant_kp ls) ps ?sv) = sv_out ?sv @ new"
        "list_all (\<lambda>line. \<exists>p\<in>set ps. sign_and_serialize lx p (ls_tenant_kp ls) = Some line) new"
        using write_submissions_out by blast
      have "list_all (?ok (rqs @ [rq])) new" using w(3) 2(1) by (auto simp: list_all_iff)
      then show ?thesis using IH w(1,2) True unfolding fold_append comp_def fold.simps id_apply 2(2)
        by (simp add: Let_def finish_request_def respond_def)
    qed
  qed
qed



text \<open>Two events about one commit count as one: the nonce of a submission is made from the commit id of the
  event and the position of the pipeline, whatever the kind of the event is. When a push has been
  admitted, the pull request of the same commit, signed by the same tenant, is refused as a replay while the
  nonce is remembered, although it is a different event that may run a different pipeline.\<close>
theorem same_commit_refused:
  assumes scheme: "same_scheme lx (ls_tenant_kp ls) ix"
    and events: "walk_path push (ascii ''head_commit.id'') = Some (JString commit)"
      "walk_path pull (ascii ''head_commit.id'') = None" "walk_path pull (ascii ''pull_request.head.sha'') = Some (JString commit)"
    and payloads: "build_payloads lx (ls_manifest ls) name push now = Inr ps" "build_payloads lx (ls_manifest ls) name' pull now' = Inr ps'"
      "i < length ps" "i < length ps'"
    and signed: "lx_enc lx (ps ! i) = Inr buf" "lx_enc lx (ps' ! i) = Inr buf'" "pk = keypair_verifying_key (lx_crypto lx) (ls_tenant_kp ls)"
      "sig = keypair_sign (lx_crypto lx) (ls_tenant_kp ls) buf" "sig' = keypair_sign (lx_crypto lx) (ls_tenant_kp ls) buf'"
      "length sig = 64" "length sig' = 64"
    and tenant: "tenant_get registry (ct_tenant_id (ls_manifest ls)) = Some rec" "tn_signing_fp rec = cr_sha256 (lx_crypto lx) pk"
    and ok: "check_submission ix clk (SubLegacy (wire_of (ps ! i) pk sig)) registry rl rg = (rl1, rg1, AuthOk)"
    and guard: "rg_inv rg" "rg_ttl_ns rg \<noteq> 0" "in_window (rg_ttl_ns rg) (fst (snd (snd clk))) (fst (snd clk'))"
  shows "snd (snd (check_submission ix clk' (SubLegacy (wire_of (ps' ! i) pk sig')) registry rl' rg1)) = ReplayDetected"
proof -
  note p = build_payloads_nth [OF payloads(1,3)] and p' = build_payloads_nth [OF payloads(2,4)]
  have same: "js_nonce (ps' ! i) = js_nonce (ps ! i)" "js_tenant_id (ps' ! i) = js_tenant_id (ps ! i)"
    using p p' nonce_seed_commit [OF events, of now now'] by (simp_all add: payload_ok_def)
  let ?key = "fold_replay_key (ix_crypto ix) (js_tenant_id (ps ! i)) (js_nonce (ps ! i))"
  note gate = signed_submission_gate [OF scheme p(2) signed(1), of registry rec]
    and gate' = signed_submission_gate [OF scheme p'(2) signed(2), of registry rec]
  have "admit_gate (Some rec) (\<lambda>_. True) (js_tenant_id (ps ! i)) ?key (fst clk) (snd clk) rl rg = (rl1, rg1, AuthOk)"
    using ok gate signed tenant by simp
  from admit_gate_unadmitted [OF this] have rg1: "rg1 = fst (rg_accept (fst (snd clk)) (fst (snd (snd clk))) ?key (fst clk) rg)"
    and acc: "snd (rg_accept (fst (snd clk)) (fst (snd (snd clk))) ?key (fst clk) rg) = Inr ()" by simp_all
  have inv: "rg_inv rg1" "rg_ttl_ns rg1 = rg_ttl_ns rg"
    using replay_step_inv [OF guard(1), of "Accept (fst (snd clk)) (fst (snd (snd clk))) ?key (fst clk)"] by (simp_all add: rg1)
  have "hm_get (rg_accepted rg1) ?key = Some (fst (snd (snd clk)))" using rg_accept_records [OF acc] by (simp add: rg1)
  from rg_accept_known [OF inv(1) this, of "fst (snd clk')"] have "isl (snd (rg_accept (fst (snd clk')) (fst (snd (snd clk'))) ?key (fst clk') rg1))"
    using guard inv(2) by simp
  then show ?thesis using gate' signed tenant same by (simp add: admit_gate_def)
qed

theorem same_commit_refused_witness:
  "let send = (\<lambda>clk p rl rg. check_submission toy_ix clk (SubLegacy (wire_of p toy_key (toy_key @ replicate 32 3))) (au_registry toy_auth) rl rg);
       (rl, rg, v) = send (5, 5, 5, 5) (toy_delivery (nonce_seed toy_push 0)) (au_limiter toy_auth) (au_replay toy_auth)
   in v = AuthOk \<and> snd (snd (send (8, 8, 8, 8) (toy_delivery (nonce_seed toy_pull 9)) rl rg)) = ReplayDetected"
proof -
  let ?send = "\<lambda>clk p rl rg. check_submission toy_ix clk (SubLegacy (wire_of p toy_key (toy_key @ replicate 32 3))) (au_registry toy_auth) rl rg"
  let ?p = "toy_delivery (nonce_seed toy_push 0)" and ?p' = "toy_delivery (nonce_seed toy_pull 9)"
  have build: "build_payloads (toy_lx toy_push) (ls_manifest toy_ls) (ascii ''push'') toy_push 0 = Inr [?p]"
    "build_payloads (toy_lx toy_push) (ls_manifest toy_ls) (ascii ''pull_request'') toy_pull 9 = Inr [?p']" by (simp_all add: toy_build)
  obtain rl rg where ok: "?send (5, 5, 5, 5) ?p (au_limiter toy_auth) (au_replay toy_auth) = (rl, rg, AuthOk)"
    using signed_submission_gate [OF toy_scheme build_payloads_nth(2) [OF build(1), of 0] toy_lx_simps(2) _ toy_tenant(1),
        where clk = "(5, 5, 5, 5)" and rl = "au_limiter toy_auth" and rg = "au_replay toy_auth"]
      admit_gate_passes [of "(5, 5, 5)" "fold_replay_key toy_crypto (js_tenant_id ?p) (js_nonce ?p)" 5 "au_replay toy_auth" "js_tenant_id ?p"
        "sample_tenant 2" "au_limiter toy_auth"] toy_tenant(2)
    by (auto simp: toy_gate)
  have "snd (snd (?send (8, 8, 8, 8) ([?p'] ! 0) rl rg)) = ReplayDetected"
    by (rule same_commit_refused [OF toy_scheme toy_events build, where i = 0 and clk = "(5, 5, 5, 5)" and rg = "au_replay toy_auth"
          and rl = "au_limiter toy_auth" and rec = "sample_tenant 2"])
      (use ok in \<open>simp_all add: toy_tenant(1) toy_tenant(2) [symmetric] toy_guard in_window_def\<close>)
  then show ?thesis using ok by (simp add: Let_def)
qed

end
