(* ===== verification/Github_Checks.thy ===== *)
theory Github_Checks
  imports Status Text_Format
begin

text \<open>
  What is published of a job on the source forge (\<open>cosaci-state/src/github_checks.rs\<close>): the
  payload of a check run as a function of the job's status. The lemmas connect it to the
  status machine: along any sequence of transitions a check only moves forward, and once it
  is completed its payload never changes. Sending the payload is not part of the program.
\<close>

datatype check_status = CheckQueued | CheckInProgress | CheckCompleted

datatype check_conclusion = ConcludeSuccess | ConcludeFailure | ConcludeNeutral | ConcludeCancelled | ConcludeSkipped

record check_output =
  co_title :: bytes
  co_summary :: bytes

record check_run_payload =
  cp_name :: bytes
  cp_head_sha :: bytes
  cp_status :: check_status
  cp_conclusion :: "check_conclusion option"
  cp_details_url :: "bytes option"
  cp_output :: check_output

record job_context =
  jc_name :: bytes
  jc_commit_sha :: bytes
  jc_details_url :: "bytes option"
  jc_summary :: bytes
  jc_title :: bytes

fun status_to_check_status :: "status \<Rightarrow> check_status \<times> check_conclusion option" where
  "status_to_check_status Pending = (CheckQueued, None)"
| "status_to_check_status Running = (CheckInProgress, None)"
| "status_to_check_status QuorumVerifying = (CheckInProgress, None)"
| "status_to_check_status Success = (CheckCompleted, Some ConcludeSuccess)"
| "status_to_check_status Failure = (CheckCompleted, Some ConcludeFailure)"

definition build_payload :: "status \<Rightarrow> job_context \<Rightarrow> check_run_payload" where
  "build_payload s ctx =
     (let (check_status, conclusion) = status_to_check_status s in
      \<lparr>cp_name = jc_name ctx, cp_head_sha = jc_commit_sha ctx, cp_status = check_status, cp_conclusion = conclusion,
       cp_details_url = jc_details_url ctx, cp_output = \<lparr>co_title = jc_title ctx, co_summary = jc_summary ctx\<rparr>\<rparr>)"

section \<open>Checks and the status machine\<close>

fun check_rank :: "check_status \<Rightarrow> nat" where
  "check_rank CheckQueued = 0"
| "check_rank CheckInProgress = 1"
| "check_rank CheckCompleted = 2"

text \<open>A conclusion is given exactly for a completed check, which is a job in a final status.\<close>

lemma conclusion_iff_completed:
  "cp_conclusion (build_payload s ctx) \<noteq> None \<longleftrightarrow> cp_status (build_payload s ctx) = CheckCompleted"
  "cp_status (build_payload s ctx) = CheckCompleted \<longleftrightarrow> status_is_terminal s"
  by (cases s; simp add: build_payload_def status_is_terminal_def)+

lemma sm_step_rank: "check_rank (cp_status (build_payload (sm_current m) ctx)) \<le> check_rank (cp_status (build_payload (sm_current (sm_step to m)) ctx))"
  by (cases "sm_current m"; cases to) (simp_all add: sm_step_def sm_transition_def build_payload_def status_is_terminal_def)

theorem check_moves_forward:
  "check_rank (cp_status (build_payload (sm_current (fold sm_step as sm_new)) ctx)) \<le>
   check_rank (cp_status (build_payload (sm_current (fold sm_step (as @ bs) sm_new)) ctx))"
proof (induction bs rule: rev_induct)
  case (snoc b bs)
  then show ?case using sm_step_rank [of "fold sm_step (as @ bs) sm_new" ctx b] by simp
qed simp

theorem completed_check_final:
  assumes "cp_status (build_payload (sm_current (fold sm_step as sm_new)) ctx) = CheckCompleted"
  shows "build_payload (sm_current (fold sm_step (as @ bs) sm_new)) ctx = build_payload (sm_current (fold sm_step as sm_new)) ctx"
  using assms status_terminal_final [of as bs] by (simp only: conclusion_iff_completed)

end
