(* ===== verification/Admin_Cli.thy ===== *)
theory Admin_Cli
  imports Admin_Api
begin

text \<open>
  The administration tool (\<open>cosaci-admin/src/main.rs\<close>). Each command works on local files or
  talks to a coordinator. The state is the file system and what has been sent on the
  connection; a peer is the function from the bytes it has received to all it has sent back.
  A file is replaced through a temporary file beside it, and \<open>write_fault\<close> says where this
  stops. What a command prints is given as data, without the layout of the tables. Text files
  hold valid UTF-8. Printing a single-precision number and the TLS configuration are
  parameters.
\<close>

section \<open>Flags\<close>

datatype cli_error = MissingFlag bytes | InvalidFlag bytes | ReputationOutOfRange | LoadFailed bytes | AlreadyEnrolled u64
  | AlreadyRegistered u64 | NothingToRevoke bytes | NotInFile u64 | WriteFailed bytes | KeyUnreadable bytes | ShortAdminKey
  | ConnectFailed | ClockBeforeEpoch | WriteRequestFailed | ReadResponseFailed | CoordRejected bytes | UnexpectedResponse envelope
  | OpenFailed bytes | WrongCaptures u64 u64 | UnknownVerb bytes | MissingVerb | UnknownSubcommand bytes

fun optional_flag :: "bytes list \<Rightarrow> bytes \<Rightarrow> bytes option" where
  "optional_flag [] flag = None"
| "optional_flag (a # as) flag = (if a = flag then (case as of [] \<Rightarrow> None | v # _ \<Rightarrow> Some v) else optional_flag as flag)"

definition required_flag :: "bytes list \<Rightarrow> bytes \<Rightarrow> cli_error + bytes" where
  "required_flag args flag = (case optional_flag args flag of None \<Rightarrow> Inl (MissingFlag flag) | Some v \<Rightarrow> Inr v)"

text \<open>The question mark operator, and a parse whose failure names its flag.\<close>

definition and_then :: "'e + 'a \<Rightarrow> ('a \<Rightarrow> 'e + 'b) \<Rightarrow> 'e + 'b" where
  "and_then r f = (case r of Inl e \<Rightarrow> Inl e | Inr x \<Rightarrow> f x)"

definition parsed :: "bytes \<Rightarrow> 'a option \<Rightarrow> cli_error + 'a" where
  "parsed flag p = (case p of None \<Rightarrow> Inl (InvalidFlag flag) | Some x \<Rightarrow> Inr x)"

definition cli_hex_digit :: "u8 \<Rightarrow> u8 option" where
  "cli_hex_digit b =
     (if 48 \<le> b \<and> b \<le> 57 then Some (b - 48)
      else if 97 \<le> b \<and> b \<le> 102 then Some (b - 97 + 10)
      else if 65 \<le> b \<and> b \<le> 70 then Some (b - 65 + 10)
      else None)"

definition cli_parse_hex32 :: "bytes \<Rightarrow> bytes option" where
  "cli_parse_hex32 s = (if length s \<noteq> 64 then None else hex_pairs cli_hex_digit s)"

section \<open>Files and connections\<close>

type_synonym file_system = "bytes \<Rightarrow> bytes option"

datatype write_fault = NoFault | CreateFault | WriteFault nat | RenameFault

record cli_env =
  cx_clock :: "int option"
  cx_pid :: nat
  cx_fault :: write_fault
  cx_show_f32 :: "rat \<Rightarrow> bytes"
  cx_ml :: merkle_lib
  cx_crypto :: crypto
  cx_codec :: "envelope codec"
  cx_client_config :: "bytes \<Rightarrow> bytes \<Rightarrow> bytes \<Rightarrow> bool"
  cx_server_name :: "bytes \<Rightarrow> bool"
  cx_peer :: "bytes \<Rightarrow> (bytes \<Rightarrow> bytes) option"

record cli_state =
  cl_files :: file_system
  cl_sent :: bytes

definition now_unix_ns :: "cli_env \<Rightarrow> int" where
  "now_unix_ns cx = (case cx_clock cx of Some n \<Rightarrow> sint (of_int n :: u64) | None \<Rightarrow> 0)"

definition tmp_path :: "cli_env \<Rightarrow> bytes \<Rightarrow> bytes" where
  "tmp_path cx path = path @ ascii ''.tmp.'' @ dec_digits (cx_pid cx)"

definition cli_write_atomic :: "cli_env \<Rightarrow> bytes \<Rightarrow> bytes \<Rightarrow> file_system \<Rightarrow> file_system \<times> bool" where
  "cli_write_atomic cx path content fs =
     (let tmp = tmp_path cx path in
      case cx_fault cx of
        CreateFault \<Rightarrow> (fs, False)
      | WriteFault n \<Rightarrow> (fs(tmp := Some (take n content)), False)
      | RenameFault \<Rightarrow> (fs(tmp := Some content), False)
      | NoFault \<Rightarrow> (fs(tmp := None, path := Some content), True))"

definition cli_append_atomic :: "cli_env \<Rightarrow> bytes \<Rightarrow> bytes \<Rightarrow> file_system \<Rightarrow> file_system \<times> bool" where
  "cli_append_atomic cx path line fs =
     (let existing = (case fs path of None \<Rightarrow> [] | Some b \<Rightarrow> b) in cli_write_atomic cx path (append_line line existing) fs)"

text \<open>A command's effect on the files, with the error or the output.\<close>

definition commit_write :: "file_system \<times> bool \<Rightarrow> bytes \<Rightarrow> 'o \<Rightarrow> cli_state \<Rightarrow> cli_state \<times> (cli_error + 'o)" where
  "commit_write r path out st = (st\<lparr>cl_files := fst r\<rparr>, if snd r then Inr out else Inl (WriteFailed path))"

text \<open>A connection: the peer, what was written to it, and how much of its answer has been read.\<close>

record wire_conn =
  wc_peer :: "bytes \<Rightarrow> bytes"
  wc_writer :: writer
  wc_read :: nat

definition wc_request :: "cli_env \<Rightarrow> envelope \<Rightarrow> wire_conn \<Rightarrow> wire_conn \<times> (cli_error + envelope)" where
  "wc_request cx env wc =
     (case write_envelope (cx_codec cx) env (wc_writer wc) of
        (w, Inl _) \<Rightarrow> (wc\<lparr>wc_writer := w\<rparr>, Inl WriteRequestFailed)
      | (w, Inr _) \<Rightarrow>
          (let received = wc_peer wc (wr_out w) in
           case read_envelope (cx_codec cx) (drop (wc_read wc) received) of
             Inl _ \<Rightarrow> (wc\<lparr>wc_writer := w\<rparr>, Inl ReadResponseFailed)
           | Inr (resp, rest) \<Rightarrow> (wc\<lparr>wc_writer := w, wc_read := length received - length rest\<rparr>, Inr resp)))"

definition open_stream :: "cli_env \<Rightarrow> bytes list \<Rightarrow> bytes \<Rightarrow> cli_error + wire_conn" where
  "open_stream cx args addr =
     and_then (required_flag args (ascii ''--ca'')) (\<lambda>ca. and_then (required_flag args (ascii ''--cert'')) (\<lambda>cert.
     and_then (required_flag args (ascii ''--key'')) (\<lambda>key.
       let server_name = (case optional_flag args (ascii ''--server-name'') of Some n \<Rightarrow> n | None \<Rightarrow> ascii ''cosaci.local'') in
       if \<not> cx_client_config cx ca cert key then Inl ConnectFailed
       else case cx_peer cx addr of
         None \<Rightarrow> Inl ConnectFailed
       | Some peer \<Rightarrow>
           if \<not> cx_server_name cx server_name then Inl ConnectFailed
           else Inr \<lparr>wc_peer = peer, wc_writer = \<lparr>wr_out = [], wr_room = None\<rparr>, wc_read = 0\<rparr>)))"

definition request_one :: "cli_env \<Rightarrow> bytes list \<Rightarrow> bytes \<Rightarrow> envelope \<Rightarrow> cli_state \<Rightarrow> cli_state \<times> (cli_error + envelope)" where
  "request_one cx args addr env st =
     (case open_stream cx args addr of
        Inl e \<Rightarrow> (st, Inl e)
      | Inr wc \<Rightarrow> (case wc_request cx env wc of (wc', r) \<Rightarrow> (st\<lparr>cl_sent := wr_out (wc_writer wc')\<rparr>, r)))"

definition admin_keypair :: "bytes list \<Rightarrow> file_system \<Rightarrow> cli_error + keypair" where
  "admin_keypair args fs =
     and_then (required_flag args (ascii ''--admin-key'')) (\<lambda>path.
       case fs path of
         None \<Rightarrow> Inl (KeyUnreadable path)
       | Some seed \<Rightarrow> if length seed < 32 then Inl ShortAdminKey else Inr (keypair_from_seed (take 32 seed)))"

definition admin_hello :: "crypto \<Rightarrow> keypair \<Rightarrow> u64 \<Rightarrow> envelope" where
  "admin_hello cr kp now = AdminHello (keypair_verifying_key cr kp) now (keypair_sign cr kp (ADMIN_HELLO_CHALLENGE @ le_bytes 8 now))"

text \<open>\<open>AdminWireConn::connect\<close> and \<open>request\<close>. The required flags of the stream are looked up before
  that of the key.\<close>

definition admin_call :: "cli_env \<Rightarrow> bytes list \<Rightarrow> bytes \<Rightarrow> envelope \<Rightarrow> cli_state \<Rightarrow> cli_state \<times> (cli_error + envelope)" where
  "admin_call cx args addr env st =
     (case and_then (required_flag args (ascii ''--ca'')) (\<lambda>_. and_then (required_flag args (ascii ''--cert'')) (\<lambda>_.
           and_then (required_flag args (ascii ''--key'')) (\<lambda>_. and_then (admin_keypair args (cl_files st)) (\<lambda>kp.
           and_then (open_stream cx args addr) (\<lambda>wc. case cx_clock cx of None \<Rightarrow> Inl ClockBeforeEpoch | Some n \<Rightarrow> Inr (kp, wc, of_int n)))))) of
        Inl e \<Rightarrow> (st, Inl e)
      | Inr (kp, wc, now) \<Rightarrow>
          (case wc_request cx (admin_hello (cx_crypto cx) kp now) wc of
             (wc1, Inl e) \<Rightarrow> (st\<lparr>cl_sent := wr_out (wc_writer wc1)\<rparr>, Inl e)
           | (wc1, Inr AdminWelcome) \<Rightarrow>
               (case wc_request cx env wc1 of (wc2, r) \<Rightarrow> (st\<lparr>cl_sent := wr_out (wc_writer wc2)\<rparr>, r))
           | (wc1, Inr (AdminError reason)) \<Rightarrow> (st\<lparr>cl_sent := wr_out (wc_writer wc1)\<rparr>, Inl (CoordRejected reason))
           | (wc1, Inr other) \<Rightarrow> (st\<lparr>cl_sent := wr_out (wc_writer wc1)\<rparr>, Inl (UnexpectedResponse other))))"

section \<open>Output\<close>

record agent_row =
  ro_runner_id :: u64
  ro_signing_short :: bytes
  ro_vrf_short :: bytes
  ro_enrolled_at :: int
  ro_reputation :: rat

record tenant_row =
  to_tenant_id :: u64
  to_signing_short :: bytes
  to_capacity :: u64
  to_refill :: u64
  to_registered_at :: u64

datatype cli_output = NoRunners | AgentTable "agent_row list" | EnrolledRunner u64 bytes bytes | RevokedRunner u64
  | NoTenants | TenantTable "tenant_row list" | AddedTenant u64 bytes u64 u64 | RevokedTenant u64
  | LogLength u64 bytes | LogEmpty | CapturesShown "captured_output list" bool | NoCaptures u64 u64 | UsageShown

type_synonym cli_command = "cli_env \<Rightarrow> bytes list \<Rightarrow> cli_state \<Rightarrow> cli_state \<times> (cli_error + cli_output)"

definition short_fp :: "bytes \<Rightarrow> bytes" where
  "short_fp fp = take 16 (hex_encode fp)"

text \<open>The replies every request may get besides its own.\<close>

definition other_reply :: "envelope \<Rightarrow> cli_error" where
  "other_reply env = (case env of AdminError reason \<Rightarrow> CoordRejected reason | _ \<Rightarrow> UnexpectedResponse env)"

definition answered :: "(envelope \<Rightarrow> cli_output option) \<Rightarrow> cli_state \<times> (cli_error + envelope) \<Rightarrow> cli_state \<times> (cli_error + cli_output)" where
  "answered expect r =
     (fst r, case snd r of Inl e \<Rightarrow> Inl e
        | Inr env \<Rightarrow> (case expect env of Some out \<Rightarrow> Inr out | None \<Rightarrow> Inl (other_reply env)))"

section \<open>Agents\<close>

definition file_row :: "enrolled_record \<Rightarrow> agent_row" where
  "file_row r = \<lparr>ro_runner_id = en_runner_id r, ro_signing_short = short_fp (en_signing_fp r), ro_vrf_short = short_fp (en_vrf_fp r),
     ro_enrolled_at = en_enrolled_at_unix_ns r, ro_reputation = en_initial_reputation r\<rparr>"

definition wire_row :: "admin_agent_record \<Rightarrow> agent_row" where
  "wire_row r = \<lparr>ro_runner_id = aar_runner_id r, ro_signing_short = short_fp (aar_signing_fp r), ro_vrf_short = short_fp (aar_vrf_fp r),
     ro_enrolled_at = aar_enrolled_at_unix_ns r,
     ro_reputation = fl 24 (of_nat (unat (min (aar_initial_reputation_thousandths r) 1000)) / 1000)\<rparr>"

definition agents_list_wire :: "bytes \<Rightarrow> cli_command" where
  "agents_list_wire addr cx args st =
     answered (\<lambda>env. case env of
         AdminAgentList entries \<Rightarrow> Some (if entries = [] then NoRunners else AgentTable (map wire_row (sort_key aar_runner_id entries)))
       | _ \<Rightarrow> None)
       (admin_call cx args addr AdminListAgents st)"

definition agents_list :: cli_command where
  "agents_list cx args st =
     (case optional_flag args (ascii ''--coord'') of
        Some addr \<Rightarrow> agents_list_wire addr cx args st
      | None \<Rightarrow>
          (st, and_then (required_flag args (ascii ''--enrollment'')) (\<lambda>path.
             case enroll_load (cl_files st path) of
               Inl _ \<Rightarrow> Inl (LoadFailed path)
             | Inr s \<Rightarrow> Inr (if s = [] then NoRunners else AgentTable (map file_row (sort_key en_runner_id (enroll_iter s)))))))"

definition unit_range :: "f32 \<Rightarrow> cli_error + rat" where
  "unit_range rep = (case rep of F32 x \<Rightarrow> if 0 \<le> x \<and> x \<le> 1 then Inr x else Inl ReputationOutOfRange | _ \<Rightarrow> Inl ReputationOutOfRange)"

definition enroll_args :: "cli_env \<Rightarrow> bytes list \<Rightarrow> cli_error + (u64 \<times> bytes \<times> bytes \<times> int \<times> rat)" where
  "enroll_args cx args =
     and_then (required_flag args (ascii ''--runner-id'')) (\<lambda>rid_s. and_then (parsed (ascii ''--runner-id'') (parse_u64 rid_s)) (\<lambda>runner_id.
     and_then (required_flag args (ascii ''--signing-fp'')) (\<lambda>sfp_s. and_then (required_flag args (ascii ''--vrf-fp'')) (\<lambda>vfp_s.
     and_then (parsed (ascii ''--reputation'') (parse_f32 (case optional_flag args (ascii ''--reputation'') of Some s \<Rightarrow> s | None \<Rightarrow> ascii ''1.0''))) (\<lambda>rep.
     and_then (unit_range rep) (\<lambda>reputation.
     and_then (parsed (ascii ''--signing-fp'') (cli_parse_hex32 sfp_s)) (\<lambda>signing_fp.
     and_then (parsed (ascii ''--vrf-fp'') (cli_parse_hex32 vfp_s)) (\<lambda>vrf_fp.
     and_then (case optional_flag args (ascii ''--at'') of None \<Rightarrow> Inr (now_unix_ns cx) | Some s \<Rightarrow> parsed (ascii ''--at'') (parse_i64 s)) (\<lambda>at_ns.
       Inr (runner_id, signing_fp, vrf_fp, at_ns, reputation))))))))))"

definition wire_thousandths :: "rat \<Rightarrow> u32" where
  "wire_thousandths reputation = of_int (max 0 (min 1000 (round_half_up (fl 24 (reputation * 1000)))))"

definition agents_enroll_wire :: "bytes \<Rightarrow> u64 \<Rightarrow> bytes \<Rightarrow> bytes \<Rightarrow> int \<Rightarrow> rat \<Rightarrow> cli_command" where
  "agents_enroll_wire addr runner_id signing_fp vrf_fp at_ns reputation cx args st =
     answered (\<lambda>env. if env = AdminEnrollAck then Some (EnrolledRunner runner_id (short_fp signing_fp) (short_fp vrf_fp)) else None)
       (admin_call cx args addr (AdminEnrollAgent runner_id signing_fp vrf_fp at_ns (wire_thousandths reputation)) st)"

definition cli_enrollment_line :: "cli_env \<Rightarrow> u64 \<Rightarrow> bytes \<Rightarrow> bytes \<Rightarrow> int \<Rightarrow> rat \<Rightarrow> bytes" where
  "cli_enrollment_line cx runner_id signing_fp vrf_fp at_ns reputation =
     show_u64 runner_id @ [32] @ enroll_fingerprint_hex signing_fp @ [32] @ enroll_fingerprint_hex vrf_fp @ [32] @
     show_i64 at_ns @ [32] @ cx_show_f32 cx reputation"

definition agents_enroll :: cli_command where
  "agents_enroll cx args st =
     (case enroll_args cx args of
        Inl e \<Rightarrow> (st, Inl e)
      | Inr (runner_id, signing_fp, vrf_fp, at_ns, reputation) \<Rightarrow>
          (case optional_flag args (ascii ''--coord'') of
             Some addr \<Rightarrow> agents_enroll_wire addr runner_id signing_fp vrf_fp at_ns reputation cx args st
           | None \<Rightarrow>
               (case required_flag args (ascii ''--enrollment'') of
                  Inl e \<Rightarrow> (st, Inl e)
                | Inr path \<Rightarrow>
                    (case (if cl_files st path = None then Inr enroll_new else enroll_load (cl_files st path)) of
                       Inl _ \<Rightarrow> (st, Inl (LoadFailed path))
                     | Inr existing \<Rightarrow>
                         if enroll_get existing runner_id \<noteq> None then (st, Inl (AlreadyEnrolled runner_id))
                         else commit_write
                           (cli_append_atomic cx path (cli_enrollment_line cx runner_id signing_fp vrf_fp at_ns reputation) (cl_files st))
                           path (EnrolledRunner runner_id (short_fp signing_fp) (short_fp vrf_fp)) st))))"

definition revoke_lines :: "cli_env \<Rightarrow> bytes \<Rightarrow> u64 \<Rightarrow> cli_output \<Rightarrow> cli_state \<Rightarrow> cli_state \<times> (cli_error + cli_output)" where
  "revoke_lines cx path k done_msg st =
     (case cl_files st path of
        None \<Rightarrow> (st, Inl (NothingToRevoke path))
      | Some original \<Rightarrow>
          (case remove_lines k original of
             (out, False) \<Rightarrow> (st, Inl (NotInFile k))
           | (out, True) \<Rightarrow> commit_write (cli_write_atomic cx path out (cl_files st)) path done_msg st))"

definition agents_revoke_wire :: "bytes \<Rightarrow> u64 \<Rightarrow> cli_command" where
  "agents_revoke_wire addr runner_id cx args st =
     answered (\<lambda>env. if env = AdminRevokeAck then Some (RevokedRunner runner_id) else None) (admin_call cx args addr (AdminRevokeAgent runner_id) st)"

definition agents_revoke :: cli_command where
  "agents_revoke cx args st =
     (case and_then (required_flag args (ascii ''--runner-id'')) (\<lambda>s. parsed (ascii ''--runner-id'') (parse_u64 s)) of
        Inl e \<Rightarrow> (st, Inl e)
      | Inr runner_id \<Rightarrow>
          (case optional_flag args (ascii ''--coord'') of
             Some addr \<Rightarrow> agents_revoke_wire addr runner_id cx args st
           | None \<Rightarrow> (case required_flag args (ascii ''--enrollment'') of
               Inl e \<Rightarrow> (st, Inl e)
             | Inr path \<Rightarrow> revoke_lines cx path runner_id (RevokedRunner runner_id) st)))"

definition verb_command :: "(bytes \<times> cli_command) list \<Rightarrow> cli_command" where
  "verb_command verbs cx args st =
     (case args of
        [] \<Rightarrow> (st, Inl MissingVerb)
      | verb # rest \<Rightarrow> (case map_of verbs verb of Some cmd \<Rightarrow> cmd cx rest st | None \<Rightarrow> (st, Inl (UnknownVerb verb))))"

definition agents_cmd :: cli_command where
  "agents_cmd = verb_command [(ascii ''list'', agents_list), (ascii ''enroll'', agents_enroll), (ascii ''revoke'', agents_revoke)]"

section \<open>Tenants\<close>

definition tenant_file_row :: "tenant_record \<Rightarrow> tenant_row" where
  "tenant_file_row r = \<lparr>to_tenant_id = tn_tenant_id r, to_signing_short = short_fp (tn_signing_fp r), to_capacity = tn_rate_capacity r,
     to_refill = tn_rate_refill_per_sec r, to_registered_at = tn_registered_at_unix_ns r\<rparr>"

definition tenant_wire_row :: "admin_tenant_record \<Rightarrow> tenant_row" where
  "tenant_wire_row r = \<lparr>to_tenant_id = atr_tenant_id r, to_signing_short = short_fp (atr_signing_fp r), to_capacity = atr_rate_capacity r,
     to_refill = atr_rate_refill_per_sec r, to_registered_at = atr_registered_at_unix_ns r\<rparr>"

definition tenants_list_wire :: "bytes \<Rightarrow> cli_command" where
  "tenants_list_wire addr cx args st =
     answered (\<lambda>env. case env of
         AdminTenantList entries \<Rightarrow> Some (if entries = [] then NoTenants else TenantTable (map tenant_wire_row (sort_key atr_tenant_id entries)))
       | _ \<Rightarrow> None)
       (admin_call cx args addr AdminListTenants st)"

definition tenants_list :: cli_command where
  "tenants_list cx args st =
     (case optional_flag args (ascii ''--coord'') of
        Some addr \<Rightarrow> tenants_list_wire addr cx args st
      | None \<Rightarrow>
          (st, and_then (required_flag args (ascii ''--tenants'')) (\<lambda>path.
             case tenant_load (cl_files st path) of
               Inl _ \<Rightarrow> Inl (LoadFailed path)
             | Inr reg \<Rightarrow> Inr (if reg = [] then NoTenants else TenantTable (map tenant_file_row (tenant_iter reg))))))"

definition tenant_args :: "cli_env \<Rightarrow> bytes list \<Rightarrow> cli_error + tenant_record" where
  "tenant_args cx args =
     and_then (required_flag args (ascii ''--tenant-id'')) (\<lambda>t_s. and_then (parsed (ascii ''--tenant-id'') (parse_u64 t_s)) (\<lambda>tenant_id.
     and_then (required_flag args (ascii ''--signing-fp'')) (\<lambda>sfp_s. and_then (parsed (ascii ''--signing-fp'') (cli_parse_hex32 sfp_s)) (\<lambda>signing_fp.
     and_then (required_flag args (ascii ''--rate-capacity'')) (\<lambda>cap_s. and_then (parsed (ascii ''--rate-capacity'') (parse_u64 cap_s)) (\<lambda>cap.
     and_then (required_flag args (ascii ''--rate-refill-per-sec'')) (\<lambda>refill_s. and_then (parsed (ascii ''--rate-refill-per-sec'') (parse_u64 refill_s)) (\<lambda>refill.
     and_then (case optional_flag args (ascii ''--at'') of None \<Rightarrow> Inr (of_int (max 0 (now_unix_ns cx))) | Some s \<Rightarrow> parsed (ascii ''--at'') (parse_u64 s)) (\<lambda>at_ns.
       Inr \<lparr>tn_tenant_id = tenant_id, tn_signing_fp = signing_fp, tn_rate_capacity = cap, tn_rate_refill_per_sec = refill,
            tn_registered_at_unix_ns = at_ns\<rparr>)))))))))"

definition tenants_add_wire :: "bytes \<Rightarrow> tenant_record \<Rightarrow> cli_command" where
  "tenants_add_wire addr r cx args st =
     answered (\<lambda>env. if env = AdminAddTenantAck
         then Some (AddedTenant (tn_tenant_id r) (short_fp (tn_signing_fp r)) (tn_rate_capacity r) (tn_rate_refill_per_sec r)) else None)
       (admin_call cx args addr
          (AdminAddTenant (tn_tenant_id r) (tn_signing_fp r) (tn_rate_capacity r) (tn_rate_refill_per_sec r) (tn_registered_at_unix_ns r)) st)"

definition tenants_add :: cli_command where
  "tenants_add cx args st =
     (case tenant_args cx args of
        Inl e \<Rightarrow> (st, Inl e)
      | Inr r \<Rightarrow>
          (case optional_flag args (ascii ''--coord'') of
             Some addr \<Rightarrow> tenants_add_wire addr r cx args st
           | None \<Rightarrow>
               (case required_flag args (ascii ''--tenants'') of
                  Inl e \<Rightarrow> (st, Inl e)
                | Inr path \<Rightarrow>
                    (case (if cl_files st path = None then Inr tenant_new else tenant_load (cl_files st path)) of
                       Inl _ \<Rightarrow> (st, Inl (LoadFailed path))
                     | Inr existing \<Rightarrow>
                         if tenant_get existing (tn_tenant_id r) \<noteq> None then (st, Inl (AlreadyRegistered (tn_tenant_id r)))
                         else commit_write (cli_append_atomic cx path (tenant_line r) (cl_files st)) path
                           (AddedTenant (tn_tenant_id r) (short_fp (tn_signing_fp r)) (tn_rate_capacity r) (tn_rate_refill_per_sec r)) st))))"

definition tenants_revoke_wire :: "bytes \<Rightarrow> u64 \<Rightarrow> cli_command" where
  "tenants_revoke_wire addr tenant_id cx args st =
     answered (\<lambda>env. if env = AdminRevokeTenantAck then Some (RevokedTenant tenant_id) else None) (admin_call cx args addr (AdminRevokeTenant tenant_id) st)"

definition tenants_revoke :: cli_command where
  "tenants_revoke cx args st =
     (case and_then (required_flag args (ascii ''--tenant-id'')) (\<lambda>s. parsed (ascii ''--tenant-id'') (parse_u64 s)) of
        Inl e \<Rightarrow> (st, Inl e)
      | Inr tenant_id \<Rightarrow>
          (case optional_flag args (ascii ''--coord'') of
             Some addr \<Rightarrow> tenants_revoke_wire addr tenant_id cx args st
           | None \<Rightarrow> (case required_flag args (ascii ''--tenants'') of
               Inl e \<Rightarrow> (st, Inl e)
             | Inr path \<Rightarrow> revoke_lines cx path tenant_id (RevokedTenant tenant_id) st)))"

definition tenants_cmd :: cli_command where
  "tenants_cmd = verb_command [(ascii ''list'', tenants_list), (ascii ''add'', tenants_add), (ascii ''revoke'', tenants_revoke)]"

section \<open>The log and the captures\<close>

definition log_root_wire :: "bytes \<Rightarrow> cli_command" where
  "log_root_wire addr cx args st =
     answered (\<lambda>env. case env of
         AdminLogRoot (Some r) len \<Rightarrow> Some (LogLength len (hex_encode r))
       | AdminLogRoot None len \<Rightarrow> Some LogEmpty
       | _ \<Rightarrow> None)
       (admin_call cx args addr AdminGetLogRoot st)"

text \<open>Opening the log creates the file when there is none.\<close>

definition cli_log_root :: cli_command where
  "cli_log_root cx args st =
     (case optional_flag args (ascii ''--coord'') of
        Some addr \<Rightarrow> log_root_wire addr cx args st
      | None \<Rightarrow>
          (case required_flag args (ascii ''--log'') of
             Inl e \<Rightarrow> (st, Inl e)
           | Inr path \<Rightarrow>
               (let content = (case cl_files st path of None \<Rightarrow> [] | Some b \<Rightarrow> b) in
                (st\<lparr>cl_files := (cl_files st)(path := Some content)\<rparr>,
                 case flog_open content of
                   Inl _ \<Rightarrow> Inl (OpenFailed path)
                 | Inr l \<Rightarrow> (case log_root (cx_ml cx) l of
                     Some r \<Rightarrow> Inr (LogLength (log_len l) (hex_encode r))
                   | None \<Rightarrow> Inr LogEmpty)))))"

definition log_cmd :: cli_command where
  "log_cmd = verb_command [(ascii ''root'', cli_log_root)]"

definition captures_get :: cli_command where
  "captures_get cx args st =
     (case and_then (required_flag args (ascii ''--read-addr'')) (\<lambda>addr.
           and_then (required_flag args (ascii ''--job-id'')) (\<lambda>j_s. and_then (parsed (ascii ''--job-id'') (parse_u64 j_s)) (\<lambda>job_id.
           and_then (required_flag args (ascii ''--runner-id'')) (\<lambda>r_s. and_then (parsed (ascii ''--runner-id'') (parse_u64 r_s)) (\<lambda>runner_id.
             Inr (addr, job_id, runner_id)))))) of
        Inl e \<Rightarrow> (st, Inl e)
      | Inr (addr, job_id, runner_id) \<Rightarrow>
          (let dump_bytes = optional_flag args (ascii ''--bytes'') \<noteq> None in
           case request_one cx args addr (GetCaptures job_id runner_id) st of
             (st', Inl e) \<Rightarrow> (st', Inl e)
           | (st', Inr (CapturesResponse j r captures)) \<Rightarrow>
               (st', if j \<noteq> job_id \<or> r \<noteq> runner_id then Inl (WrongCaptures j r) else Inr (CapturesShown captures dump_bytes))
           | (st', Inr (CapturesNotFound _ _)) \<Rightarrow> (st', Inr (NoCaptures job_id runner_id))
           | (st', Inr other) \<Rightarrow> (st', Inl (UnexpectedResponse other))))"

definition captures_cmd :: cli_command where
  "captures_cmd = verb_command [(ascii ''get'', captures_get)]"

section \<open>The tool\<close>

definition admin_main :: cli_command where
  "admin_main cx args st =
     (case args of
        [] \<Rightarrow> (st, Inr UsageShown)
      | cmd # rest \<Rightarrow>
          if cmd = ascii ''agents'' then agents_cmd cx rest st
          else if cmd = ascii ''tenants'' then tenants_cmd cx rest st
          else if cmd = ascii ''log'' then log_cmd cx rest st
          else if cmd = ascii ''captures'' then captures_cmd cx rest st
          else if cmd \<in> {ascii ''--help'', ascii ''-h'', ascii ''help''} then (st, Inr UsageShown)
          else (st, Inl (UnknownSubcommand cmd)))"

section \<open>Replacing a file\<close>

text \<open>Wherever a replacement stops, the file holds its old or its whole new content, and besides it only
  the temporary file may change.\<close>

lemma cli_write_atomic_cases:
  assumes "cli_write_atomic cx path content fs = (fs', ok)"
  shows "ok \<longleftrightarrow> cx_fault cx = NoFault" "fs' path = (if ok then Some content else fs path)"
    "p \<noteq> path \<Longrightarrow> p \<noteq> tmp_path cx path \<Longrightarrow> fs' p = fs p"
proof -
  have "tmp_path cx path \<noteq> path" by (simp add: tmp_path_def ascii_def)
  then show "ok \<longleftrightarrow> cx_fault cx = NoFault" "fs' path = (if ok then Some content else fs path)"
    "p \<noteq> path \<Longrightarrow> p \<noteq> tmp_path cx path \<Longrightarrow> fs' p = fs p"
    using assms by (auto simp: cli_write_atomic_def Let_def split: write_fault.splits)
qed

lemma cli_append_atomic_ok:
  assumes "cx_fault cx = NoFault"
  shows "cli_append_atomic cx path line fs =
    (fs(tmp_path cx path := None, path := Some (append_line line (case fs path of None \<Rightarrow> [] | Some b \<Rightarrow> b))), True)"
  using assms by (simp add: cli_append_atomic_def cli_write_atomic_def Let_def)

section \<open>Enrollment lines\<close>

lemma cli_hex_eq: "cli_parse_hex32 = enroll_parse_hex32"
  by (simp add: fun_eq_iff cli_parse_hex32_def enroll_parse_hex32_def cli_hex_digit_def [abs_def] hex_digit_def [abs_def])

lemma and_then_ok: "and_then r f = Inr y \<longleftrightarrow> (\<exists>x. r = Inr x \<and> f x = Inr y)"
  by (auto simp: and_then_def split: sum.split)

lemma parsed_ok: "parsed flag p = Inr x \<longleftrightarrow> p = Some x"
  by (auto simp: parsed_def split: option.split)

lemma unit_range_ok: "unit_range rep = Inr x \<longleftrightarrow> rep = F32 x \<and> 0 \<le> x \<and> x \<le> 1"
  by (auto simp: unit_range_def split: f32.split)

lemma enroll_args_ok:
  assumes "enroll_args cx args = Inr (rid, sfp, vfp, at_ns, rep)"
  shows "length sfp = 32" "length vfp = 32" "- (2 ^ 63) \<le> at_ns" "at_ns < 2 ^ 63" "0 \<le> rep" "rep \<le> 1"
proof -
  have "- (2 ^ 63) \<le> sint w \<and> sint w < 2 ^ 63" for w :: u64
    using sint_greater_eq [of w] sint_less [of w] by simp
  then have now: "- (2 ^ 63) \<le> now_unix_ns cx \<and> now_unix_ns cx < 2 ^ 63" by (auto simp: now_unix_ns_def split: option.split)
  show "length sfp = 32" "length vfp = 32"
    using assms hex_pairs_length [of cli_hex_digit _ sfp] hex_pairs_length [of cli_hex_digit _ vfp]
    by (auto simp: enroll_args_def and_then_ok parsed_ok cli_parse_hex32_def split: if_splits)
  show "- (2 ^ 63) \<le> at_ns" "at_ns < 2 ^ 63"
    using assms now parse_i64_range [of _ at_ns] by (auto simp: enroll_args_def and_then_ok parsed_ok split: option.splits)
  show "0 \<le> rep" "rep \<le> 1"
    using assms by (auto simp: enroll_args_def and_then_ok unit_range_ok)
qed

lemma round_bounds:
  assumes "0 \<le> x" "x \<le> 1"
  shows "0 \<le> round_half_up (fl 24 (x * 1000))" "round_half_up (fl 24 (x * 1000)) \<le> 1000"
proof -
  have "fl 24 (x * 1000) \<le> fl 24 1000" using assms(2) by (intro fl_mono) simp_all
  also have "fl 24 1000 = 1000" using fl_nat [of 1000 24] by simp
  finally have "round_half_up (fl 24 (x * 1000)) \<le> \<lfloor>1000 + 1 / 2 :: rat\<rfloor>" unfolding round_half_up_def by (intro floor_mono) simp
  also have "\<lfloor>1000 + 1 / 2 :: rat\<rfloor> = 1000" by (rule floor_unique) simp_all
  finally show "round_half_up (fl 24 (x * 1000)) \<le> 1000" .
  show "0 \<le> round_half_up (fl 24 (x * 1000))" using fl_nonneg [of 24 "x * 1000"] by (simp add: round_half_up_def)
qed

text \<open>The thousandths sent to the coordinator are those a file with the same number gives.\<close>

lemma wire_thousandths_milli:
  assumes "0 \<le> x" "x \<le> 1"
  shows "of_nat (min (unat (wire_thousandths x)) 1000) = reputation_milli x"
proof -
  let ?n = "round_half_up (fl 24 (x * 1000))"
  obtain k where k: "?n = int k" "k \<le> 1000" using round_bounds [OF assms] by (metis nat_int nat_le_iff of_nat_numeral zero_le_imp_eq_int)
  then have "wire_thousandths x = of_nat k" by (simp add: wire_thousandths_def)
  moreover have "unat (of_nat k :: u32) = k" using k(2) by (simp add: unat_of_nat)
  ultimately show ?thesis using k by (simp add: reputation_milli_def min_def)
qed

lemma cli_line:
  fixes rid :: u64
  assumes fp: "length sfp = 32" "length vfp = 32" and at: "- (2 ^ 63) \<le> at_ns" "at_ns < 2 ^ 63" and x: "0 \<le> x" "x \<le> 1"
    and shown: "parse_f32 (cx_show_f32 cx x) = Some (F32 x)" "word_bytes (cx_show_f32 cx x)"
  defines "l \<equiv> cli_enrollment_line cx rid sfp vfp at_ns x"
  shows "enroll_parse_line l = Inr \<lparr>en_runner_id = rid, en_signing_fp = sfp, en_vrf_fp = vfp, en_enrolled_at_unix_ns = at_ns,
      en_initial_reputation_milli = reputation_milli x\<rparr>"
    and "trim l = l" "10 \<notin> set l" "is_data l"
proof -
  let ?mid = "[32] @ enroll_fingerprint_hex sfp @ [32] @ enroll_fingerprint_hex vfp @ [32] @ show_i64 at_ns @ [32]"
  have l: "l = show_u64 rid @ ?mid @ cx_show_f32 cx x" by (simp add: l_def cli_enrollment_line_def)
  have mid: "set ?mid \<inter> {10, 13} = {}"
    using word_bytes_mid [OF enroll_fp_word [OF fp(1)]] word_bytes_mid [OF enroll_fp_word [OF fp(2)]]
      word_bytes_mid [OF word_show_i64] by auto
  show "trim l = l" "10 \<notin> set l" unfolding l by (rule line_of_words [OF word_show_u64 shown(2) mid])+
  have "hd (show_u64 rid) \<noteq> 35"
    using dec_digits_range [of "hd (show_u64 rid)" "unat rid"] word_show_u64 [of rid] by (auto simp: show_u64_def word_bytes_def)
  then show "is_data l" using word_show_u64 [of rid] by (simp add: is_data_def l hd_append word_bytes_def)
  show "enroll_parse_line l = Inr \<lparr>en_runner_id = rid, en_signing_fp = sfp, en_vrf_fp = vfp, en_enrolled_at_unix_ns = at_ns,
      en_initial_reputation_milli = reputation_milli x\<rparr>"
    by (intro enroll_parse_line_ok [of _ "show_u64 rid" "enroll_fingerprint_hex sfp" "enroll_fingerprint_hex vfp"
        "show_i64 at_ns" "cx_show_f32 cx x" _ x])
      (simp_all add: l fp x shown split_space_word enroll_fp_word word_show_i64 enroll_hex32_encode parse_show_i64 [OF at])
qed

lemma cli_line_loads:
  assumes "length sfp = 32" "length vfp = 32" "- (2 ^ 63) \<le> at_ns" "at_ns < 2 ^ 63" "0 \<le> x" "x \<le> 1"
    "parse_f32 (cx_show_f32 cx x) = Some (F32 x)" "word_bytes (cx_show_f32 cx x)"
    and s: "enroll_load (Some body) = Inr s" "enroll_get s rid = None"
  shows "enroll_load (Some (append_line (cli_enrollment_line cx rid sfp vfp at_ns x) body)) =
    Inr (hm_insert rid \<lparr>en_runner_id = rid, en_signing_fp = sfp, en_vrf_fp = vfp, en_enrolled_at_unix_ns = at_ns,
      en_initial_reputation_milli = reputation_milli x\<rparr> s)"
proof -
  note l = cli_line [OF assms(1-8), where rid = rid]
  have p: "enroll_parse_numbered 0 (trim (cli_enrollment_line cx rid sfp vfp at_ns x)) =
      Inr \<lparr>en_runner_id = rid, en_signing_fp = sfp, en_vrf_fp = vfp, en_enrolled_at_unix_ns = at_ns,
      en_initial_reputation_milli = reputation_milli x\<rparr>" using l by (simp add: enroll_parse_numbered_def)
  show ?thesis using enrollments.load_append [OF _ l(3) _ p] s l(2,4)
    by (simp add: enroll_load_as_file enroll_get_def)
qed

section \<open>A session with the coordinator\<close>

text \<open>The coordinator as a peer: what it has sent when it has received some bytes.\<close>

definition coord_peer :: "crypto \<Rightarrow> envelope codec \<Rightarrow> merkle_lib \<Rightarrow> admin_key_set \<Rightarrow> u64 \<Rightarrow> bool \<Rightarrow> log_backend \<Rightarrow> admin_state \<Rightarrow> bytes \<Rightarrow> bytes" where
  "coord_peer cr c ml keys now wok lg ast sent = wr_out (snd (handle_admin_client cr c ml keys now wok lg sent \<lparr>wr_out = [], wr_room = None\<rparr> ast))"

lemma read_nothing: "read_envelope c [] = Inl WireEof"
  by (simp add: read_envelope_def read_exact_def)

text \<open>A command line that connects to the coordinator, with a key the coordinator knows and a clock that
  agrees with the coordinator's.\<close>

definition session_ok :: "cli_env \<Rightarrow> bytes list \<Rightarrow> file_system \<Rightarrow> bytes \<Rightarrow> keypair \<Rightarrow> int \<Rightarrow> merkle_lib \<Rightarrow> admin_key_set \<Rightarrow> u64 \<Rightarrow> bool \<Rightarrow>
    log_backend \<Rightarrow> admin_state \<Rightarrow> bool" where
  "session_ok cx args fs addr kp t ml keys now wok lg ast \<longleftrightarrow>
     (\<exists>ca cert key. required_flag args (ascii ''--ca'') = Inr ca \<and> required_flag args (ascii ''--cert'') = Inr cert \<and>
        required_flag args (ascii ''--key'') = Inr key \<and> cx_client_config cx ca cert key) \<and>
     cx_server_name cx (case optional_flag args (ascii ''--server-name'') of Some n \<Rightarrow> n | None \<Rightarrow> ascii ''cosaci.local'') \<and>
     admin_keypair args fs = Inr kp \<and> cx_clock cx = Some t \<and>
     cx_peer cx addr = Some (coord_peer (cx_crypto cx) (cx_codec cx) ml keys now wok lg ast) \<and> crypto_ok (cx_crypto cx) \<and>
     admin_get keys (cr_sha256 (cx_crypto cx) (keypair_verifying_key (cx_crypto cx) kp)) \<noteq> None \<and>
     abs_diff now (of_int t) \<le> ADMIN_HELLO_FRESHNESS_NS"

lemma admin_call_coord:
  assumes session: "session_ok cx args (cl_files st) addr kp t ml keys now wok lg ast"
    and fits: "envelope_fits (cx_codec cx) (admin_hello (cx_crypto cx) kp (of_int t))" "envelope_fits (cx_codec cx) AdminWelcome"
      "envelope_fits (cx_codec cx) req" "envelope_fits (cx_codec cx) resp"
    and effect: "admin_request ml wok lg ast req = (ast', resp)"
  shows "\<exists>sent. admin_call cx args addr req st = (st\<lparr>cl_sent := sent\<rparr>, Inr resp) \<and>
    fst (handle_admin_client (cx_crypto cx) (cx_codec cx) ml keys now wok lg sent \<lparr>wr_out = [], wr_room = None\<rparr> ast) = ast'"
proof -
  obtain ca cert key r where flags: "required_flag args (ascii ''--ca'') = Inr ca" "required_flag args (ascii ''--cert'') = Inr cert"
      "required_flag args (ascii ''--key'') = Inr key" "cx_client_config cx ca cert key"
      "cx_server_name cx (case optional_flag args (ascii ''--server-name'') of Some n \<Rightarrow> n | None \<Rightarrow> ascii ''cosaci.local'')"
    and kp: "admin_keypair args (cl_files st) = Inr kp" and clock: "cx_clock cx = Some t"
    and peer: "cx_peer cx addr = Some (coord_peer (cx_crypto cx) (cx_codec cx) ml keys now wok lg ast)"
    and known: "crypto_ok (cx_crypto cx)" "admin_get keys (cr_sha256 (cx_crypto cx) (keypair_verifying_key (cx_crypto cx) kp)) = Some r"
      "abs_diff now (of_int t) \<le> ADMIN_HELLO_FRESHNESS_NS"
    using session unfolding session_ok_def by blast
  let ?c = "cx_codec cx" and ?cr = "cx_crypto cx" and ?w = "\<lparr>wr_out = [], wr_room = None\<rparr>"
  let ?hello = "admin_hello ?cr kp (of_int t)" and ?F = "envelope_frame ?c"
  let ?run = "\<lambda>sent. handle_admin_client ?cr ?c ml keys now wok lg sent ?w ast"
  have auth: "verify_admin_hello ?cr keys (keypair_verifying_key ?cr kp) (of_int t) (keypair_sign ?cr kp (ADMIN_HELLO_CHALLENGE @ le_bytes 8 (of_int t :: u64)))
      ADMIN_HELLO_CHALLENGE ADMIN_HELLO_FRESHNESS_NS now = AdminOk (ad_admin_id r)"
    unfolding verify_admin_hello_iff using known by (simp add: key_valid verify_sign)
  note rd = sync_stream.rd_frame [OF fits(1)] sync_stream.rd_frame [OF fits(2)] sync_stream.rd_frame [OF fits(3)] sync_stream.rd_frame [OF fits(4)]
  have rd0: "read_envelope ?c (?F m) = Inr (m, [])" if "envelope_fits ?c m" for m
    using sync_stream.rd_frame [OF that, of "[]"] by simp
  have first: "?run (?F ?hello) = (ast, \<lparr>wr_out = ?F AdminWelcome, wr_room = None\<rparr>)"
    using rd0 [OF fits(1)] auth by (simp add: handle_admin_client_def admin_hello_def write_envelope_unbounded [OF fits(2)] read_nothing)
  have second: "?run (?F ?hello @ ?F req) = (ast', \<lparr>wr_out = ?F AdminWelcome @ ?F resp, wr_room = None\<rparr>)"
    using rd(1) [of "?F req"] auth rd0 [OF fits(3)]
    by (simp add: handle_admin_client_def admin_hello_def write_envelope_unbounded [OF fits(2)] write_envelope_unbounded [OF fits(4)] effect)
  let ?wc = "\<lparr>wc_peer = coord_peer ?cr ?c ml keys now wok lg ast, wc_writer = ?w, wc_read = 0\<rparr>"
  let ?wc1 = "?wc\<lparr>wc_writer := \<lparr>wr_out = ?F ?hello, wr_room = None\<rparr>, wc_read := length (?F AdminWelcome)\<rparr>"
  have "open_stream cx args addr = Inr ?wc" using flags peer by (simp add: open_stream_def and_then_def)
  moreover have "wc_request cx ?hello ?wc = (?wc1, Inr AdminWelcome)"
    using first rd0 [OF fits(2)] by (simp add: wc_request_def write_envelope_unbounded [OF fits(1)] coord_peer_def Let_def)
  moreover have "\<exists>wc2. wc_request cx req ?wc1 = (wc2, Inr resp) \<and> wr_out (wc_writer wc2) = ?F ?hello @ ?F req"
    using second rd0 [OF fits(4)] by (simp add: wc_request_def write_envelope_unbounded [OF fits(3)] coord_peer_def Let_def)
  ultimately have "admin_call cx args addr req st = (st\<lparr>cl_sent := ?F ?hello @ ?F req\<rparr>, Inr resp)"
    using flags kp clock by (auto simp: admin_call_def and_then_def)
  then show ?thesis using second by auto
qed

section \<open>An example\<close>

text \<open>An agent enrolled in an empty file, once in place and once through a coordinator.\<close>

definition toy_fp :: bytes where
  "toy_fp = replicate 32 5"

definition toy_args :: "bytes list \<Rightarrow> bytes list" where
  "toy_args more_flags = [ascii ''--runner-id'', ascii ''7'', ascii ''--at'', ascii ''5''] @ more_flags @
     [ascii ''--signing-fp'', hex_encode toy_fp, ascii ''--vrf-fp'', hex_encode toy_fp]"

definition toy_local :: "bytes list" where
  "toy_local = [ascii ''--enrollment'', [101]]"

definition toy_remote :: "bytes list" where
  "toy_remote = [ascii ''--coord'', [99], ascii ''--ca'', [97], ascii ''--cert'', [97], ascii ''--key'', [97], ascii ''--admin-key'', [107]]"

definition toy_cli :: cli_state where
  "toy_cli = \<lparr>cl_files = [[101] \<mapsto> [], [107] \<mapsto> toy_fp], cl_sent = []\<rparr>"

definition toy_keys :: admin_key_set where
  "toy_keys = [(toy_fp, \<lparr>ad_admin_id = 4, ad_signing_fp = toy_fp, ad_enrolled_at_unix_ns = 0\<rparr>)]"

definition toy_ast :: admin_state where
  "toy_ast = \<lparr>as_enrollment = Some [], as_tenants_configured = False, as_tenants = None, as_registry = None\<rparr>"

definition toy_cli_codec :: "envelope codec" where
  "toy_cli_codec = \<lparr>cd_encode = (\<lambda>m. case m of AdminHello pk ts sig \<Rightarrow> 1 # le_bytes 8 ts @ pk @ sig
       | AdminEnrollAgent rid sfp vfp at_ns th \<Rightarrow> 2 # le_bytes 8 rid @ sfp @ vfp @ le_bytes 4 th @ le_bytes 8 (of_int at_ns :: u64)
       | AdminEnrollAck \<Rightarrow> [3] | _ \<Rightarrow> [0]),
     cd_decode = (\<lambda>bs. case bs of [] \<Rightarrow> None | k # b \<Rightarrow>
        if k = 1 then Some (AdminHello (take 32 (drop 8 b)) (from_le_bytes (take 8 b)) (drop 40 b))
        else if k = 2 then Some (AdminEnrollAgent (from_le_bytes (take 8 b)) (take 32 (drop 8 b)) (take 32 (drop 40 b))
          (sint (from_le_bytes (drop 76 b) :: u64)) (from_le_bytes (take 4 (drop 72 b))))
        else if k = 3 then Some AdminEnrollAck else Some AdminWelcome)\<rparr>"

definition toy_cx :: cli_env where
  "toy_cx = \<lparr>cx_clock = Some 100, cx_pid = 1, cx_fault = NoFault, cx_show_f32 = (\<lambda>_. [49]), cx_ml = toy_merkle, cx_crypto = toy_crypto,
     cx_codec = toy_cli_codec, cx_client_config = (\<lambda>_ _ _. True), cx_server_name = (\<lambda>_. True),
     cx_peer = (\<lambda>_. Some (coord_peer toy_crypto toy_cli_codec toy_merkle toy_keys 105 True (LogMem log_new) toy_ast))\<rparr>"

lemma toy_fp_length: "length toy_fp = 32"
  by (simp add: toy_fp_def)

lemma toy_fp_no_flag: "length flag \<noteq> 64 \<Longrightarrow> hex_encode toy_fp \<noteq> flag"
  using toy_fp_length by auto

lemma toy_shown: "parse_f32 (cx_show_f32 toy_cx 1) = Some (F32 1)" "word_bytes (cx_show_f32 toy_cx 1)"
  using parse_show_milli [of 1000] word_show_milli [of 1000] by (simp_all add: toy_cx_def show_milli_def)

lemma toy_default_reputation: "parse_f32 (ascii ''1.0'') = Some (F32 1)"
proof -
  have "parse_decimal [49, 46, 48] = Some 1"
    by (simp add: parse_decimal_def Let_def is_digit_def digit_value_def parse_exponent_def power_int_minus)
  from parse_f32_decimal [OF this] show ?thesis by (simp add: ascii_def is_digit_def)
qed

lemma toy_flags:
  "optional_flag (toy_args toy_local) (ascii ''--coord'') = None"
  "required_flag (toy_args toy_local) (ascii ''--enrollment'') = Inr [101]"
  "optional_flag (toy_args toy_remote) (ascii ''--coord'') = Some [99]"
  by (simp_all add: toy_args_def toy_local_def toy_remote_def ascii_def toy_fp_no_flag required_flag_def)

lemma toy_common_flags:
  assumes "fs \<in> {toy_local, toy_remote}"
  shows "optional_flag (toy_args fs) (ascii ''--runner-id'') = Some (ascii ''7'')" "optional_flag (toy_args fs) (ascii ''--at'') = Some (ascii ''5'')"
    "optional_flag (toy_args fs) (ascii ''--reputation'') = None" "optional_flag (toy_args fs) (ascii ''--signing-fp'') = Some (hex_encode toy_fp)"
    "optional_flag (toy_args fs) (ascii ''--vrf-fp'') = Some (hex_encode toy_fp)"
  using assms by (auto simp: toy_args_def toy_local_def toy_remote_def ascii_def toy_fp_no_flag)

lemma toy_enroll_args:
  assumes "fs \<in> {toy_local, toy_remote}"
  shows "enroll_args toy_cx (toy_args fs) = Inr (7, toy_fp, toy_fp, 5, 1)"
proof -
  have "cli_parse_hex32 (hex_encode toy_fp) = Some toy_fp"
    using enroll_hex32_encode [OF toy_fp_length] by (simp add: cli_hex_eq enroll_fingerprint_hex_def)
  moreover have "parse_u64 (ascii ''7'') = Some 7" "parse_i64 (ascii ''5'') = Some 5"
    by (simp_all add: parse_u64_def parse_i64_def ascii_def Let_def digit_value_def unat_minus_one_word_eq)
  ultimately show ?thesis
    by (simp add: enroll_args_def required_flag_def toy_common_flags [OF assms] and_then_def parsed_def toy_default_reputation unit_range_def)
qed

lemma toy_session: "session_ok toy_cx (toy_args toy_remote) (cl_files toy_cli) [99] (keypair_from_seed toy_fp) 100 toy_merkle toy_keys 105 True (LogMem log_new) toy_ast"
proof -
  have "optional_flag (toy_args toy_remote) (ascii ''--ca'') = Some [97]" "optional_flag (toy_args toy_remote) (ascii ''--cert'') = Some [97]"
    "optional_flag (toy_args toy_remote) (ascii ''--key'') = Some [97]" "optional_flag (toy_args toy_remote) (ascii ''--admin-key'') = Some [107]"
    by (simp_all add: toy_args_def toy_remote_def ascii_def)
  moreover have "cr_sha256 toy_crypto (keypair_verifying_key toy_crypto (keypair_from_seed toy_fp)) = toy_fp"
    using toy_fp_length by (simp add: toy_crypto_def keypair_verifying_key_def keypair_from_seed_def)
  moreover have "abs_diff 105 (of_int 100 :: u64) \<le> ADMIN_HELLO_FRESHNESS_NS" by (simp add: abs_diff_def ADMIN_HELLO_FRESHNESS_NS_def)
  moreover have "cl_files toy_cli [107] = Some toy_fp" by (simp add: toy_cli_def)
  ultimately show ?thesis using toy_fp_length toy_crypto_ok
    by (simp add: session_ok_def required_flag_def admin_keypair_def and_then_def toy_keys_def admin_get_def)
      (simp add: toy_cx_def toy_keys_def)
qed

lemma toy_cli_fits:
  "envelope_fits toy_cli_codec (admin_hello toy_crypto (keypair_from_seed toy_fp) t)" "envelope_fits toy_cli_codec AdminWelcome"
  "envelope_fits toy_cli_codec (AdminEnrollAgent 7 toy_fp toy_fp 5 th)" "envelope_fits toy_cli_codec AdminEnrollAck"
proof -
  have "length ADMIN_HELLO_CHALLENGE = 21" by code_simp
  then show "envelope_fits toy_cli_codec (admin_hello toy_crypto (keypair_from_seed toy_fp) t)"
    using toy_fp_length by (simp add: envelope_fits_def toy_cli_codec_def MAX_ENVELOPE_BYTES_PUB_def admin_hello_def toy_crypto_def
        keypair_verifying_key_def keypair_sign_def keypair_from_seed_def)
qed (use toy_fp_length in \<open>simp_all add: envelope_fits_def toy_cli_codec_def MAX_ENVELOPE_BYTES_PUB_def\<close>)

section \<open>Properties\<close>



text \<open>They differ when there is no file yet: the tool creates it, the coordinator refuses.\<close>

theorem cli_modes_differ_without_file:
  assumes "enroll_args cx args = Inr (rid, sfp, vfp, at_ns, rep)" "optional_flag args (ascii ''--coord'') = None"
    "required_flag args (ascii ''--enrollment'') = Inr path" "cl_files st path = None" "cx_fault cx = NoFault"
  shows "snd (agents_enroll cx args st) = Inr (EnrolledRunner rid (short_fp sfp) (short_fp vfp))"
    "snd (admin_enroll_agent wok None rid sfp vfp at_ns th) = admin_error ''load enrollment: ''"
  using assms by (simp_all add: agents_enroll_def commit_write_def cli_append_atomic_ok enroll_new_def enroll_get_def admin_enroll_agent_def enroll_load_def)

text \<open>A flag is present only with a value after it, so \<open>--bytes\<close> at the end of the line, where the usage
  text puts it, has no effect.\<close>

theorem trailing_bytes_flag_ignored:
  assumes "ascii ''--bytes'' \<notin> set args"
  shows "captures_get cx (args @ [ascii ''--bytes'']) st \<noteq> (st', Inr (CapturesShown caps True))"
proof -
  have "optional_flag (args @ [ascii ''--bytes'']) (ascii ''--bytes'') = None" using assms by (induction args) auto
  then show ?thesis by (auto simp: captures_get_def Let_def split: sum.splits prod.splits envelope.splits if_splits)
qed

end
