(* ===== verification/Coordinator.thy ===== *)
theory Coordinator
  imports Webhook_Listener Job_Audit Admin_Api
begin

text \<open>
  The coordinator as a whole (\<open>main\<close> of \<open>cosaci-coordinator/src/main.rs\<close>): its files are opened,
  the fleet is accepted, and the job loop takes its work from the queue that the reader of
  standard input fills. A run is a sequence of events of the reader and of the loop, in any
  order; the read server and the administration server run beside it and are modelled in their
  own theories. The theorem says where everything that ends up in the log came from.
\<close>

section \<open>Start\<close>

definition demo_requirements :: job_requirements where
  "demo_requirements = \<lparr>req_cpu = 1, req_memory_mb = 256, req_platform = LinuxX86_64, req_runtimes = {Wasm}\<rparr>"

text \<open>A file that may be configured: \<open>None\<close> when the flag is missing, otherwise the content, if any.\<close>

type_synonym config_file = "bytes option option"

record coordinator_config =
  cf_enrollment :: config_file
  cf_journal :: config_file
  cf_tenants :: config_file
  cf_log :: config_file
  cf_admin_addr :: bool
  cf_admin_keys :: config_file
  cf_submit_stdin :: bool
  cf_a :: i32
  cf_b :: i32
  cf_captures_dir :: bytes
  cf_slash_fraction :: fval
  cf_fleet :: u64
  cf_committee_size :: nat
  cf_max_jobs :: u64
  cf_queue_cap :: nat

text \<open>\<open>i32::from_str\<close>.\<close>

definition parse_i32 :: "bytes \<Rightarrow> i32 option" where
  "parse_i32 s =
     (let neg = (s \<noteq> [] \<and> hd s = 45); ds = (if s \<noteq> [] \<and> (hd s = 45 \<or> hd s = 43) then tl s else s) in
      if ds = [] then None
      else case dec_value 0 ds of None \<Rightarrow> None
        | Some n \<Rightarrow> if neg then (if n \<le> 2 ^ 31 then Some (- of_nat n) else None) else if n < 2 ^ 31 then Some (of_nat n) else None)"

fun fval_of_f32 :: "f32 \<Rightarrow> fval" where
  "fval_of_f32 F32NaN = NaN"
| "fval_of_f32 (F32Inf neg) = (if neg then NegInf else PosInf)"
| "fval_of_f32 (F32 x) = Fin x"

definition file_flag :: "files \<Rightarrow> bytes list \<Rightarrow> string \<Rightarrow> config_file" where
  "file_flag fs args flag = (let path = arg_or args (ascii flag) [] in if path = [] then None else Some (fs path))"

text \<open>The command line; a number that does not parse is a panic. The flags of the addresses, of the
  certificates and of the timeout have no part in what follows.\<close>

definition coordinator_args :: "files \<Rightarrow> bytes list \<Rightarrow> coordinator_config option" where
  "coordinator_args fs args =
     (case (parse_u64 (arg_or args (ascii ''--fleet'') (ascii ''5'')), parse_u64 (arg_or args (ascii ''--committee'') (ascii ''3'')),
            parse_i32 (arg_or args (ascii ''--a'') (ascii ''21'')), parse_i32 (arg_or args (ascii ''--b'') (ascii ''21'')),
            parse_u64 (arg_or args (ascii ''--max-jobs'') (show_u64 (- 1))), parse_u64 (arg_or args (ascii ''--runner-timeout-secs'') (ascii ''30'')),
            parse_f32 (arg_or args (ascii ''--slash-fraction'') (ascii ''0.25'')), parse_u64 (arg_or args (ascii ''--queue-cap'') (ascii ''64'')),
            parse_u64 (arg_or args (ascii ''--max-concurrent-jobs'') (ascii ''1''))) of
        (Some fleet, Some committee_size, Some job_a, Some job_b, Some max_jobs, Some _, Some slash_fraction, Some queue_cap, Some _) \<Rightarrow>
          Some \<lparr>cf_enrollment = file_flag fs args ''--enrollment'', cf_journal = file_flag fs args ''--journal'',
            cf_tenants = file_flag fs args ''--tenants'', cf_log = file_flag fs args ''--log'',
            cf_admin_addr = (arg_or args (ascii ''--admin-addr'') [] \<noteq> []), cf_admin_keys = file_flag fs args ''--admin-keys'',
            cf_submit_stdin = (ascii ''--submit-stdin'' \<in> set args), cf_a = job_a, cf_b = job_b,
            cf_captures_dir = arg_or args (ascii ''--captures-dir'') [], cf_slash_fraction = fval_of_f32 slash_fraction,
            cf_fleet = fleet, cf_committee_size = unat committee_size, cf_max_jobs = max_jobs, cf_queue_cap = unat queue_cap\<rparr>
      | _ \<Rightarrow> None)"

section \<open>Opening the files\<close>

definition open_enrollment :: "config_file \<Rightarrow> enroll_error + enrollment_set option" where
  "open_enrollment f =
     (case f of None \<Rightarrow> Inr None
      | Some content \<Rightarrow> (case enroll_load content of Inl e \<Rightarrow> Inl e | Inr s \<Rightarrow> Inr (Some s)))"

text \<open>The journal, with what its replay says of the run before.\<close>

definition open_journal :: "json \<Rightarrow> config_file \<Rightarrow> file_error + (journal_state \<times> journal) option" where
  "open_journal js f =
     (case f of None \<Rightarrow> Inr None
      | Some content \<Rightarrow> (case journal_replay js content of Inl e \<Rightarrow> Inl e
          | Inr entries \<Rightarrow> Inr (Some (reconstruct_state entries, journal_open content))))"

definition open_auth :: "config_file \<Rightarrow> io_error + auth_state option" where
  "open_auth f =
     (case f of None \<Rightarrow> Inr None
      | Some content \<Rightarrow> (case tenant_load content of Inl e \<Rightarrow> Inl e | Inr registry \<Rightarrow> Inr (Some (auth_state_new registry))))"

definition open_log :: "config_file \<Rightarrow> file_error + log_backend" where
  "open_log f =
     (case f of None \<Rightarrow> Inr (LogMem log_new)
      | Some content \<Rightarrow> (case flog_open (case content of None \<Rightarrow> [] | Some b \<Rightarrow> b) of Inl e \<Rightarrow> Inl e | Inr l \<Rightarrow> Inr (LogFile l)))"

text \<open>The administration server is only started with a list of the keys it trusts;
  \<open>Inl None\<close> is the error of a missing list.\<close>

definition open_admin :: "bool \<Rightarrow> config_file \<Rightarrow> io_error option + admin_key_set option" where
  "open_admin addr f =
     (if \<not> addr then Inr None
      else case f of None \<Rightarrow> Inl None
      | Some content \<Rightarrow> (case admin_load content of Inl e \<Rightarrow> Inl (Some e) | Inr keys \<Rightarrow> Inr (Some keys)))"

section \<open>The loop and the reader\<close>

text \<open>The turns of the job loop in a run: each time it looks at the queue it takes the first
  submission, finds that the reader has gone, or waits.\<close>

definition take_turn :: "intake \<Rightarrow> poll" where
  "take_turn st =
     (case in_queue st of rs # _ \<Rightarrow> PollJob (rs_pipeline rs) | [] \<Rightarrow> if in_reading st then PollTimeout else PollClosed)"

fun turns_of :: "intake_env \<Rightarrow> intake_event list \<Rightarrow> intake \<Rightarrow> poll list" where
  "turns_of ix [] st = []"
| "turns_of ix (e # evs) st = (if e = EvTake then [take_turn st] else []) @ turns_of ix evs (intake_step ix e st)"

text \<open>Without the reader each turn is the next of the canned jobs. The flag set by a signal is seen in the
  turn after the events.\<close>

definition loop_turns :: "intake_env \<Rightarrow> coordinator_config \<Rightarrow> auth_state option \<Rightarrow> intake_event list \<Rightarrow> bool \<Rightarrow> poll list" where
  "loop_turns ix cfg auth evs draining =
     (if cf_submit_stdin cfg then turns_of ix evs (intake_start auth (cf_queue_cap cfg))
      else map (\<lambda>i. PollJob (round_robin ix (cf_a cfg) (cf_b cfg) (of_nat i + 1))) [0..<length (filter (\<lambda>e. e = EvTake) evs)])
     @ (if draining then [PollDrain] else [])"

definition with_config :: "coordinator_config \<Rightarrow> 't job_env \<Rightarrow> 't job_env" where
  "with_config cfg jx = jx\<lparr>jx_captures_dir := cf_captures_dir cfg, jx_slash_fraction := cf_slash_fraction cfg\<rparr>"

text \<open>\<open>None\<close> when the coordinator does not get past its start, or a job does not return.\<close>

definition coordinator_main ::
  "'t job_env \<Rightarrow> intake_env \<Rightarrow> coordinator_config \<Rightarrow> connection list \<Rightarrow> intake_event list \<Rightarrow> bool \<Rightarrow> (u64 \<times> coordinator) option" where
  "coordinator_main jx ix cfg cns evs draining =
     (case open_enrollment (cf_enrollment cfg) of Inl _ \<Rightarrow> None
      | Inr enrollment \<Rightarrow> (case open_journal (jx_json jx) (cf_journal cfg) of Inl _ \<Rightarrow> None
      | Inr journal \<Rightarrow> (case open_auth (cf_tenants cfg) of Inl _ \<Rightarrow> None
      | Inr auth \<Rightarrow> (case accept_fleet (jx_codec jx) (jx_crypto jx) (jx_vrf jx) enrollment (cf_fleet cfg) cns of None \<Rightarrow> None
      | Some agents \<Rightarrow> (case open_log (cf_log cfg) of Inl _ \<Rightarrow> None
      | Inr lg \<Rightarrow> (case open_admin (cf_admin_addr cfg) (cf_admin_keys cfg) of Inl _ \<Rightarrow> None
      | Inr _ \<Rightarrow>
          main_loop (with_config cfg jx) (cf_committee_size cfg) demo_requirements (cf_max_jobs cfg) 0
            (loop_turns ix cfg auth evs draining) (coordinator_start agents lg (map_option snd journal))))))))"

section \<open>Lemmas\<close>

lemma with_config_simps:
  "jx_crypto (with_config cfg jx) = jx_crypto jx" "jx_cbor (with_config cfg jx) = jx_cbor jx" "jx_att (with_config cfg jx) = jx_att jx"
  by (simp_all add: with_config_def)

lemma turns_of_snoc: "turns_of ix (evs @ [e]) st = turns_of ix evs st @ (if e = EvTake then [take_turn (fold (intake_step ix) evs st)] else [])"
  by (induction evs arbitrary: st) auto

text \<open>Whatever the loop takes was in the queue, so it was signed.\<close>

lemma intake_run_inv:
  assumes "set es \<subseteq> set evs" "intake_inv ix (registries reg evs) cap st"
  shows "intake_inv ix (registries reg evs) cap (fold (intake_step ix) es st)"
  using assms
proof (induction es arbitrary: st)
  case (Cons e es)
  have "intake_inv ix (registries reg evs) cap (intake_step ix e st)"
    by (rule intake_step_inv [OF Cons.prems(2)]) (use Cons.prems(1) in \<open>auto simp: registries_def\<close>)
  then show ?case using Cons by simp
qed simp

lemma turns_signed:
  assumes "PollJob p \<in> set (turns_of ix es (intake_start (Some au) cap))" "set es \<subseteq> set evs"
  shows "\<exists>rs. queued_ok ix (registries (au_registry au) evs) rs \<and> rs_pipeline rs = p"
  using assms
proof (induction es rule: rev_induct)
  case (snoc e es)
  let ?st = "fold (intake_step ix) es (intake_start (Some au) cap)"
  have "intake_inv ix (registries (au_registry au) evs) cap (intake_start (Some au) cap)"
    by (simp add: intake_inv_def intake_start_def registries_def)
  from intake_run_inv [OF _ this] snoc.prems(2) have inv: "intake_inv ix (registries (au_registry au) evs) cap ?st" by auto
  show ?case
  proof (cases "PollJob p \<in> set (turns_of ix es (intake_start (Some au) cap))")
    case True
    then show ?thesis using snoc by simp
  next
    case False
    then have "take_turn ?st = PollJob p" using snoc.prems(1) by (auto simp: turns_of_snoc split: if_splits)
    then obtain rs q where "in_queue ?st = rs # q" "rs_pipeline rs = p"
      by (auto simp: take_turn_def split: list.splits if_splits)
    then show ?thesis using inv by (auto simp: intake_inv_def)
  qed
qed simp

text \<open>Every record is that of a pipeline the loop was given.\<close>

definition record_from :: "'t job_env \<Rightarrow> (pipeline \<Rightarrow> bool) \<Rightarrow> coordinator \<Rightarrow> bool" where
  "record_from jx P s \<longleftrightarrow> (\<forall>j r. hm_get (cs_records s) j = Some r \<longrightarrow>
     (\<exists>p. P p \<and> jr_pipeline_hash r = hash_bytes (jx_crypto jx) (jx_cbor jx p)))"

lemma record_from_job:
  assumes "record_from jx P s" "lb_sound (cs_log s)" "run_one_job jx j n p req s = Some (s', ok)" "P p"
  shows "record_from jx P s'"
proof -
  from run_one_job_effect [OF assms(3,2)] have "job_unanchored s s' \<or> (\<exists>committee atts. job_anchored jx j p committee atts s s')"
    by (auto simp: job_journal_def)
  then show ?thesis
  proof
    assume "job_unanchored s s'"
    then show ?thesis using assms(1) by (simp add: record_from_def job_unanchored_def)
  next
    assume "\<exists>committee atts. job_anchored jx j p committee atts s s'"
    then obtain r where rs: "cs_records s' = hm_insert j r (cs_records s)" "jr_pipeline_hash r = hash_bytes (jx_crypto jx) (jx_cbor jx p)"
      by (auto simp: job_anchored_def)
    show ?thesis unfolding record_from_def rs(1) hm_get_insert using assms(1,4) rs(2) by (auto simp: record_from_def)
  qed
qed

lemma main_loop_records:
  assumes "main_loop jx n req mx c turns s = Some (c', s')" "record_from jx P s" "lb_sound (cs_log s)"
    and "\<And>p. PollJob p \<in> set turns \<Longrightarrow> P p"
  shows "record_from jx P s'"
  using assms
proof (induction turns arbitrary: c s)
  case Nil
  then show ?case by (auto simp: record_from_def split: if_splits)
next
  case (Cons e turns)
  have stop: "record_from jx P (shutdown_agents jx s)" using Cons.prems(2) by (simp add: record_from_def)
  show ?case
  proof (cases "c < mx")
    case False
    then show ?thesis using Cons.prems(1) stop by auto
  next
    case True
    show ?thesis
    proof (cases e)
      case (PollJob p)
      then obtain t ok where t: "run_one_job jx (c + 1) n p req s = Some (t, ok)" "main_loop jx n req mx (c + 1) turns t = Some (c', s')"
        using Cons.prems(1) True by (auto split: option.splits)
      have "record_from jx P t" by (rule record_from_job [OF Cons.prems(2,3) t(1)]) (use PollJob Cons.prems(4) in simp)
      moreover have "lb_sound (cs_log t)" using run_one_job_effect [OF t(1) Cons.prems(3)] by blast
      ultimately show ?thesis using Cons.IH [OF t(2)] Cons.prems(4) by simp
    next
      case PollTimeout
      then show ?thesis using Cons.IH [of c s] Cons.prems True by simp
    qed (use Cons.prems(1) True stop in auto)
  qed
qed

lemma open_log_sound: "open_log f = Inr lg \<Longrightarrow> lb_sound lg"
  by (auto simp: open_log_def log_new_def flog_inv_def fs_inv_def chunks_exact_length dest!: flog_open_inv split: option.splits sum.splits)

lemma coordinator_mainE:
  assumes "coordinator_main jx ix cfg cns evs draining = Some (c, s)"
  obtains en jn auth agents lg where "open_enrollment (cf_enrollment cfg) = Inr en" "open_journal (jx_json jx) (cf_journal cfg) = Inr jn"
    "open_auth (cf_tenants cfg) = Inr auth" "accept_fleet (jx_codec jx) (jx_crypto jx) (jx_vrf jx) en (cf_fleet cfg) cns = Some agents"
    "open_log (cf_log cfg) = Inr lg"
    "main_loop (with_config cfg jx) (cf_committee_size cfg) demo_requirements (cf_max_jobs cfg) 0 (loop_turns ix cfg auth evs draining)
       (coordinator_start agents lg (map_option snd jn)) = Some (c, s)"
  using assms by (auto simp: coordinator_main_def split: sum.splits option.splits)

lemma signed_enrolled:
  assumes "list_all (vetted cr vl (Some es)) agents" "signed_by_fleet jx agents att" "cr = jx_crypto jx"
  shows "\<exists>rid pk vrf_fp. verify_signature cr (jx_att jx) att pk \<and> is_enrolled es rid (cr_sha256 cr pk) vrf_fp"
proof -
  obtain a where a: "a \<in> set agents" "verify_signature cr (jx_att jx) att (ag_signing_pk a)"
    using assms(2,3) by (auto simp: signed_by_fleet_def agent_key_def)
  then have "vetted cr vl (Some es) a" using assms(1) by (simp add: list_all_iff)
  then show ?thesis using a(2) unfolding vetted_def by blast
qed

text \<open>What can be said of a record: where its pipeline came from, who signed its attestations, and where
  its artifact stands.\<close>

definition accounted ::
  "'t job_env \<Rightarrow> intake_env \<Rightarrow> tenant_registry set \<Rightarrow> enrollment_set \<Rightarrow> hash list \<Rightarrow> job_record \<Rightarrow> bool" where
  "accounted jx ix regs es entries r \<longleftrightarrow>
     (\<exists>rs. queued_ok ix regs rs \<and> jr_pipeline_hash r = hash_bytes (jx_crypto jx) (jx_cbor jx (rs_pipeline rs))) \<and>
     list_all (\<lambda>att. \<exists>rid pk vrf_fp. verify_signature (jx_crypto jx) (jx_att jx) att pk \<and> is_enrolled es rid (cr_sha256 (jx_crypto jx) pk) vrf_fp)
       (jr_committee_attestations r) \<and>
     (\<exists>i<length entries. entries ! i = jr_consensus_artifact r \<and> jr_log_position r = of_nat i)"

lemma records_accounted:
  assumes run: "coordinator_main jx ix cfg cns evs draining = Some (c, s)"
    and stdin: "cf_submit_stdin cfg"
    and gates: "open_enrollment (cf_enrollment cfg) = Inr (Some es)" "open_auth (cf_tenants cfg) = Inr (Some au)"
    and r: "hm_get (cs_records s) j = Some r"
  shows "accounted jx ix (registries (au_registry au) evs) es (lb_entries (cs_log s)) r"
proof -
  let ?jx = "with_config cfg jx"
  obtain jn agents lg where fleet: "accept_fleet (jx_codec jx) (jx_crypto jx) (jx_vrf jx) (Some es) (cf_fleet cfg) cns = Some agents"
    and lg: "open_log (cf_log cfg) = Inr lg"
    and loop: "main_loop ?jx (cf_committee_size cfg) demo_requirements (cf_max_jobs cfg) 0 (loop_turns ix cfg (Some au) evs draining)
       (coordinator_start agents lg jn) = Some (c, s)"
    using coordinator_mainE [OF run] gates by (metis Inr_inject)
  let ?P = "\<lambda>p. \<exists>rs. queued_ok ix (registries (au_registry au) evs) rs \<and> rs_pipeline rs = p"
  have sound: "lb_sound lg" using open_log_sound [OF lg] .
  have "record_from ?jx ?P s"
    by (rule main_loop_records [OF loop]) (use sound stdin turns_signed in \<open>auto simp: record_from_def coordinator_start_def loop_turns_def split: if_splits\<close>)
  then have "\<exists>rs. queued_ok ix (registries (au_registry au) evs) rs \<and> jr_pipeline_hash r = hash_bytes (jx_crypto jx) (jx_cbor jx (rs_pipeline rs))"
    using r unfolding record_from_def with_config_simps by blast
  moreover have ok: "anchor_ok ?jx agents (lb_entries (cs_log s)) c j r" using coord_inv_run [OF sound loop] r by (simp add: coord_inv_def)
  moreover have "list_all (vetted (jx_crypto jx) (jx_vrf jx) (Some es)) agents"
    using accept_loop_vetted [of "jx_codec jx" "jx_crypto jx" "jx_vrf jx" "Some es" "unat (cf_fleet cfg)" "[]" cns agents] fleet by (simp add: accept_fleet_def)
  ultimately show ?thesis using signed_enrolled [of "jx_crypto jx" "jx_vrf jx" es agents ?jx]
    unfolding anchor_ok_def with_config_simps list_all_iff accounted_def by blast
qed

section \<open>Properties\<close>

text \<open>C4: Everything in the log can be accounted for. When the coordinator takes its jobs from standard input and
  runs with an enrollment file and a tenant file, whatever its peers send and in whatever order lines are read and jobs are taken, each record it
  keeps is of a pipeline that came in a submission signed by a registered tenant, each attestation of the
  record is signed with a key whose fingerprint is enrolled, and the artifact stands in the log at the
  position the record names.\<close>
theorem anchored_work_accounted:
  assumes "coordinator_main jx ix cfg cns evs draining = Some (c, s)"
    and "cf_submit_stdin cfg"
    and "open_enrollment (cf_enrollment cfg) = Inr (Some es)" "open_auth (cf_tenants cfg) = Inr (Some au)"
    and "hm_get (cs_records s) j = Some r"
  shows "(\<exists>rs. queued_ok ix (registries (au_registry au) evs) rs \<and>
        jr_pipeline_hash r = hash_bytes (jx_crypto jx) (jx_cbor jx (rs_pipeline rs))) \<and>
    list_all (\<lambda>att. \<exists>rid pk vrf_fp. verify_signature (jx_crypto jx) (jx_att jx) att pk \<and> is_enrolled es rid (cr_sha256 (jx_crypto jx) pk) vrf_fp)
      (jr_committee_attestations r) \<and>
    (\<exists>i<length (lb_entries (cs_log s)). lb_entries (cs_log s) ! i = jr_consensus_artifact r \<and> jr_log_position r = of_nat i)"
  using records_accounted [OF assms] unfolding accounted_def .

lemma arg_or_last: "flag \<notin> set as \<Longrightarrow> arg_or (as @ [flag]) flag d = d"
  by (induction as) auto

text \<open>A gate whose flag comes last, without its file, is not an error: the coordinator runs with the gate off.\<close>
theorem gate_flag_without_value:
  assumes "ascii flag \<notin> set args" "coordinator_args fs (args @ [ascii flag]) = Some cfg"
  shows "flag = ''--tenants'' \<longrightarrow> open_auth (cf_tenants cfg) = Inr None"
    and "flag = ''--enrollment'' \<longrightarrow> open_enrollment (cf_enrollment cfg) = Inr None"
proof -
  have off: "file_flag fs (args @ [ascii flag]) flag = None" using assms(1) by (simp add: file_flag_def arg_or_last)
  have "cf_tenants cfg = file_flag fs (args @ [ascii flag]) ''--tenants''" "cf_enrollment cfg = file_flag fs (args @ [ascii flag]) ''--enrollment''"
    using assms(2) by (auto simp: coordinator_args_def split: option.splits)
  then show "flag = ''--tenants'' \<longrightarrow> open_auth (cf_tenants cfg) = Inr None"
    "flag = ''--enrollment'' \<longrightarrow> open_enrollment (cf_enrollment cfg) = Inr None"
    using off by (auto simp: open_auth_def open_enrollment_def)
qed

section \<open>An example\<close>

definition toy_fleet_fp :: bytes where
  "toy_fleet_fp = cr_sha256 toy_crypto [1]"

definition toy_cfg :: coordinator_config where
  "toy_cfg = \<lparr>cf_enrollment = Some (Some (append_line (enrollment_line 7 toy_fleet_fp toy_fleet_fp 0 1000) [])), cf_journal = None,
     cf_tenants = Some (Some (append_line (tenant_line (sample_tenant 2)) [])), cf_log = None, cf_admin_addr = False, cf_admin_keys = None,
     cf_submit_stdin = True, cf_a = 0, cf_b = 0, cf_captures_dir = [], cf_slash_fraction = Fin 0, cf_fleet = 1, cf_committee_size = 1,
     cf_max_jobs = 1, cf_queue_cap = 4\<rparr>"

definition toy_peer :: connection where
  "toy_peer = \<lparr>cn_accept_ok = True, cn_config_ok = True,
     cn_inbox = [InMsg (Register 7 [1] [1] ([1] @ VRF_REGISTRATION_CHALLENGE) [] 10 toy_caps), toy_claim [1] 1, toy_submit APass 7 [1] [5]], cn_room = None\<rparr>"

definition toy_evs :: "intake_event list" where
  "toy_evs = [EvLine (5, 5, 5, 5) [120], EvTake]"

lemma toy_fleet_fp_length: "length toy_fleet_fp = 32"
  by (simp add: toy_fleet_fp_def toy_crypto_def)

lemma toy_opened:
  "open_enrollment (cf_enrollment toy_cfg) = Inr (Some [(7, \<lparr>en_runner_id = 7, en_signing_fp = toy_fleet_fp, en_vrf_fp = toy_fleet_fp,
     en_enrolled_at_unix_ns = 0, en_initial_reputation_milli = of_nat 1000\<rparr>)])"
  "open_auth (cf_tenants toy_cfg) = Inr (Some (auth_state_new [(1, sample_tenant 2)]))"
proof -
  show "open_enrollment (cf_enrollment toy_cfg) = Inr (Some [(7, \<lparr>en_runner_id = 7, en_signing_fp = toy_fleet_fp, en_vrf_fp = toy_fleet_fp,
     en_enrolled_at_unix_ns = 0, en_initial_reputation_milli = of_nat 1000\<rparr>)])"
    using enroll_load_single [OF toy_fleet_fp_length toy_fleet_fp_length, of 0 1000 7] by (simp add: toy_cfg_def open_enrollment_def)
  have "tenant_load (Some (append_line (tenant_line (sample_tenant 2)) [])) = Inr [(1, sample_tenant 2)]"
    using tenant_load_line [OF _ tenant_load_empty, of "sample_tenant 2"] by (simp add: tenant_new_def tenant_get_def)
  then show "open_auth (cf_tenants toy_cfg) = Inr (Some (auth_state_new [(1, sample_tenant 2)]))"
    by (simp only: toy_cfg_def coordinator_config.simps open_auth_def option.case sum.case)
qed

lemma toy_admitted:
  "\<exists>rl rg. check_submission toy_ix (5, 5, 5, 5) toy_sub [(1, sample_tenant 2)] (rl_new 0 0) (rg_new REPLAY_TTL_NS) = (rl, rg, AuthOk)"
  unfolding check_submission_gate toy_credentials
  by (simp add: admit_gate_def toy_authentic tenant_get_def rg_accept_def rg_sweep_def rg_new_def REPLAY_TTL_NS_def
      rl_accept_with_config_def rl_new_def tb_new_def tb_try_consume_def tb_refill_def hm_get_or_def Let_def hm_contains_def hm_retain_def
      tb_new_tokens_def sat_sub_def sat_add_def)

lemma toy_turns: "turns_of toy_ix toy_evs (intake_start (Some (auth_state_new [(1, sample_tenant 2)])) 4) = [PollJob (canned_pipeline toy_ix [1] 1 2)]"
proof -
  have "parse_submission_line (ix_json toy_ix) [120] = Some toy_sub" by (simp add: parse_submission_line_def toy_ix_def toy_sub_def)
  moreover have "resolve toy_ix toy_sub = Some \<lparr>rs_pipeline = canned_pipeline toy_ix [1] 1 2, rs_deadline_secs = 60, rs_origin = OriginLegacy\<rparr>"
    by (simp add: toy_sub_def) (simp add: toy_ix_def)
  ultimately show ?thesis using toy_admitted
    by (auto simp: toy_evs_def intake_start_def auth_state_new_def read_line_def Let_def trim_def is_space_def admit_def try_send_def take_turn_def)
qed

lemma toy_whole_run: "\<exists>s r. coordinator_main toy_jx toy_ix toy_cfg [toy_peer] toy_evs False = Some (1, s) \<and> hm_get (cs_records s) 1 = Some r"
proof -
  let ?en = "Some [(7, \<lparr>en_runner_id = 7, en_signing_fp = toy_fleet_fp, en_vrf_fp = toy_fleet_fp, en_enrolled_at_unix_ns = 0, en_initial_reputation_milli = of_nat 1000\<rparr>)]"
  let ?fleet = "[(toy_agent 7 [1] 10 [toy_claim [1] 1, toy_submit APass 7 [1] [5]])\<lparr>ag_sent := [RegisterAck]\<rparr>]"
  have "accept_fleet toy_envelopes toy_crypto toy_vrf ?en 1 [toy_peer] = Some ?fleet"
    by (simp add: accept_fleet_def accept_loop.simps accept_one_def toy_peer_def is_enrolled_def enroll_fingerprint_def toy_agent_def send_def
        toy_fleet_fp_def toy_envelopes_def MAX_ENVELOPE_BYTES_PUB_def) (simp add: toy_crypto_def)
  moreover have "\<exists>s r. main_loop toy_jx 1 demo_requirements 1 0 [PollJob p] (coordinator_start ?fleet (LogMem log_new) None) = Some (1, s)
     \<and> hm_get (cs_records s) 1 = Some r" for p
    by (simp add: toy_job_simps demo_requirements_def coordinator_start_def toy_outcome)
  moreover have "cf_journal toy_cfg = None" "cf_log toy_cfg = None" "cf_fleet toy_cfg = 1" "cf_committee_size toy_cfg = 1" "cf_max_jobs toy_cfg = 1"
    "cf_queue_cap toy_cfg = 4" "\<not> cf_admin_addr toy_cfg" "cf_submit_stdin toy_cfg"
    "with_config toy_cfg toy_jx = toy_jx" by (simp_all add: toy_cfg_def with_config_def toy_jx_def)
  ultimately show ?thesis by (simp add: coordinator_main_def toy_opened toy_turns open_journal_def open_log_def open_admin_def loop_turns_def)
qed

theorem anchored_work_accounted_witness:
  "\<exists>s r rs. coordinator_main toy_jx toy_ix toy_cfg [toy_peer] toy_evs False = Some (1, s) \<and> hm_get (cs_records s) 1 = Some r \<and>
     queued_ok toy_ix (registries [(1, sample_tenant 2)] toy_evs) rs \<and> jr_pipeline_hash r = hash_bytes toy_crypto (jx_cbor toy_jx (rs_pipeline rs))"
proof -
  obtain s r where run: "coordinator_main toy_jx toy_ix toy_cfg [toy_peer] toy_evs False = Some (1, s)" "hm_get (cs_records s) 1 = Some r"
    using toy_whole_run by blast
  from anchored_work_accounted [OF run(1) _ toy_opened run(2)] run show ?thesis by (auto simp: auth_state_new_def toy_cfg_def)
qed

end
