(* ===== verification/Audit_Client.thy ===== *)
theory Audit_Client
  imports Job_Audit
begin

text \<open>
  The auditor's client (\<open>cosaci-demo/src/bin/verify.rs\<close>): it asks the read server for the bundle of a
  job, until it has one or runs out of attempts, compares the bundle with itself and with the
  length of the log, and checks the inclusion proof. Every request is a connection of its own, to a
  peer that turns the bytes it is sent into the bytes it answers. The theorems set the client
  against the coordinator's read server, and against a peer that lies.
\<close>

section \<open>Requests\<close>

datatype verify_error = VeConnect | VeWire wire_error | VeUnexpected envelope | VeNotCommitted

text \<open>A connection that cannot be opened is \<open>None\<close>.\<close>

type_synonym read_peer = "(bytes \<Rightarrow> bytes) option"

definition verify_exchange :: "envelope codec \<Rightarrow> read_peer \<Rightarrow> envelope \<Rightarrow> verify_error + envelope" where
  "verify_exchange c peer req =
     (case peer of None \<Rightarrow> Inl VeConnect
      | Some answer \<Rightarrow> (case write_envelope c req \<lparr>wr_out = [], wr_room = None\<rparr> of
          (_, Inl e) \<Rightarrow> Inl (VeWire e)
        | (w, Inr _) \<Rightarrow> (case read_envelope c (answer (wr_out w)) of Inl e \<Rightarrow> Inl (VeWire e) | Inr (resp, _) \<Rightarrow> Inr resp)))"

definition request_job :: "envelope codec \<Rightarrow> read_peer \<Rightarrow> u64 \<Rightarrow> verify_error + job_bundle option" where
  "request_job c peer job_id =
     (case verify_exchange c peer (GetJob job_id) of
        Inl e \<Rightarrow> Inl e
      | Inr (JobBundleResponse b) \<Rightarrow> Inr (Some b)
      | Inr (JobNotFound _) \<Rightarrow> Inr None
      | Inr other \<Rightarrow> Inl (VeUnexpected other))"

definition request_log_root :: "envelope codec \<Rightarrow> read_peer \<Rightarrow> verify_error + (hash option \<times> u64)" where
  "request_log_root c peer =
     (case verify_exchange c peer GetLogRoot of
        Inl e \<Rightarrow> Inl e
      | Inr (LogRoot rt len) \<Rightarrow> Inr (rt, len)
      | Inr other \<Rightarrow> Inl (VeUnexpected other))"

text \<open>The connections are numbered; the loop tells which one comes next.\<close>

fun loop_request_bundle :: "envelope codec \<Rightarrow> (nat \<Rightarrow> read_peer) \<Rightarrow> u64 \<Rightarrow> nat \<Rightarrow> nat \<Rightarrow> verify_error + (job_bundle \<times> nat)" where
  "loop_request_bundle c peers job_id k 0 = Inl VeNotCommitted"
| "loop_request_bundle c peers job_id k (Suc attempts) =
     (case request_job c (peers k) job_id of
        Inr (Some b) \<Rightarrow> Inr (b, Suc k)
      | _ \<Rightarrow> loop_request_bundle c peers job_id (Suc k) attempts)"

section \<open>The check\<close>

text \<open>\<open>VerifyPanic\<close> is a failed assertion, \<open>VerifyFail\<close> exit status 1.\<close>

datatype verify_outcome = VerifyOk job_bundle | VerifyFail | VerifyPanic | VerifyErr verify_error

definition bundle_consistent :: "job_bundle \<Rightarrow> bool" where
  "bundle_consistent b \<longleftrightarrow> ip_entry (jb_merkle_proof b) = jb_consensus_artifact b \<and>
     ip_position (jb_merkle_proof b) = jb_log_position b \<and> ip_length_at_proof (jb_merkle_proof b) = jb_log_length_at_anchor b"

definition verify_main :: "merkle_lib \<Rightarrow> envelope codec \<Rightarrow> (nat \<Rightarrow> read_peer) \<Rightarrow> u64 \<Rightarrow> u32 \<Rightarrow> verify_outcome" where
  "verify_main ml c peers job_id max_attempts =
     (case loop_request_bundle c peers job_id 0 (unat max_attempts) of
        Inl e \<Rightarrow> VerifyErr e
      | Inr (b, k) \<Rightarrow>
          if \<not> bundle_consistent b then VerifyPanic
          else (case request_log_root c (peers k) of
             Inl e \<Rightarrow> VerifyErr e
           | Inr (_, current_length) \<Rightarrow>
               if current_length < jb_log_length_at_anchor b then VerifyPanic
               else if \<not> verify_inclusion ml (jb_merkle_proof b) (jb_log_root b) then VerifyFail
               else VerifyOk b))"

section \<open>Lemmas\<close>

text \<open>The coordinator's read server as a peer.\<close>

definition coordinator_peer :: "'t job_env \<Rightarrow> captured_output list codec \<Rightarrow> coordinator \<Rightarrow> read_peer" where
  "coordinator_peer jx cc s = Some (\<lambda>input. wr_out (handle_read_client (jx_codec jx) (jx_merkle jx) cc (cs_records s) (cs_log s)
     (jx_captures_dir jx) (cs_files s) input \<lparr>wr_out = [], wr_room = None\<rparr>))"

lemma exchange_answer:
  assumes "envelope_fits c req" "envelope_fits c resp" "answer (envelope_frame c req) = envelope_frame c resp"
  shows "verify_exchange c (Some answer) req = Inr resp"
  using assms sync_stream.rd_frame [of c resp "[]"] by (simp add: verify_exchange_def write_envelope_unbounded)

lemma exchange_coordinator:
  assumes "envelope_fits (jx_codec jx) req" "envelope_fits (jx_codec jx) resp"
    and "read_response (jx_merkle jx) cc (cs_records s) (cs_log s) (jx_captures_dir jx) (cs_files s) req = Some resp"
  shows "verify_exchange (jx_codec jx) (coordinator_peer jx cc s) req = Inr resp"
  unfolding coordinator_peer_def
  by (rule exchange_answer [OF assms(1,2)])
    (use assms sync_stream.rd_frame [of "jx_codec jx" req "[]"] in \<open>simp add: handle_read_client_def write_envelope_unbounded\<close>)

text \<open>The first connection that serves a bundle ends the loop.\<close>

lemma loop_first_bundle:
  assumes "\<And>i. i < n \<Longrightarrow> \<nexists>b. request_job c (peers (k + i)) j = Inr (Some b)" "request_job c (peers (k + n)) j = Inr (Some b)" "n < m"
  shows "loop_request_bundle c peers j k m = Inr (b, Suc (k + n))"
  using assms
proof (induction n arbitrary: k m)
  case 0
  then obtain m' where "m = Suc m'" by (cases m) auto
  then show ?case using 0 by simp
next
  case (Suc n)
  then obtain m' where m: "m = Suc m'" "n < m'" by (cases m) auto
  have "\<nexists>b. request_job c (peers k) j = Inr (Some b)" using Suc.prems(1) [of 0] by simp
  moreover have "loop_request_bundle c peers j (Suc k) m' = Inr (b, Suc (Suc k + n))"
    using Suc.IH [of "Suc k" m'] Suc.prems(1) [of "Suc _"] Suc.prems(2) m(2) by simp
  ultimately show ?case using m(1) by (auto split: sum.splits option.splits)
qed

lemma proof_at_fields:
  assumes "log_inclusion_proof_at ml l pos len = Some p"
  shows "ip_position p = pos" "ip_length_at_proof p = len" "ip_entry p = take (unat len) (log_entries l) ! unat pos" "len \<le> log_len l"
  using assms by (auto simp: log_inclusion_proof_at_def Let_def split: if_splits)

lemma bundle_built_consistent:
  assumes "lb_build_bundle ml records lg j = Some b" "hm_get records j = Some r" "anchor_ok jx agents (lb_entries lg) c j r"
    and small: "length (lb_entries lg) < 2 ^ 64"
  shows "bundle_consistent b \<and> jb_log_length_at_anchor b \<le> lb_len lg"
proof -
  let ?l = "plain_log (lb_entries lg)"
  obtain i where i: "i < length (lb_entries lg)" "lb_entries lg ! i = jr_consensus_artifact r"
    "jr_log_position r = of_nat i" "jr_log_length_at_anchor r = of_nat (Suc i)"
    using assms(3) by (auto simp: anchor_ok_def)
  have u: "unat (of_nat k :: u64) = k" if "k \<le> length (lb_entries lg)" for k
    using that small by (simp add: unat_of_nat)
  have "build_bundle ml records ?l j = Some b" using assms(1) by (simp add: lb_plain)
  then have b: "jb_log_length_at_anchor b = jr_log_length_at_anchor r" "jb_log_position b = jr_log_position r"
    "jb_consensus_artifact b = jr_consensus_artifact r"
    "log_inclusion_proof_at ml ?l (jr_log_position r) (jr_log_length_at_anchor r) = Some (jb_merkle_proof b)"
    using assms(2) by (auto simp: build_bundle_def split: option.splits)
  have "take (unat (jr_log_length_at_anchor r)) (log_entries ?l) ! unat (jr_log_position r) = jr_consensus_artifact r"
    using u [of i] u [of "Suc i"] i by (simp add: plain_log_def del: of_nat_Suc)
  then show ?thesis using proof_at_fields [OF b(4)] b by (simp add: bundle_consistent_def lb_plain(2))
qed

lemma merkle_single: "merkle_ok ml \<Longrightarrow> ml_verify ml (ml_proof ml [h] 0) (the (ml_root ml [h])) 0 h 1"
proof -
  assume ml: "merkle_ok ml"
  then obtain rt where rt: "ml_root ml [h] = Some rt" unfolding merkle_ok_def by (metis list.distinct(1) not_None_eq)
  have "\<forall>leaves i r. i < length leaves \<longrightarrow> ml_root ml leaves = Some r \<longrightarrow> ml_verify ml (ml_proof ml leaves i) r i (leaves ! i) (length leaves)"
    using ml by (simp add: merkle_ok_def)
  from this [rule_format, of 0 "[h]" rt] rt show ?thesis by simp
qed

text \<open>A bundle the client accepts is one it was served.\<close>

lemma loop_served: "loop_request_bundle c peers j k m = Inr (b, k') \<Longrightarrow> \<exists>i. request_job c (peers i) j = Inr (Some b)"
  by (induction m arbitrary: k) (auto split: sum.splits option.splits)

lemma verify_ok_served:
  assumes "verify_main ml c peers j m = VerifyOk b"
  shows "(\<exists>i. request_job c (peers i) j = Inr (Some b)) \<and> verify_inclusion ml (jb_merkle_proof b) (jb_log_root b)"
proof -
  obtain k where "loop_request_bundle c peers j 0 (unat m) = Inr (b, k)" "verify_inclusion ml (jb_merkle_proof b) (jb_log_root b)"
    using assms by (auto simp: verify_main_def split: sum.splits if_splits)
  then show ?thesis using loop_served by blast
qed

lemma request_job_coordinator:
  assumes "request_job (jx_codec jx) (coordinator_peer jx cc s) j = Inr (Some b)" "envelope_fits (jx_codec jx) (GetJob j)"
    and fits: "\<And>resp. read_response (jx_merkle jx) cc (cs_records s) (cs_log s) (jx_captures_dir jx) (cs_files s) (GetJob j) = Some resp \<Longrightarrow>
      envelope_fits (jx_codec jx) resp"
  shows "lb_build_bundle (jx_merkle jx) (cs_records s) (cs_log s) j = Some b"
proof -
  obtain resp where resp: "read_response (jx_merkle jx) cc (cs_records s) (cs_log s) (jx_captures_dir jx) (cs_files s) (GetJob j) = Some resp"
    by (cases "lb_build_bundle (jx_merkle jx) (cs_records s) (cs_log s) j") (auto simp: read_response_def)
  from exchange_coordinator [OF assms(2) fits [OF this] this] assms(1) have "resp = JobBundleResponse b"
    by (auto simp: request_job_def split: envelope.splits)
  then show ?thesis using resp by (auto simp: read_response_def split: option.splits)
qed

lemma bundle_of_record:
  assumes "lb_build_bundle ml records lg j = Some b"
  shows "\<exists>r. hm_get records j = Some r \<and> jb_pipeline_hash b = jr_pipeline_hash r \<and> jb_committee_attestations b = jr_committee_attestations r \<and>
    jb_consensus_artifact b = jr_consensus_artifact r"
  using assms unfolding lb_plain(3) by (auto simp: build_bundle_def split: option.splits)

lemma record_audited:
  assumes ml: "merkle_ok (jx_merkle jx)" and r: "hm_get (cs_records s) j = Some r"
    and ok: "anchor_ok jx agents (lb_entries (cs_log s)) c j r" "length (lb_entries (cs_log s)) < 2 ^ 64"
    and grown: "lb_len (cs_log s) \<le> lb_len (cs_log s')"
    and fits: "envelope_fits (jx_codec jx) (GetJob j)" "envelope_fits (jx_codec jx) GetLogRoot"
      "envelope_fits (jx_codec jx) (LogRoot (lb_root (jx_merkle jx) (cs_log s')) (lb_len (cs_log s')))"
      "\<And>b. lb_build_bundle (jx_merkle jx) (cs_records s) (cs_log s) j = Some b \<Longrightarrow> envelope_fits (jx_codec jx) (JobBundleResponse b)"
    and early: "\<And>i. i < k \<Longrightarrow> \<nexists>b. request_job (jx_codec jx) (peers i) j = Inr (Some b)"
    and reached: "peers k = coordinator_peer jx cc s" "peers (Suc k) = coordinator_peer jx cc s'" "k < unat max_attempts"
  shows "\<exists>b. verify_main (jx_merkle jx) (jx_codec jx) peers j max_attempts = VerifyOk b \<and> jb_job_id b = j \<and>
    ip_entry (jb_merkle_proof b) = jr_consensus_artifact r"
proof -
  from anchor_ok_bundle [OF ml r ok] obtain b where b: "lb_build_bundle (jx_merkle jx) (cs_records s) (cs_log s) j = Some b" "jb_job_id b = j"
    "verify_inclusion (jx_merkle jx) (jb_merkle_proof b) (jb_log_root b)" "ip_entry (jb_merkle_proof b) = jr_consensus_artifact r" by blast
  have "verify_exchange (jx_codec jx) (peers k) (GetJob j) = Inr (JobBundleResponse b)"
    unfolding reached(1) by (rule exchange_coordinator) (use fits b(1) in \<open>simp_all add: read_response_def\<close>)
  then have "request_job (jx_codec jx) (peers (0 + k)) j = Inr (Some b)" by (simp add: request_job_def)
  then have loop: "loop_request_bundle (jx_codec jx) peers j 0 (unat max_attempts) = Inr (b, Suc (0 + k))"
    by (rule loop_first_bundle [rotated]) (use early reached(3) in simp_all)
  have "verify_exchange (jx_codec jx) (peers (Suc k)) GetLogRoot = Inr (LogRoot (lb_root (jx_merkle jx) (cs_log s')) (lb_len (cs_log s')))"
    unfolding reached(2) by (rule exchange_coordinator) (use fits in \<open>simp_all add: read_response_def\<close>)
  moreover have "bundle_consistent b" "jb_log_length_at_anchor b \<le> lb_len (cs_log s')"
    using bundle_built_consistent [OF b(1) r ok] grown by auto
  ultimately show ?thesis using b loop by (auto simp: verify_main_def request_log_root_def)
qed

section \<open>Properties\<close>

text \<open>C5: An auditor can check every anchored job: once a run has anchored the job, the client that reaches
  the coordinator before its attempts run out, however many connections failed or came too early
  before that, accepts the bundle it is given; the bundle is for the job and proves the consensus
  artifact. The log may have grown before the client asks for its length.\<close>
theorem auditor_accepts_anchored:
  assumes ml: "merkle_ok (jx_merkle jx)" and sound: "lb_sound lg"
    and run: "main_loop jx n req mx 0 turns (coordinator_start agents lg jn) = Some (c, s)"
    and small: "length (lb_entries lg) + unat c < 2 ^ 64"
    and r: "hm_get (cs_records s) j = Some r" and grown: "lb_len (cs_log s) \<le> lb_len (cs_log s')"
    and fits: "envelope_fits (jx_codec jx) (GetJob j)" "envelope_fits (jx_codec jx) GetLogRoot"
      "envelope_fits (jx_codec jx) (LogRoot (lb_root (jx_merkle jx) (cs_log s')) (lb_len (cs_log s')))"
      "\<And>b. lb_build_bundle (jx_merkle jx) (cs_records s) (cs_log s) j = Some b \<Longrightarrow> envelope_fits (jx_codec jx) (JobBundleResponse b)"
    and early: "\<And>i. i < k \<Longrightarrow> \<nexists>b. request_job (jx_codec jx) (peers i) j = Inr (Some b)"
    and reached: "peers k = coordinator_peer jx cc s" "peers (Suc k) = coordinator_peer jx cc s'" "k < unat max_attempts"
  shows "\<exists>b. verify_main (jx_merkle jx) (jx_codec jx) peers j max_attempts = VerifyOk b \<and> jb_job_id b = j \<and>
    ip_entry (jb_merkle_proof b) = jr_consensus_artifact r"
proof -
  have "coord_inv jx agents (length (lb_entries lg)) c s" using coord_inv_run [OF sound run] .
  then have "anchor_ok jx agents (lb_entries (cs_log s)) c j r" "length (lb_entries (cs_log s)) < 2 ^ 64"
    using r small by (auto simp: coord_inv_def)
  from record_audited [OF ml r this grown fits early reached] show ?thesis by simp
qed

text \<open>C39: What the client compares the proof with comes from the same answer as the proof: a peer that
  claims any artifact for a job makes the client accept, with a tree of that one entry, whatever root and
  (positive) length it gives for its log and whatever job the bundle says it is for. The root of the log
  is never compared with that of the bundle.\<close>
theorem forged_bundle_accepted:
  assumes ml: "merkle_ok ml" and len: "0 < len"
    and b: "b = \<lparr>jb_job_id = j', jb_pipeline_hash = ph, jb_committee_attestations = [], jb_consensus_artifact = h,
      jb_merkle_proof = \<lparr>ip_position = 0, ip_entry = h, ip_proof_hashes = ml_proof ml [h] 0, ip_length_at_proof = 1\<rparr>,
      jb_log_root = the (ml_root ml [h]), jb_log_position = 0, jb_log_length_at_anchor = 1\<rparr>"
    and fits: "list_all (envelope_fits c) [GetJob j, GetLogRoot, JobBundleResponse b, LogRoot rt len]"
    and peers: "\<And>k. peers k = Some (\<lambda>input. envelope_frame c (if input = envelope_frame c (GetJob j) then JobBundleResponse b else LogRoot rt len))"
    and attempts: "0 < max_attempts"
  shows "verify_main ml c peers j max_attempts = VerifyOk b"
proof -
  have "read_envelope c (envelope_frame c GetLogRoot) = Inr (GetLogRoot, [])" "read_envelope c (envelope_frame c (GetJob j)) = Inr (GetJob j, [])"
    using fits sync_stream.rd_frame [of c GetLogRoot "[]"] sync_stream.rd_frame [of c "GetJob j" "[]"] by simp_all
  then have apart: "envelope_frame c GetLogRoot \<noteq> envelope_frame c (GetJob j)" by auto
  have "verify_exchange c (peers k) (GetJob j) = Inr (JobBundleResponse b)" "verify_exchange c (peers k) GetLogRoot = Inr (LogRoot rt len)" for k
    unfolding peers by (rule exchange_answer; use fits apart in simp)+
  then have "request_job c (peers k) j = Inr (Some b)" "request_log_root c (peers k) = Inr (rt, len)" for k
    by (simp_all add: request_job_def request_log_root_def)
  moreover obtain m where "unat max_attempts = Suc m" using attempts by (cases "unat max_attempts") (auto simp: unat_eq_0)
  moreover have "verify_inclusion ml (jb_merkle_proof b) (jb_log_root b)"
    using ml merkle_single [of ml h] by (simp add: b verify_inclusion_def)
  moreover have "\<not> len < 1" using len by (simp add: word_less_nat_alt)
  ultimately show ?thesis by (simp add: verify_main_def bundle_consistent_def b)
qed

section \<open>An example\<close>

text \<open>An encoding with one message of each kind the client sends or is answered.\<close>

definition audit_codec :: "job_bundle \<Rightarrow> hash option \<Rightarrow> u64 \<Rightarrow> envelope codec" where
  "audit_codec b rt len = \<lparr>cd_encode = (\<lambda>m. case m of GetJob _ \<Rightarrow> [1] | GetLogRoot \<Rightarrow> [2] | JobBundleResponse _ \<Rightarrow> [3] | LogRoot _ _ \<Rightarrow> [4] | _ \<Rightarrow> [0]),
     cd_decode = (\<lambda>bs. if bs = [1] then Some (GetJob 1) else if bs = [2] then Some GetLogRoot
       else if bs = [3] then Some (JobBundleResponse b) else if bs = [4] then Some (LogRoot rt len) else None)\<rparr>"

lemma audit_codec_fits:
  "envelope_fits (audit_codec b rt len) (GetJob 1)" "envelope_fits (audit_codec b rt len) GetLogRoot"
  "envelope_fits (audit_codec b rt len) (JobBundleResponse b)" "envelope_fits (audit_codec b rt len) (LogRoot rt len)"
  by (simp_all add: envelope_fits_def audit_codec_def MAX_ENVELOPE_BYTES_PUB_def)

definition audit_jx :: "job_bundle \<Rightarrow> hash option \<Rightarrow> u64 \<Rightarrow> bytes job_env" where
  "audit_jx b rt len = toy_jx\<lparr>jx_codec := audit_codec b rt len\<rparr>"

lemma audit_jx_simps [simp]: "jx_codec (audit_jx b rt len) = audit_codec b rt len" "jx_merkle (audit_jx b rt len) = toy_merkle"
  by (simp_all add: audit_jx_def)

definition audit_start :: coordinator where
  "audit_start = coordinator_start toy_fleet (LogMem log_new) None"

definition audit_state :: coordinator where
  "audit_state = snd (the (main_loop toy_jx 1 toy_req 1 0 [PollJob \<lparr>pl_steps = []\<rparr>] audit_start))"

lemma audit_send [simp]:
  "ag_room a = None \<Longrightarrow> send (audit_codec b rt len) (JobSeed j seed) a = (a\<lparr>ag_sent := ag_sent a @ [JobSeed j seed]\<rparr>, True)"
  "ag_room a = None \<Longrightarrow> send (audit_codec b rt len) (Assign j p req d) a = (a\<lparr>ag_sent := ag_sent a @ [Assign j p req d]\<rparr>, True)"
  "ag_room a = None \<Longrightarrow> send (audit_codec b rt len) Shutdown a = (a\<lparr>ag_sent := ag_sent a @ [Shutdown]\<rparr>, True)"
  by (simp_all add: send_def audit_codec_def MAX_ENVELOPE_BYTES_PUB_def)

text \<open>What the coordinator keeps does not depend on how messages are encoded.\<close>

lemma audit_run:
  "\<exists>s r. main_loop (audit_jx b rt len) 1 toy_req 1 0 [PollJob \<lparr>pl_steps = []\<rparr>] audit_start = Some (1, s) \<and>
     hm_get (cs_records s) 1 = Some r \<and> cs_records s = cs_records audit_state \<and> cs_log s = cs_log audit_state"
  by (simp add: audit_jx_def audit_state_def audit_start_def toy_job_simps toy_fleet_def coordinator_start_def toy_outcome)

theorem auditor_accepts_anchored_witness:
  "let b = the (lb_build_bundle toy_merkle (cs_records audit_state) (cs_log audit_state) 1);
       rt = lb_root toy_merkle (cs_log audit_state); len = lb_len (cs_log audit_state); jx = audit_jx b rt len in
   \<exists>s. main_loop jx 1 toy_req 1 0 [PollJob \<lparr>pl_steps = []\<rparr>] audit_start = Some (1, s) \<and>
     (\<exists>b. verify_main toy_merkle (jx_codec jx) (\<lambda>k. if k = 0 then None else coordinator_peer jx toy_captures s) 1 30 = VerifyOk b \<and> jb_job_id b = 1)"
proof -
  define b where "b = the (lb_build_bundle toy_merkle (cs_records audit_state) (cs_log audit_state) 1)"
  define rt where "rt = lb_root toy_merkle (cs_log audit_state)"
  define len where "len = lb_len (cs_log audit_state)"
  let ?jx = "audit_jx b rt len"
  obtain s r where s: "main_loop ?jx 1 toy_req 1 0 [PollJob \<lparr>pl_steps = []\<rparr>] audit_start = Some (1, s)" "hm_get (cs_records s) 1 = Some r"
    "cs_records s = cs_records audit_state" "cs_log s = cs_log audit_state" using audit_run by blast
  have none: "request_job (audit_codec b rt len) None 1 = Inl VeConnect" by (simp add: request_job_def verify_exchange_def)
  have served: "b' = b" if "lb_build_bundle toy_merkle (cs_records s) (cs_log s) 1 = Some b'" for b' using that s(3,4) by (simp add: b_def)
  have "\<exists>b. verify_main (jx_merkle ?jx) (jx_codec ?jx) (\<lambda>k. if k = 0 then None else coordinator_peer ?jx toy_captures s) 1 30 = VerifyOk b \<and> jb_job_id b = 1 \<and>
     ip_entry (jb_merkle_proof b) = jr_consensus_artifact r"
    by (rule auditor_accepts_anchored [OF _ _ s(1) [unfolded audit_start_def] _ s(2), where k = 1 and s' = s and cc = toy_captures])
      (use toy_merkle_ok audit_codec_fits [of b rt len] s(4) none served in \<open>auto simp: log_new_def rt_def len_def\<close>)
  then have "\<exists>b'. verify_main toy_merkle (jx_codec ?jx) (\<lambda>k. if k = 0 then None else coordinator_peer ?jx toy_captures s) 1 30 = VerifyOk b' \<and> jb_job_id b' = 1"
    by auto
  with s(1) show ?thesis unfolding Let_def b_def [symmetric] rt_def [symmetric] len_def [symmetric] by blast
qed

theorem forged_bundle_accepted_witness:
  "\<exists>b. jb_job_id b = 8 \<and> jb_consensus_artifact b = [5] \<and>
     (let c = audit_codec b (Some [6]) 4 in
      verify_main toy_merkle c (\<lambda>_. Some (\<lambda>input. envelope_frame c (if input = envelope_frame c (GetJob 1) then JobBundleResponse b else LogRoot (Some [6]) 4))) 1 30
        = VerifyOk b)"
proof -
  let ?b = "\<lparr>jb_job_id = 8, jb_pipeline_hash = [], jb_committee_attestations = [], jb_consensus_artifact = [5],
      jb_merkle_proof = \<lparr>ip_position = 0, ip_entry = [5], ip_proof_hashes = ml_proof toy_merkle [[5]] 0, ip_length_at_proof = 1\<rparr>,
      jb_log_root = the (ml_root toy_merkle [[5]]), jb_log_position = 0, jb_log_length_at_anchor = 1\<rparr>"
  show ?thesis
    using forged_bundle_accepted [OF toy_merkle_ok _ refl, where c = "audit_codec ?b (Some [6]) 4" and j = 1 and rt = "Some [6]" and len = 4 and max_attempts = 30]
      audit_codec_fits [of ?b "Some [6]" 4] by (intro exI [of _ ?b]) (simp add: Let_def)
qed

end
