(* ===== verification/Tls.thy ===== *)
theory Tls
  imports Prelude
begin

text \<open>
  The transport configuration (\<open>cosaci-protocol/src/tls.rs\<close>, \<open>tls_async.rs\<close>) and its
  reload on SIGHUP (\<open>build_server_config\<close>, \<open>install_sighup_reloader\<close> of the coordinator). What
  the code decides is which files become trust anchors, identity and revocation lists, and what
  an unreadable or damaged file does; the PEM reader and the certificate verifier of rustls are
  parameters. The theorems follow a client certificate through any sequence of reloads and
  connections.
\<close>

section \<open>The libraries\<close>

text \<open>The PEM reader gives the items of a file one by one, each readable or not. The verifier decides
  on a client by the trust anchors, the revocation lists and the certificate presented, if any.\<close>

record tls_lib =
  tl_certs :: "bytes \<Rightarrow> bytes option list"
  tl_private_key :: "bytes \<Rightarrow> bytes option option"
  tl_crls :: "bytes \<Rightarrow> bytes option list"
  tl_add_root :: "bytes \<Rightarrow> bool"
  tl_verifier :: "bytes list \<Rightarrow> bytes list \<Rightarrow> bool"
  tl_identity :: "bytes list \<Rightarrow> bytes \<Rightarrow> bool"
  tl_revokes :: "bytes \<Rightarrow> bytes \<Rightarrow> bool"
  tl_accepts :: "bytes list \<Rightarrow> bytes list \<Rightarrow> bytes option \<Rightarrow> bool"

text \<open>What rustls documents of its client verifier: a certificate is required, and one that a configured
  list revokes is refused.\<close>

definition tls_ok :: "tls_lib \<Rightarrow> bool" where
  "tls_ok lib \<longleftrightarrow> (\<forall>roots crls. \<not> tl_accepts lib roots crls None) \<and>
     (\<forall>roots crls crl cert. crl \<in> set crls \<and> tl_revokes lib crl cert \<longrightarrow> \<not> tl_accepts lib roots crls (Some cert))"

section \<open>Reading the files\<close>

datatype file_read = FileBytes bytes | FileMissing | FileUnreadable

type_synonym disk = "bytes \<Rightarrow> file_read"

datatype tls_error = TlsReadCa | TlsAddCa | TlsReadCert | TlsReadKey | TlsReadCrl | TlsVerifier | TlsIdentity

text \<open>\<open>filter_map(Result::ok)\<close>: items that cannot be read are dropped.\<close>

definition read_cert_chain :: "tls_lib \<Rightarrow> disk \<Rightarrow> bytes \<Rightarrow> bytes list option" where
  "read_cert_chain lib fs path =
     (case fs path of
        FileBytes bs \<Rightarrow> (let chain = List.map_filter (\<lambda>x. x) (tl_certs lib bs) in if chain = [] then None else Some chain)
      | _ \<Rightarrow> None)"

definition read_private_key :: "tls_lib \<Rightarrow> disk \<Rightarrow> bytes \<Rightarrow> bytes option" where
  "read_private_key lib fs path =
     (case fs path of
        FileBytes bs \<Rightarrow> (case tl_private_key lib bs of Some (Some key) \<Rightarrow> Some key | _ \<Rightarrow> None)
      | _ \<Rightarrow> None)"

definition read_crls :: "tls_lib \<Rightarrow> disk \<Rightarrow> bytes \<Rightarrow> bytes list option" where
  "read_crls lib fs path =
     (case fs path of
        FileBytes bs \<Rightarrow> Some (List.map_filter (\<lambda>x. x) (tl_crls lib bs))
      | FileMissing \<Rightarrow> Some []
      | FileUnreadable \<Rightarrow> None)"

section \<open>Configurations\<close>

record server_config =
  sc_roots :: "bytes list"
  sc_crls :: "bytes list"
  sc_chain :: "bytes list"
  sc_key :: bytes

definition server_config_from_paths_with_crl ::
  "tls_lib \<Rightarrow> disk \<Rightarrow> bytes \<Rightarrow> bytes \<Rightarrow> bytes \<Rightarrow> bytes option \<Rightarrow> tls_error + server_config" where
  "server_config_from_paths_with_crl lib fs ca_path cert_path key_path crl_path =
     (case read_cert_chain lib fs ca_path of None \<Rightarrow> Inl TlsReadCa
      | Some roots \<Rightarrow>
          if \<not> list_all (tl_add_root lib) roots then Inl TlsAddCa
          else (case read_cert_chain lib fs cert_path of None \<Rightarrow> Inl TlsReadCert
          | Some chain \<Rightarrow> (case read_private_key lib fs key_path of None \<Rightarrow> Inl TlsReadKey
          | Some key \<Rightarrow> (case (case crl_path of None \<Rightarrow> Some [] | Some p \<Rightarrow> read_crls lib fs p) of None \<Rightarrow> Inl TlsReadCrl
          | Some crls \<Rightarrow>
              if \<not> tl_verifier lib roots crls then Inl TlsVerifier
              else if \<not> tl_identity lib chain key then Inl TlsIdentity
              else Inr \<lparr>sc_roots = roots, sc_crls = crls, sc_chain = chain, sc_key = key\<rparr>))))"

definition server_config_from_paths :: "tls_lib \<Rightarrow> disk \<Rightarrow> bytes \<Rightarrow> bytes \<Rightarrow> bytes \<Rightarrow> tls_error + server_config" where
  "server_config_from_paths lib fs ca_path cert_path key_path =
     server_config_from_paths_with_crl lib fs ca_path cert_path key_path None"

text \<open>The acceptor of the asynchronous server wraps the same configuration.\<close>

definition acceptor_from_paths ::
  "tls_lib \<Rightarrow> disk \<Rightarrow> bytes \<Rightarrow> bytes \<Rightarrow> bytes \<Rightarrow> bytes option \<Rightarrow> tls_error + server_config" where
  "acceptor_from_paths = server_config_from_paths_with_crl"

record client_config =
  cc_roots :: "bytes list"
  cc_chain :: "bytes list"
  cc_key :: bytes

definition client_config_from_paths :: "tls_lib \<Rightarrow> disk \<Rightarrow> bytes \<Rightarrow> bytes \<Rightarrow> bytes \<Rightarrow> tls_error + client_config" where
  "client_config_from_paths lib fs ca_path cert_path key_path =
     (case read_cert_chain lib fs ca_path of None \<Rightarrow> Inl TlsReadCa
      | Some roots \<Rightarrow>
          if \<not> list_all (tl_add_root lib) roots then Inl TlsAddCa
          else (case read_cert_chain lib fs cert_path of None \<Rightarrow> Inl TlsReadCert
          | Some chain \<Rightarrow> (case read_private_key lib fs key_path of None \<Rightarrow> Inl TlsReadKey
          | Some key \<Rightarrow>
              if \<not> tl_identity lib chain key then Inl TlsIdentity
              else Inr \<lparr>cc_roots = roots, cc_chain = chain, cc_key = key\<rparr>)))"

section \<open>The coordinator's configuration\<close>

record tls_paths =
  tp_ca :: bytes
  tp_cert :: bytes
  tp_key :: bytes
  tp_crl :: bytes

definition build_server_config :: "tls_lib \<Rightarrow> disk \<Rightarrow> tls_paths \<Rightarrow> tls_error + server_config" where
  "build_server_config lib fs tp =
     server_config_from_paths_with_crl lib fs (tp_ca tp) (tp_cert tp) (tp_key tp) (if tp_crl tp = [] then None else Some (tp_crl tp))"

text \<open>SIGHUP: what the files give replaces the configuration, unless they give none.\<close>

definition reload_config :: "tls_lib \<Rightarrow> tls_paths \<Rightarrow> disk \<Rightarrow> server_config \<Rightarrow> server_config" where
  "reload_config lib tp fs cfg = (case build_server_config lib fs tp of Inl _ \<Rightarrow> cfg | Inr new_cfg \<Rightarrow> new_cfg)"

text \<open>The running server: a signal with the files as they are then, or a connection with the
  certificate the client presents. A connection takes a snapshot of the configuration.\<close>

datatype tls_event = TlsSighup disk | TlsConnect "bytes option"

fun tls_run :: "tls_lib \<Rightarrow> tls_paths \<Rightarrow> tls_event list \<Rightarrow> server_config \<Rightarrow> (bytes option \<times> bool) list" where
  "tls_run lib tp [] cfg = []"
| "tls_run lib tp (TlsSighup fs # evs) cfg = tls_run lib tp evs (reload_config lib tp fs cfg)"
| "tls_run lib tp (TlsConnect cert # evs) cfg = (cert, tl_accepts lib (sc_roots cfg) (sc_crls cfg) cert) # tls_run lib tp evs cfg"

section \<open>Lemmas\<close>

lemma server_configE:
  assumes "server_config_from_paths_with_crl lib fs ca cert key crl = Inr cfg"
  obtains roots crls where "read_cert_chain lib fs ca = Some roots" "(case crl of None \<Rightarrow> Some [] | Some p \<Rightarrow> read_crls lib fs p) = Some crls"
    "sc_roots cfg = roots" "sc_crls cfg = crls"
  using assms by (auto simp: server_config_from_paths_with_crl_def split: option.splits if_splits)

text \<open>A file names a revoked certificate when one of its readable lists revokes it.\<close>

definition crl_names :: "tls_lib \<Rightarrow> disk \<Rightarrow> bytes \<Rightarrow> bytes \<Rightarrow> bool" where
  "crl_names lib fs path cert =
     (case read_crls lib fs path of None \<Rightarrow> False | Some crls \<Rightarrow> list_ex (\<lambda>crl. tl_revokes lib crl cert) crls)"

definition shuts_out :: "tls_lib \<Rightarrow> server_config \<Rightarrow> bytes \<Rightarrow> bool" where
  "shuts_out lib cfg cert \<longleftrightarrow> list_ex (\<lambda>crl. tl_revokes lib crl cert) (sc_crls cfg)"

lemma build_shuts_out:
  assumes "build_server_config lib fs tp = Inr cfg" "tp_crl tp \<noteq> []" "crl_names lib fs (tp_crl tp) cert"
  shows "shuts_out lib cfg cert"
  using assms by (auto simp: build_server_config_def shuts_out_def crl_names_def elim!: server_configE)

lemma reload_shuts_out:
  assumes "shuts_out lib cfg cert" "tp_crl tp \<noteq> []" "crl_names lib fs (tp_crl tp) cert"
  shows "shuts_out lib (reload_config lib tp fs cfg) cert"
  using assms build_shuts_out [of lib fs tp] by (auto simp: reload_config_def split: sum.splits)

section \<open>Properties\<close>


text \<open>A revocation file that went missing, or that holds no list the reader can decode, is not an error: the
  reload succeeds without any revocation, and a client that was revoked before is accepted again if the
  rest of its certificate is.\<close>
theorem damaged_crl_readmits:
  assumes "build_server_config lib fs tp = Inr cfg" and "tp_crl tp \<noteq> []"
    and same: "\<And>p. p \<noteq> tp_crl tp \<Longrightarrow> fs' p = fs p" and apart: "tp_crl tp \<notin> {tp_ca tp, tp_cert tp, tp_key tp}"
    and damaged: "fs' (tp_crl tp) = FileMissing \<or> (\<exists>bs. fs' (tp_crl tp) = FileBytes bs \<and> list_all (\<lambda>x. x = None) (tl_crls lib bs))"
    and "tl_verifier lib (sc_roots cfg) []" and "tl_accepts lib (sc_roots cfg) [] (Some cert)"
  shows "tls_run lib tp [TlsConnect (Some cert), TlsSighup fs', TlsConnect (Some cert)] cfg =
     [(Some cert, tl_accepts lib (sc_roots cfg) (sc_crls cfg) (Some cert)), (Some cert, True)]"
proof -
  have "read_crls lib fs' (tp_crl tp) = Some []"
    using damaged by (auto simp: read_crls_def List.map_filter_def filter_empty_conv list_all_iff)
  moreover have "read_cert_chain lib fs' p = read_cert_chain lib fs p" "read_private_key lib fs' p = read_private_key lib fs p"
    if "p \<noteq> tp_crl tp" for p using same [OF that] by (simp_all add: read_cert_chain_def read_private_key_def)
  ultimately have "\<exists>new. build_server_config lib fs' tp = Inr new \<and> sc_roots new = sc_roots cfg \<and> sc_crls new = []"
    using assms(1,2,6) apart
    by (auto simp: build_server_config_def server_config_from_paths_with_crl_def split: option.splits if_splits)
  then show ?thesis using assms(7) by (auto simp: reload_config_def)
qed

section \<open>An example\<close>

text \<open>A verifier that trusts every certificate but those whose bytes stand in a list.\<close>

definition toy_tls :: tls_lib where
  "toy_tls = \<lparr>tl_certs = (\<lambda>bs. [Some bs]), tl_private_key = (\<lambda>bs. Some (Some bs)), tl_crls = (\<lambda>bs. [if bs = [0] then None else Some bs]),
     tl_add_root = (\<lambda>_. True), tl_verifier = (\<lambda>_ _. True), tl_identity = (\<lambda>_ _. True), tl_revokes = (\<lambda>crl cert. cert = crl),
     tl_accepts = (\<lambda>roots crls cert. case cert of None \<Rightarrow> False | Some c \<Rightarrow> c \<notin> set crls)\<rparr>"

definition toy_disk :: "bytes \<Rightarrow> disk" where
  "toy_disk crl = (\<lambda>p. if p = [4] then FileBytes crl else FileBytes p)"

definition toy_paths :: tls_paths where
  "toy_paths = \<lparr>tp_ca = [1], tp_cert = [2], tp_key = [3], tp_crl = [4]\<rparr>"

definition toy_server :: server_config where
  "toy_server = \<lparr>sc_roots = [[1]], sc_crls = [[9]], sc_chain = [[2]], sc_key = [3]\<rparr>"

lemma toy_tls_ok: "tls_ok toy_tls"
  by (simp add: tls_ok_def toy_tls_def)

lemma toy_tls_build: "build_server_config toy_tls (toy_disk [9]) toy_paths = Inr toy_server"
  by (simp add: build_server_config_def server_config_from_paths_with_crl_def read_cert_chain_def read_private_key_def read_crls_def
      toy_tls_def toy_disk_def toy_paths_def toy_server_def List.map_filter_def Let_def)


theorem damaged_crl_readmits_witness:
  "tls_run toy_tls toy_paths [TlsConnect (Some [9]), TlsSighup (toy_disk [0]), TlsConnect (Some [9])] toy_server = [(Some [9], False), (Some [9], True)]"
proof -
  have "fs p = fs' p" if "p \<noteq> tp_crl toy_paths" "fs = toy_disk [0]" "fs' = toy_disk [9]" for p fs fs'
    using that by (simp add: toy_disk_def toy_paths_def)
  then show ?thesis
    using damaged_crl_readmits [OF toy_tls_build, of "toy_disk [0]" "[9]"] by (simp add: toy_paths_def toy_disk_def toy_tls_def toy_server_def)
qed

section \<open>The test authority\<close>

text \<open>Certificates come from \<open>rcgen\<close>: keys from entropy, certificates for a name and a serial signed by an
  issuer, and revocation lists over serials.\<close>

record rcgen_lib =
  rc_key :: "nat \<Rightarrow> bytes option"
  rc_params :: "bytes \<Rightarrow> bool"
  rc_self_signed :: "bytes \<Rightarrow> bytes \<Rightarrow> (bytes \<times> bytes) option"
  rc_signed_by :: "bytes \<Rightarrow> bytes \<Rightarrow> u64 \<Rightarrow> bytes \<Rightarrow> (bytes \<times> bytes) option"
  rc_key_der :: "bytes \<Rightarrow> bytes"
  rc_key_pem :: "bytes \<Rightarrow> bytes"
  rc_crl :: "bytes \<Rightarrow> u64 list \<Rightarrow> bytes option"

record test_ca =
  ca_cert_der :: bytes
  ca_cert_pem :: bytes
  ca_issuer :: bytes
  ca_next_serial :: u64

record issued_cert =
  ic_cert_der :: bytes
  ic_key_der :: bytes
  ic_cert_pem :: bytes
  ic_key_pem :: bytes
  ic_serial :: u64

definition ca_generate :: "rcgen_lib \<Rightarrow> nat \<Rightarrow> bytes \<Rightarrow> test_ca option" where
  "ca_generate rc entropy name =
     (case rc_key rc entropy of None \<Rightarrow> None
      | Some signing_key \<Rightarrow> (case rc_self_signed rc name signing_key of None \<Rightarrow> None
          | Some (der, pem) \<Rightarrow> Some \<lparr>ca_cert_der = der, ca_cert_pem = pem, ca_issuer = signing_key, ca_next_serial = 1\<rparr>))"

text \<open>The serial is taken before the certificate is signed, and stays taken when signing fails.\<close>

definition ca_issue :: "rcgen_lib \<Rightarrow> nat \<Rightarrow> bytes \<Rightarrow> test_ca \<Rightarrow> test_ca \<times> issued_cert option" where
  "ca_issue rc entropy subject_name ca =
     (case rc_key rc entropy of None \<Rightarrow> (ca, None)
      | Some key \<Rightarrow>
          if \<not> rc_params rc subject_name then (ca, None)
          else let serial = ca_next_serial ca; ca' = ca\<lparr>ca_next_serial := serial + 1\<rparr> in
            (case rc_signed_by rc (ca_issuer ca) subject_name serial key of None \<Rightarrow> (ca', None)
             | Some (der, pem) \<Rightarrow> (ca', Some \<lparr>ic_cert_der = der, ic_key_der = rc_key_der rc key, ic_cert_pem = pem,
                 ic_key_pem = rc_key_pem rc key, ic_serial = serial\<rparr>)))"

definition ca_issue_crl :: "rcgen_lib \<Rightarrow> test_ca \<Rightarrow> issued_cert list \<Rightarrow> bytes option" where
  "ca_issue_crl rc ca revoked = rc_crl rc (ca_issuer ca) (map ic_serial revoked)"

text \<open>A sequence of requests to the authority, and the certificates they gave.\<close>

fun ca_issue_all :: "rcgen_lib \<Rightarrow> (nat \<times> bytes) list \<Rightarrow> test_ca \<Rightarrow> test_ca \<times> issued_cert list" where
  "ca_issue_all rc [] ca = (ca, [])"
| "ca_issue_all rc ((entropy, name) # rs) ca =
     (case ca_issue rc entropy name ca of (ca1, c) \<Rightarrow>
      case ca_issue_all rc rs ca1 of (ca2, cs) \<Rightarrow> (ca2, (case c of None \<Rightarrow> cs | Some c \<Rightarrow> c # cs)))"

section \<open>Configurations from certificates\<close>

definition root_store_from :: "tls_lib \<Rightarrow> test_ca \<Rightarrow> bytes list option" where
  "root_store_from lib ca = (if tl_add_root lib (ca_cert_der ca) then Some [ca_cert_der ca] else None)"

definition server_config_with_crls :: "tls_lib \<Rightarrow> issued_cert \<Rightarrow> bytes list \<Rightarrow> bytes list \<Rightarrow> tls_error + server_config" where
  "server_config_with_crls lib server_cert trust_roots crls =
     (if \<not> tl_verifier lib trust_roots crls then Inl TlsVerifier
      else if \<not> tl_identity lib [ic_cert_der server_cert] (ic_key_der server_cert) then Inl TlsIdentity
      else Inr \<lparr>sc_roots = trust_roots, sc_crls = crls, sc_chain = [ic_cert_der server_cert], sc_key = ic_key_der server_cert\<rparr>)"

definition server_config_for :: "tls_lib \<Rightarrow> issued_cert \<Rightarrow> bytes list \<Rightarrow> tls_error + server_config" where
  "server_config_for lib server_cert trust_roots = server_config_with_crls lib server_cert trust_roots []"

definition client_config_for :: "tls_lib \<Rightarrow> issued_cert \<Rightarrow> bytes list \<Rightarrow> tls_error + client_config" where
  "client_config_for lib client_cert trust_roots =
     (if \<not> tl_identity lib [ic_cert_der client_cert] (ic_key_der client_cert) then Inl TlsIdentity
      else Inr \<lparr>cc_roots = trust_roots, cc_chain = [ic_cert_der client_cert], cc_key = ic_key_der client_cert\<rparr>)"

section \<open>A handshake in memory\<close>

text \<open>One end of a connection, as rustls offers it.\<close>

record 'c tls_end =
  te_wants_write :: "'c \<Rightarrow> bool"
  te_write :: "'c \<Rightarrow> ('c \<times> bytes) option"
  te_read :: "bytes \<Rightarrow> 'c \<Rightarrow> 'c option"
  te_process :: "'c \<Rightarrow> 'c option"
  te_handshaking :: "'c \<Rightarrow> bool"

datatype handshake_error = HsWrite | HsRead | HsProcess | HsNotConverged

text \<open>What one end has to say is read and processed by the other.\<close>

definition hs_deliver :: "'a tls_end \<Rightarrow> 'b tls_end \<Rightarrow> 'a \<Rightarrow> 'b \<Rightarrow> handshake_error + ('a \<times> 'b)" where
  "hs_deliver ea eb a b =
     (case (if te_wants_write ea a then te_write ea a else Some (a, [])) of None \<Rightarrow> Inl HsWrite
      | Some (a', buf) \<Rightarrow>
          if buf = [] then Inr (a', b)
          else (case te_read eb buf b of None \<Rightarrow> Inl HsRead
            | Some b' \<Rightarrow> (case te_process eb b' of None \<Rightarrow> Inl HsProcess | Some b'' \<Rightarrow> Inr (a', b''))))"

definition hs_round :: "'a tls_end \<Rightarrow> 'b tls_end \<Rightarrow> 'a \<Rightarrow> 'b \<Rightarrow> handshake_error + ('a \<times> 'b)" where
  "hs_round ec es c s =
     (case hs_deliver ec es c s of Inl e \<Rightarrow> Inl e
      | Inr (c', s') \<Rightarrow> (case hs_deliver es ec s' c' of Inl e \<Rightarrow> Inl e | Inr (s'', c'') \<Rightarrow> Inr (c'', s'')))"

fun hs_loop :: "'a tls_end \<Rightarrow> 'b tls_end \<Rightarrow> nat \<Rightarrow> 'a \<Rightarrow> 'b \<Rightarrow> handshake_error + unit" where
  "hs_loop ec es 0 c s = Inl HsNotConverged"
| "hs_loop ec es (Suc n) c s =
     (case hs_round ec es c s of Inl e \<Rightarrow> Inl e
      | Inr (c', s') \<Rightarrow> if \<not> te_handshaking ec c' \<and> \<not> te_handshaking es s' then Inr () else hs_loop ec es n c' s')"

definition try_handshake :: "'a tls_end \<Rightarrow> 'b tls_end \<Rightarrow> 'a \<Rightarrow> 'b \<Rightarrow> handshake_error + unit" where
  "try_handshake ec es client server = hs_loop ec es 50 client server"

section \<open>What the authority promises\<close>

text \<open>A list revokes a certificate of its issuer when it names its serial.\<close>

definition rcgen_ok :: "rcgen_lib \<Rightarrow> tls_lib \<Rightarrow> bool" where
  "rcgen_ok rc lib \<longleftrightarrow> (\<forall>issuer name serial key der pem serials crl.
     rc_signed_by rc issuer name serial key = Some (der, pem) \<longrightarrow> rc_crl rc issuer serials = Some crl \<longrightarrow>
       (tl_revokes lib crl der \<longleftrightarrow> serial \<in> set serials))"

lemma ca_issue_cases:
  "ca_issue rc en name ca = (ca', c) \<Longrightarrow> ca_issuer ca' = ca_issuer ca \<and>
     (case c of None \<Rightarrow> ca_next_serial ca' \<in> {ca_next_serial ca, ca_next_serial ca + 1}
      | Some c \<Rightarrow> ca_next_serial ca' = ca_next_serial ca + 1 \<and> ic_serial c = ca_next_serial ca \<and>
          (\<exists>key pem. rc_signed_by rc (ca_issuer ca) name (ic_serial c) key = Some (ic_cert_der c, pem)))"
  by (fastforce simp: ca_issue_def Let_def split: option.splits if_splits)

text \<open>Serials count up from the next one, so they do not repeat before they wrap.\<close>

lemma ca_issue_all_serials:
  assumes "ca_issue_all rc rs ca = (ca', cs)" "unat (ca_next_serial ca) + length rs < 2 ^ 64"
  shows "distinct (map ic_serial cs) \<and> (\<forall>c\<in>set cs. unat (ca_next_serial ca) \<le> unat (ic_serial c) \<and>
    (\<exists>name key pem. rc_signed_by rc (ca_issuer ca) name (ic_serial c) key = Some (ic_cert_der c, pem))) \<and> ca_issuer ca' = ca_issuer ca"
  using assms
proof (induction rs arbitrary: ca cs)
  case (Cons r rs)
  obtain en name where r: "r = (en, name)" by fastforce
  obtain ca1 c where one: "ca_issue rc en name ca = (ca1, c)" by fastforce
  obtain cs2 where rest: "ca_issue_all rc rs ca1 = (ca', cs2)"
    using Cons.prems(1) by (cases "ca_issue_all rc rs ca1") (auto simp: r one)
  note i = ca_issue_cases [OF one]
  have "unat (ca_next_serial ca + 1) = unat (ca_next_serial ca) + 1"
    using Cons.prems(2) by (subst unat_add_lem [THEN iffD1]) simp_all
  then have le: "unat (ca_next_serial ca) \<le> unat (ca_next_serial ca1)" "unat (ca_next_serial ca1) + length rs < 2 ^ 64"
    "c \<noteq> None \<Longrightarrow> unat (ca_next_serial ca1) = unat (ca_next_serial ca) + 1"
    using i Cons.prems(2) by (auto split: option.splits)
  from Cons.IH [OF rest le(2)] i le(1,3) show ?case
    using Cons.prems(1) by (cases c) (fastforce simp: r one rest)+
qed simp

text \<open>The list of an authority revokes exactly what it was given: among the certificates it issued (fewer than
  \<open>2 ^ 64\<close> requests), a server that is given the list of some of them refuses each of those, and the
  list touches no other.\<close>
theorem issued_crl_exact:
  assumes rc: "rcgen_ok rc lib" and lib: "tls_ok lib"
    and gen: "ca_generate rc en name = Some ca" and all: "ca_issue_all rc rs ca = (ca', cs)" and few: "length rs < 2 ^ 64 - 1"
    and crl: "ca_issue_crl rc ca' revoked = Some crl" "set revoked \<subseteq> set cs"
    and cfg: "server_config_with_crls lib server_cert roots [crl] = Inr cfg" and c: "c \<in> set cs"
  shows "(tl_revokes lib crl (ic_cert_der c) \<longleftrightarrow> c \<in> set revoked) \<and>
    (c \<in> set revoked \<longrightarrow> \<not> tl_accepts lib (sc_roots cfg) (sc_crls cfg) (Some (ic_cert_der c)))"
proof -
  have one: "ca_next_serial ca = 1" using gen by (auto simp: ca_generate_def split: option.splits)
  have inv: "distinct (map ic_serial cs)" "ca_issuer ca' = ca_issuer ca"
    "\<exists>name key pem. rc_signed_by rc (ca_issuer ca) name (ic_serial c) key = Some (ic_cert_der c, pem)"
    using ca_issue_all_serials [OF all] few one c by auto
  have "ic_serial c \<in> ic_serial ` set revoked \<longleftrightarrow> c \<in> set revoked"
    using inv(1) crl(2) c by (meson distinct_map inj_on_image_mem_iff)
  then have rev: "tl_revokes lib crl (ic_cert_der c) \<longleftrightarrow> c \<in> set revoked"
    using rc inv(2,3) crl(1) unfolding rcgen_ok_def ca_issue_crl_def by (metis list.set_map)
  moreover have "sc_crls cfg = [crl]" using cfg by (auto simp: server_config_with_crls_def split: if_splits)
  ultimately show ?thesis using lib unfolding tls_ok_def by (metis list.set_intros(1))
qed

text \<open>The handshake succeeds exactly when some round within the budget is the first after which neither end is
  handshaking, with no error before.\<close>

fun hs_rounds :: "'a tls_end \<Rightarrow> 'b tls_end \<Rightarrow> nat \<Rightarrow> 'a \<Rightarrow> 'b \<Rightarrow> ('a \<times> 'b) option" where
  "hs_rounds ec es 0 c s = Some (c, s)"
| "hs_rounds ec es (Suc n) c s = (case hs_round ec es c s of Inl _ \<Rightarrow> None | Inr (c', s') \<Rightarrow> hs_rounds ec es n c' s')"

lemma hs_loop_ok:
  "hs_loop ec es n c s = Inr () \<longleftrightarrow>
     (\<exists>k<n. case hs_rounds ec es (Suc k) c s of None \<Rightarrow> False | Some (c', s') \<Rightarrow> \<not> te_handshaking ec c' \<and> \<not> te_handshaking es s')"
proof (induction n arbitrary: c s)
  case (Suc n)
  have split: "(\<exists>k<Suc n. P k) \<longleftrightarrow> P 0 \<or> (\<exists>k<n. P (Suc k))" for P by (metis less_Suc_eq_0_disj)
  show ?case unfolding split by (cases "hs_round ec es c s") (auto simp: Suc.IH split: prod.splits)
qed simp

theorem try_handshake_ok:
  "try_handshake ec es c s = Inr () \<longleftrightarrow>
     (\<exists>k<50. case hs_rounds ec es (Suc k) c s of None \<Rightarrow> False | Some (c', s') \<Rightarrow> \<not> te_handshaking ec c' \<and> \<not> te_handshaking es s')"
  unfolding try_handshake_def by (rule hs_loop_ok)

end
