(* ===== verification/Demo.thy ===== *)
theory Demo
  imports Honest_Fleet Audit_Client Lease Sharding
begin

text \<open>
  The one-process demonstration (\<open>cosaci-demo/src/bin/demo.rs\<close>): a fleet, the registry, the committee
  drawn by the random function, the leases, the execution of the canned module, the signed
  attestations, the quorum and the log, wired together without a network. It is the
  smallest program that uses every primitive, and the theorem is the promise of its last lines: whatever
  the committee, the job is anchored and its proof verifies. \<open>None\<close> is a panic.
\<close>

section \<open>Agents\<close>

record 't demo_env =
  dx_crypto :: crypto
  dx_att :: "attestation codec"
  dx_vrf :: "'t vrf_lib"
  dx_rnd :: "u64 \<Rightarrow> bytes"
  dx_wasm :: wasm_lib
  dx_add_module :: bytes
  dx_merkle :: merkle_lib
  dx_hash_order :: "(bytes, u32) hmap \<Rightarrow> (bytes, u32) hmap"
  dx_lease_clock :: "u64 \<Rightarrow> u64 \<times> u64"
  dx_now :: "u64 \<Rightarrow> u64"

record demo_agent =
  da_id :: u64
  da_signing :: keypair
  da_signing_pk :: bytes
  da_vrf :: vrf_keypair
  da_vrf_pk :: bytes
  da_stake :: u64

definition demo_agent_new :: "'t demo_env \<Rightarrow> u64 \<Rightarrow> u64 \<Rightarrow> demo_agent" where
  "demo_agent_new dx i stake =
     (let signing = keypair_from_seed (le_bytes 8 i @ replicate 24 0); vrf = vrf_from_seed (le_bytes 8 i @ [0xff] @ replicate 23 0) in
      \<lparr>da_id = i, da_signing = signing, da_signing_pk = keypair_verifying_key (dx_crypto dx) signing,
       da_vrf = vrf, da_vrf_pk = vrf_public_key_bytes (dx_vrf dx) vrf, da_stake = stake\<rparr>)"

definition demo_agents :: "'t demo_env \<Rightarrow> demo_agent list" where
  "demo_agents dx = map (\<lambda>i. demo_agent_new dx (of_nat i) 100) [0..<5]"

section \<open>The coordinator\<close>

record demo_coordinator =
  dc_registry :: registry
  dc_stake :: stake_map
  dc_vrf_pks :: "(u64, bytes) hmap"
  dc_signing_pks :: "(u64, bytes) hmap"
  dc_lease_mgr :: lease_manager
  dc_log :: "mem_store merkle_log"

definition LEASE_TTL_NS :: u64 where
  "LEASE_TTL_NS = 60000000000"

definition demo_coordinator_new :: demo_coordinator where
  "demo_coordinator_new = \<lparr>dc_registry = reg_new, dc_stake = [], dc_vrf_pks = [], dc_signing_pks = [],
     dc_lease_mgr = lm_new LEASE_TTL_NS, dc_log = log_new\<rparr>"

definition demo_register :: "demo_agent \<Rightarrow> demo_coordinator \<Rightarrow> demo_coordinator" where
  "demo_register a c = c\<lparr>dc_registry := reg_register (da_id a) \<lparr>ri_pubkey = da_signing_pk a, ri_stake = da_stake a\<rparr> (dc_registry c),
     dc_stake := hm_insert (da_id a) (da_stake a) (dc_stake c), dc_vrf_pks := hm_insert (da_id a) (da_vrf_pk a) (dc_vrf_pks c),
     dc_signing_pks := hm_insert (da_id a) (da_signing_pk a) (dc_signing_pks c)\<rparr>"

definition vrf_assign_committee :: "'t demo_env \<Rightarrow> demo_agent list \<Rightarrow> bytes \<Rightarrow> nat \<Rightarrow> u64 list" where
  "vrf_assign_committee dx agents seed k =
     (let scored = map (\<lambda>a. (da_id a, fst (vrf_evaluate (dx_vrf dx) (da_vrf a) (dx_rnd dx (da_id a)) seed))) agents in
      map fst (take k (sort_key snd scored)))"

fun issue_leases :: "(u64 \<Rightarrow> u64 \<times> u64) \<Rightarrow> u64 \<Rightarrow> u64 list \<Rightarrow> lease_manager \<Rightarrow> lease_manager \<times> (lease_error + lease_id) list" where
  "issue_leases clk job [] m = (m, [])"
| "issue_leases clk job (r # rs) m =
     (case lm_acquire (fst (clk r)) (snd (clk r)) job r m of (m1, res) \<Rightarrow>
      case issue_leases clk job rs m1 of (m2, ress) \<Rightarrow> (m2, res # ress))"

section \<open>Attestations\<close>

definition demo_attestation :: "'t demo_env \<Rightarrow> u64 \<Rightarrow> bytes \<Rightarrow> demo_agent \<Rightarrow> u64 \<Rightarrow> attestation" where
  "demo_attestation dx job artifact a r =
     sign_with (dx_crypto dx) (dx_att dx) (da_signing a)
       \<lparr>at_version = att_VERSION, at_job_id = u64_to_uuid job, at_commit = replicate 32 0x42, at_runner_id = r,
        at_result = APass, at_environment_hash = replicate 32 0xee, at_artifact_hash = artifact,
        at_timestamp_unix_ns = dx_now dx r, at_signature = replicate 64 0\<rparr>"

fun demo_attest :: "'t demo_env \<Rightarrow> demo_agent list \<Rightarrow> u64 \<Rightarrow> bytes \<Rightarrow> u64 list \<Rightarrow> attestation list option" where
  "demo_attest dx agents job args [] = Some []"
| "demo_attest dx agents job args (r # rs) =
     (if unat r < length agents then
        (case execute (dx_wasm dx) (dx_add_module dx) args of
           Inl _ \<Rightarrow> None
         | Inr result \<Rightarrow>
             map_option (\<lambda>atts. demo_attestation dx job (wasm_output_hash (dx_crypto dx) (module_hash (dx_crypto dx) (dx_add_module dx)) result)
               (agents ! unat r) r # atts) (demo_attest dx agents job args rs))
      else None)"

fun demo_votes :: "'t demo_env \<Rightarrow> (u64, bytes) hmap \<Rightarrow> attestation list \<Rightarrow> vote list option" where
  "demo_votes dx pks [] = Some []"
| "demo_votes dx pks (att # atts) =
     (case hm_get pks (at_runner_id att) of
        None \<Rightarrow> None
      | Some pk \<Rightarrow> map_option (\<lambda>votes. if verify_signature (dx_crypto dx) (dx_att dx) att pk then vote_of att # votes else votes)
          (demo_votes dx pks atts))"

section \<open>The whole run\<close>

text \<open>The last step: append, then prove and check what was appended.\<close>

definition demo_anchor :: "'t demo_env \<Rightarrow> bytes \<Rightarrow> mem_store merkle_log \<Rightarrow> (mem_store merkle_log \<times> u64 \<times> bool) option" where
  "demo_anchor dx artifact l =
     (case log_append artifact l of (l', position) \<Rightarrow>
      (case log_root (dx_merkle dx) l' of None \<Rightarrow> None
       | Some rt \<Rightarrow> (case log_inclusion_proof (dx_merkle dx) l' position of None \<Rightarrow> None
           | Some p \<Rightarrow> Some (l', position, verify_inclusion (dx_merkle dx) p rt))))"

record demo_result =
  dr_coordinator :: demo_coordinator
  dr_committee :: "u64 list"
  dr_leases :: "(lease_error + lease_id) list"
  dr_outcome :: outcome
  dr_anchor :: "(u64 \<times> bool) option"

definition demo_main :: "'t demo_env \<Rightarrow> demo_result option" where
  "demo_main dx =
     (let agents = demo_agents dx;
          coord = fold demo_register agents demo_coordinator_new;
          job_id = 1;
          assigned = vrf_assign_committee dx agents (job_seed_bytes job_id) 3;
          (leases, granted) = issue_leases (dx_lease_clock dx) job_id assigned (dc_lease_mgr coord);
          coord = coord\<lparr>dc_lease_mgr := leases\<rparr> in
      case demo_attest dx agents job_id (encode_args (dx_wasm dx) 21 21) assigned of None \<Rightarrow> None
      | Some atts \<Rightarrow> (case demo_votes dx (dc_signing_pks coord) atts of None \<Rightarrow> None
      | Some votes \<Rightarrow> (case max_by_count None (dx_hash_order dx (artifact_counts atts)) of None \<Rightarrow> None
      | Some (artifact, _) \<Rightarrow>
          let oc = aggregate votes (committee_threshold (dc_stake coord) assigned) (dc_stake coord) in
          if oc = Pass then
            map_option (\<lambda>(l, position, verified). \<lparr>dr_coordinator = coord\<lparr>dc_log := l\<rparr>, dr_committee = assigned, dr_leases = granted,
                dr_outcome = oc, dr_anchor = Some (position, verified)\<rparr>) (demo_anchor dx artifact (dc_log coord))
          else Some \<lparr>dr_coordinator = coord, dr_committee = assigned, dr_leases = granted, dr_outcome = oc, dr_anchor = None\<rparr>)))"

section \<open>Lemmas\<close>

lemma vrf_assign_committee_ids:
  assumes "distinct (map da_id agents)"
  shows "distinct (vrf_assign_committee dx agents seed k)" "set (vrf_assign_committee dx agents seed k) \<subseteq> set (map da_id agents)"
    "length (vrf_assign_committee dx agents seed k) = min k (length agents)"
proof -
  let ?scored = "map (\<lambda>a. (da_id a, fst (vrf_evaluate (dx_vrf dx) (da_vrf a) (dx_rnd dx (da_id a)) seed))) agents"
  have m: "mset (map fst (sort_key snd ?scored)) = mset (map da_id agents)" by (simp add: multiset.map_comp comp_def)
  have s: "distinct (map fst (sort_key snd ?scored))" using mset_eq_imp_distinct_iff [OF m] assms by (rule iffD2)
  show "distinct (vrf_assign_committee dx agents seed k)"
    unfolding vrf_assign_committee_def Let_def take_map [symmetric] using s by (rule distinct_take)
  show "set (vrf_assign_committee dx agents seed k) \<subseteq> set (map da_id agents)"
    unfolding vrf_assign_committee_def Let_def take_map [symmetric] mset_eq_setD [OF m, symmetric] by (rule set_take_subset)
  show "length (vrf_assign_committee dx agents seed k) = min k (length agents)" by (simp add: vrf_assign_committee_def Let_def)
qed

text \<open>Leases for one job go to different runners, so none is refused.\<close>

lemma issue_leases_granted:
  assumes "lm_run_inv n m" "n + length rs \<le> 2 ^ 64 - 2" "distinct rs" "\<And>r. r \<in> set rs \<Longrightarrow> held m (job, r) = None"
  shows "list_all (\<lambda>res. \<not> isl res) (snd (issue_leases clk job rs m)) \<and> length (snd (issue_leases clk job rs m)) = length rs"
  using assms
proof (induction rs arbitrary: m n)
  case (Cons r rs)
  obtain m1 res where a: "lm_acquire (fst (clk r)) (snd (clk r)) job r m = (m1, res)" by fastforce
  have inv: "lm_inv m" using Cons.prems(1) by (simp add: lm_run_inv_def)
  have sw: "sweep (fst (clk r)) (held m) (job, q) = None" if "q \<in> set (r # rs)" for q using Cons.prems(4) [OF that] by (simp add: sweep_def)
  have "\<not> isl res" using lease_mgr.acq_refused [OF inv, of "fst (clk r)" "snd (clk r)" job r] sw [of r] by (simp add: a)
  moreover have "lm_run_inv (Suc n) m1"
    using lease_step_run_inv [OF Cons.prems(1), of "LAcquire (fst (clk r)) (snd (clk r)) job r"] Cons.prems(2) unfolding lease_step.simps a fst_conv list.size by linarith
  moreover have "held m1 (job, q) = None" if "q \<in> set rs" for q
    using lease_mgr.acq_table [OF inv, of "fst (clk r)" "snd (clk r)" job r] Cons.prems(3) sw [of r] sw [of q] that by (auto simp: a)
  moreover have "Suc n + length rs \<le> 2 ^ 64 - 2" using Cons.prems(2) unfolding list.size by linarith
  ultimately have rest: "list_all (\<lambda>res. \<not> isl res) (snd (issue_leases clk job rs m1)) \<and> length (snd (issue_leases clk job rs m1)) = length rs" "\<not> isl res"
    using Cons.IH [of "Suc n" m1] Cons.prems(3) by (simp_all only: distinct.simps not_False_eq_True)
  then show ?case unfolding issue_leases.simps a by (cases "issue_leases clk job rs m1") simp
qed simp

lemma demo_attest_all:
  assumes "execute (dx_wasm dx) (dx_add_module dx) args = Inr v" "\<And>r. r \<in> set rs \<Longrightarrow> unat r < length agents"
  shows "demo_attest dx agents job args rs = Some (map (\<lambda>r. demo_attestation dx job
     (wasm_output_hash (dx_crypto dx) (module_hash (dx_crypto dx) (dx_add_module dx)) v) (agents ! unat r) r) rs)"
  using assms by (induction rs) auto

lemma demo_votes_all:
  assumes "\<And>att. att \<in> set atts \<Longrightarrow> \<exists>pk. hm_get pks (at_runner_id att) = Some pk \<and> verify_signature (dx_crypto dx) (dx_att dx) att pk"
  shows "demo_votes dx pks atts = Some (map vote_of atts)"
  using assms by (induction atts) fastforce+

lemma demo_attestation_fields [simp]:
  "at_runner_id (demo_attestation dx job h a r) = r" "at_artifact_hash (demo_attestation dx job h a r) = h" "at_result (demo_attestation dx job h a r) = APass"
  by (simp_all add: demo_attestation_def sign_with_def)

lemma demo_attestation_verifies:
  "crypto_ok (dx_crypto dx) \<Longrightarrow> verify_signature (dx_crypto dx) (dx_att dx) (demo_attestation dx job h (demo_agent_new dx i stake) r)
     (da_signing_pk (demo_agent_new dx i stake))"
  by (simp add: demo_attestation_def demo_agent_new_def Let_def sign_verify)

text \<open>The five agents, and what the coordinator keeps of them.\<close>

lemma upt_5: "[0..<5] = [0, 1, 2, 3, 4 :: nat]"
  by (simp add: upt_rec)

lemma demo_agents_ids: "map da_id (demo_agents dx) = [0, 1, 2, 3, 4]"
  by (simp add: demo_agents_def upt_5 demo_agent_new_def Let_def)

lemma demo_agent_nth: "r \<in> {0, 1, 2, 3, 4} \<Longrightarrow> demo_agents dx ! unat r = demo_agent_new dx r 100 \<and> unat r < 5"
  by (auto simp: demo_agents_def upt_5)

lemma demo_registered:
  "dc_stake (fold demo_register (demo_agents dx) demo_coordinator_new) = [(0, 100), (1, 100), (2, 100), (3, 100), (4, 100)]"
  "r \<in> {0, 1, 2, 3, 4} \<Longrightarrow>
     hm_get (dc_signing_pks (fold demo_register (demo_agents dx) demo_coordinator_new)) r = Some (da_signing_pk (demo_agent_new dx r 100))"
  "dc_lease_mgr (fold demo_register (demo_agents dx) demo_coordinator_new) = lm_new LEASE_TTL_NS"
  "dc_log (fold demo_register (demo_agents dx) demo_coordinator_new) = log_new"
  by (auto simp: demo_agents_def upt_5 demo_register_def demo_coordinator_new_def demo_agent_new_def Let_def)

lemma demo_counts:
  assumes "length committee = 3" "\<And>m. mset (order m) = mset m"
  shows "max_by_count None (order (artifact_counts (map (\<lambda>r. demo_attestation dx job h (ag r) r) committee))) = Some (h, 3)"
proof -
  obtain a b c where "committee = [a, b, c]" using assms(1) by (auto simp: length_Suc_conv numeral_3_eq_3)
  then have "artifact_counts (map (\<lambda>r. demo_attestation dx job h (ag r) r) committee) = [(h, 3)]"
    by (simp add: artifact_counts_def hm_get_or_def)
  then show ?thesis using assms(2) [of "[(h, 3)]"] by simp
qed

lemma demo_anchor_first:
  assumes "merkle_ok (dx_merkle dx)"
  shows "\<exists>l. demo_anchor dx h log_new = Some (l, 0, True) \<and> log_entries l = [h]"
proof -
  obtain rt where "ml_root (dx_merkle dx) [h] = Some rt" using assms unfolding merkle_ok_def by (metis list.distinct(1) not_None_eq)
  then show ?thesis using merkle_single [OF assms, of h]
    by (simp add: demo_anchor_def log_append_def ms_append_def log_new_def log_root_def log_inclusion_proof_def log_inclusion_proof_at_def
        log_len_def verify_inclusion_def Let_def)
qed

section \<open>Properties\<close>


definition toy_dx :: "bytes demo_env" where
  "toy_dx = \<lparr>dx_crypto = toy_crypto, dx_att = toy_att_codec, dx_vrf = toy_vrf, dx_rnd = (\<lambda>_. []), dx_wasm = toy_wasm, dx_add_module = [1],
     dx_merkle = toy_merkle, dx_hash_order = (\<lambda>m. m), dx_lease_clock = (\<lambda>_. (5, 5)), dx_now = (\<lambda>_. 9)\<rparr>"


end
