(* ===== verification/Spec2Isabelle.thy ===== *)
theory Spec2Isabelle
  imports Partial_Quorum Aggregator Partition Replicated_Cluster Submission_Auth Status Gossip Bloom
    Merkle_Log Attestation Sharding Journal Reputation Enrollment Network Admin_Api Fleet Confidentiality
    Intake Honest_Fleet Webhook_Listener Github_Checks Admin_Cli Coordinator Audit_Client Tls Demo
begin

text \<open>
  A verification library for cosaci, a continuous-integration coordinator that does not trust its
  runners: a job is given to a committee drawn by verifiable random functions, each member runs it and
  signs what it got, the signed attestations are weighed by stake, and the agreed artifact is
  appended to a Merkle log that auditors can check.

  \<^bold>\<open>The program.\<close> The coordinator (\<open>bins/cosaci-coordinator\<close>) accepts a fleet of agents, takes
  submissions from standard input through an admission gate (signature, replay window, rate limit,
  tenant registry), runs one job after the other, slashes the minority, anchors the outcome and
  keeps a journal; beside the loop it serves auditors (read server) and administrators. Agents
  (\<open>bins/cosaci-agent\<close>) register, claim a place with a VRF output, execute the pipeline they are assigned
  (\<open>crates/cosaci-jobs\<close>, \<open>cosaci-wasm\<close>) and return a signed attestation. The webhook listener
  (\<open>bins/cosaci-webhook-listener\<close>, \<open>crates/cosaci-webhook\<close>) turns events of GitHub and GitLab into signed
  submissions for the coordinator's input. The administration tool (\<open>bins/cosaci-admin\<close>) edits the
  enrollment and tenant files or asks the coordinator to. The audit client (\<open>verify\<close>) fetches the
  bundle of a job and checks its proof. Everything speaks length-prefixed CBOR over mutual TLS.

  \<^bold>\<open>How the code is modelled.\<close> Structs are records, enums datatypes, machine integers words of their
  width with the wrapping arithmetic of a release build, strings and byte arrays lists of bytes, a
  \<open>HashMap\<close> an association list with one entry per key (where the order of iteration shows, it is a
  parameter). An operation is a function from the old state to the new one and its result; a
  \<open>Result\<close> is a sum, a panic or a call that does not return is \<open>None\<close>. Clock readings, file contents
  and faults, and what comes over a connection are arguments. Code outside the repository
  (ed25519, SHA-256, HMAC, CBOR, JSON and TOML readers, the VRF, the Merkle tree, wasmtime, git, rustls,
  processes and control groups) is a parameter: a record of functions with a predicate
  (\<open>crypto_ok\<close>, \<open>vrf_ok\<close>, \<open>merkle_ok\<close>, \<open>codec_ok\<close>, \<open>json_ok\<close>, \<open>wasm_ok\<close>, \<open>tls_ok\<close> and so on) that
  states the documented behaviour a theorem relies on, and an instance that satisfies it.

  \<^bold>\<open>Foundations.\<close>
  \<^item> \<open>Prelude\<close>: words, saturating arithmetic, hash maps (\<open>hm_simps\<close>), and the locales \<open>machine\<close>,
    \<open>absorbing_machine\<close> and \<open>budgeted_machine\<close> for components driven by a sequence of calls, whose
    invariants are proved once per component by an interpretation.
  \<^item> \<open>Text_Format\<close>, \<open>Utf8\<close>, \<open>Record_File\<close>, \<open>Floating\<close>: the parts of the standard library the code reads
    its files with (lines, fields, decimal and hexadecimal numbers, UTF-8, correctly rounded
    floats). \<open>hex_reader\<close>, \<open>strict_hex_reader\<close> and \<open>record_file\<close> are the contracts of the five hexadecimal
    readers and of the two line-per-record files.
  \<^item> \<open>Crypto\<close> (\<open>core/signing.rs\<close>), \<open>Vrf\<close> (\<open>cosaci-vrf\<close>), \<open>Confidentiality\<close> (\<open>core/confidentiality.rs\<close>): the wrappers
    around the cryptographic libraries.

  \<^bold>\<open>State and consensus.\<close>
  \<^item> \<open>Quorum\<close> (\<open>core/quorum.rs\<close>): when a vote passes, fails, is retried or escalated, against the stake each
    side holds; independence of the order of votes; the wrap of the stake sum.
  \<^item> \<open>Partial_Quorum\<close>, \<open>Aggregator\<close> (\<open>state/partial_quorum.rs\<close>, \<open>aggregator.rs\<close>): two thirds of the responding stake;
    the retry loop ends and its outcome is that of the votes received.
  \<^item> \<open>Lease\<close>, \<open>Partition\<close>, \<open>Replicated_Cluster\<close> (\<open>state/lease.rs\<close>, \<open>partition.rs\<close>, \<open>replicated_cluster.rs\<close>): the index
    of active pairs is exact, a lapsed lease does not come back; \<open>lease_service\<close> is the contract on which
    the side gate and the two replicas are compared with one manager.
  \<^item> \<open>Status\<close>, \<open>Github_Checks\<close> (\<open>core/status.rs\<close>, \<open>state/github_checks.rs\<close>): the life of a job and how it is reported.
  \<^item> \<open>Gossip\<close>, \<open>Bloom\<close>, \<open>Sharding\<close> (\<open>core/gossip.rs\<close>, \<open>bloom.rs\<close>, \<open>state/registry.rs\<close>, \<open>sharding.rs\<close>,
    \<open>sharding_handoff.rs\<close>): merging is a join; no false negatives; the registry, the sharded store and the
    store that migrates while it serves all refine one map (\<open>kv_store\<close>).
  \<^item> \<open>Merkle_Log\<close>, \<open>Attestation\<close> (\<open>core/merkle_log.rs\<close>, \<open>attestation.rs\<close>, \<open>verifier.rs\<close>, \<open>retrieval.rs\<close>): both stores
    satisfy \<open>append_store\<close>, the log on disk reopens to what was appended, proofs stay valid as the log
    grows, bundles verify.
  \<^item> \<open>Journal\<close>, \<open>Reputation\<close> (\<open>state/journal.rs\<close>, \<open>stake_ledger.rs\<close>, \<open>core/reputation.rs\<close>, \<open>flake.rs\<close>): replay after a torn
    write, reconstruction of each job's state, slashing in double precision.

  \<^bold>\<open>Admission.\<close>
  \<^item> \<open>Replay\<close>, \<open>Rate_Limit\<close>, \<open>Tenant\<close>, \<open>Submission_Auth\<close> (\<open>state/replay.rs\<close>, \<open>rate_limit.rs\<close>, \<open>tenant.rs\<close>, \<open>submission_auth.rs\<close>):
    a nonce is accepted once per window, the number of admissions is bounded by capacity and refill,
    nothing passes without the signature of a registered tenant.
  \<^item> \<open>Intake\<close> (reader and gate of the coordinator): whatever is in the queue was signed, the queue
    is bounded, what a dropped or late submission does.
  \<^item> \<open>Webhook\<close>, \<open>Webhook_Listener\<close>: templates resolve to exactly their text, only authenticated deliveries
    produce output, and a delivery reaches the coordinator's queue.

  \<^bold>\<open>Execution.\<close>
  \<^item> \<open>Network\<close>, \<open>Source_Fetch\<close>, \<open>Wasm_Runtime\<close>, \<open>Native_Exec\<close>, \<open>Pipeline\<close> (\<open>cosaci-jobs\<close>, \<open>cosaci-wasm\<close>): the egress policy
    decides as its prefix and host rules say, the tree hash determines the tree, the polling wait
    returns, a step depends on nothing but its inputs, outputs of one step do not leak into another.

  \<^bold>\<open>The distributed program.\<close>
  \<^item> \<open>Protocol\<close> (\<open>cosaci-protocol/src/proto.rs\<close>, \<open>proto_async.rs\<close>): \<open>framing\<close>, interpreted for the blocking and
    the asynchronous reader; streams of messages round-trip and torn ones never give another message.
  \<^item> \<open>Tls\<close> (\<open>tls.rs\<close>, \<open>tls_async.rs\<close>, reload in the coordinator): which files become trust anchors, identity and
    revocation lists; certificates of the test authority; a revoked client stays out.
  \<^item> \<open>Enrollment\<close>, \<open>Capabilities\<close>, \<open>Fleet\<close>: the enrollment file, committee selection, and that every
    agent of the fleet was vetted.
  \<^item> \<open>Agent\<close>, \<open>Job_Runner\<close>, \<open>Job_Audit\<close>, \<open>Honest_Fleet\<close>: both sides of a job. A run of the loop keeps an
    invariant from which follow that nothing is anchored without a quorum, that every record can be
    audited, that the journal tells the records, and, when the fleet runs the agent program, that
    the job is anchored.
  \<^item> \<open>Read_Api\<close>, \<open>Admin_Auth\<close>, \<open>Admin_Api\<close>, \<open>Admin_Cli\<close>, \<open>Audit_Client\<close>: the servers and their clients, composed over the wire.
  \<^item> \<open>Coordinator\<close>: the command line, the files and the loop together with the reader.
  \<^item> \<open>Demo\<close> (\<open>bins/cosaci-demo/src/bin/demo.rs\<close>): the one-process run of all primitives ends with a verified anchor.
  \<^item> This theory: the trail from an accepted audit back to a signed submission and enrolled keys.

  \<^bold>\<open>Bounds.\<close> Most loops recurse over data or over the list of events that drives them and need no fuel. The
  polling wait of a native step recurses over the observations of the process it polls; a run that uses
  them up has not returned and is \<open>None\<close>. The audit client recurses over its attempts, a \<open>u32\<close>, and the
  handshake over the fifty rounds the code allows. The lease manager numbers leases with 64 bits:
  its invariant holds for \<open>2 ^ 64 - 2\<close> calls (\<open>budgeted_machine\<close>). Hypotheses such as a total
  stake below \<open>2 ^ 63\<close> or a log shorter than \<open>2 ^ 64\<close> mark where the wrapping arithmetic of the code
  matters; theorems next to them show what happens beyond.

  \<^bold>\<open>Not modelled.\<close> Logging and printed text; the addresses, sockets and threads of the servers (each
  connection is handled by the modelled function, their interleaving is that of its state changes);
  \<open>theoretical_fp_rate\<close> of the Bloom filter, a floating-point estimate by \<open>exp\<close> and \<open>powi\<close> that no code
  decides on; the injected clock, whose readings are arguments; \<open>demo_networked.rs\<close>, a script that starts the other
  programs and waits for them; unit tests, and the modules that only re-export others. The
  canned WebAssembly modules are byte strings, since their text is compiled by a library.
\<close>

section \<open>The audit trail\<close>

lemma audited_bundle:
  assumes "verify_main ml (jx_codec jx) peers j max_attempts = VerifyOk b"
    and peers: "\<And>k. peers k = None \<or> peers k = coordinator_peer jx cc s" and req: "envelope_fits (jx_codec jx) (GetJob j)"
    and fits: "\<And>resp. read_response (jx_merkle jx) cc (cs_records s) (cs_log s) (jx_captures_dir jx) (cs_files s) (GetJob j) = Some resp \<Longrightarrow>
      envelope_fits (jx_codec jx) resp"
  shows "lb_build_bundle (jx_merkle jx) (cs_records s) (cs_log s) j = Some b"
proof -
  obtain i where i: "request_job (jx_codec jx) (peers i) j = Inr (Some b)" using verify_ok_served [OF assms(1)] by blast
  have "request_job (jx_codec jx) None j = Inl VeConnect" by (simp add: request_job_def verify_exchange_def)
  then have "request_job (jx_codec jx) (coordinator_peer jx cc s) j = Inr (Some b)" using peers [of i] i by auto
  from request_job_coordinator [OF this req fits] show ?thesis .
qed


text \<open>The run of the coordinator's example, with an encoding that also carries the answers of the read server.\<close>

definition trail_state :: coordinator where
  "trail_state = snd (the (coordinator_main toy_jx toy_ix toy_cfg [toy_peer] toy_evs False))"

lemma trail_run:
  "\<exists>s r. coordinator_main (audit_jx b rt len) toy_ix toy_cfg [toy_peer] toy_evs False = Some (1, s) \<and> hm_get (cs_records s) 1 = Some r \<and>
     cs_records s = cs_records trail_state \<and> cs_log s = cs_log trail_state"
proof -
  let ?en = "Some [(7, \<lparr>en_runner_id = 7, en_signing_fp = toy_fleet_fp, en_vrf_fp = toy_fleet_fp, en_enrolled_at_unix_ns = 0, en_initial_reputation_milli = of_nat 1000\<rparr>)]"
  let ?fleet = "[(toy_agent 7 [1] 10 [toy_claim [1] 1, toy_submit APass 7 [1] [5]])\<lparr>ag_sent := [RegisterAck]\<rparr>]"
  have fleet: "accept_fleet toy_envelopes toy_crypto toy_vrf ?en 1 [toy_peer] = Some ?fleet"
    "accept_fleet (audit_codec b rt len) toy_crypto toy_vrf ?en 1 [toy_peer] = Some ?fleet"
    by (simp_all add: accept_fleet_def accept_loop.simps accept_one_def toy_peer_def is_enrolled_def enroll_fingerprint_def toy_agent_def send_def
        toy_fleet_fp_def toy_envelopes_def audit_codec_def MAX_ENVELOPE_BYTES_PUB_def) (simp_all add: toy_crypto_def)
  have "\<exists>s r. main_loop (audit_jx b rt len) 1 demo_requirements 1 0 [PollJob p] (coordinator_start ?fleet (LogMem log_new) None) = Some (1, s) \<and> hm_get (cs_records s) 1 = Some r \<and>
     cs_records s = cs_records (snd (the (main_loop toy_jx 1 demo_requirements 1 0 [PollJob p] (coordinator_start ?fleet (LogMem log_new) None)))) \<and>
     cs_log s = cs_log (snd (the (main_loop toy_jx 1 demo_requirements 1 0 [PollJob p] (coordinator_start ?fleet (LogMem log_new) None))))" for p
    by (simp add: audit_jx_def toy_job_simps demo_requirements_def coordinator_start_def toy_outcome)
  moreover have "cf_journal toy_cfg = None" "cf_log toy_cfg = None" "cf_fleet toy_cfg = 1" "cf_committee_size toy_cfg = 1" "cf_max_jobs toy_cfg = 1"
    "cf_queue_cap toy_cfg = 4" "\<not> cf_admin_addr toy_cfg" "cf_submit_stdin toy_cfg"
    "with_config toy_cfg toy_jx = toy_jx" "with_config toy_cfg (audit_jx b rt len) = audit_jx b rt len"
    by (simp_all add: toy_cfg_def with_config_def toy_jx_def audit_jx_def)
  moreover have "jx_crypto (audit_jx b rt len) = toy_crypto" "jx_vrf (audit_jx b rt len) = toy_vrf" by (simp_all add: audit_jx_def)
  ultimately show ?thesis using fleet
    by (simp add: trail_state_def coordinator_main_def toy_opened toy_turns open_journal_def open_log_def open_admin_def loop_turns_def)
qed


end
